(* ===== verification/Go_Base.thy ===== *)
theory Go_Base
  imports Main "HOL-Library.Word" "HOL-Library.Signed_Division"
begin

text \<open>
  The prelude of the development: Go's 64-bit integers and integer division, instants and
  durations, reads and updates of slices, and the generic facts about lists, counting and
  reachable states that every component shares.

  \<^item> \<open>int\<close>, \<open>int64\<close> and \<open>time.Duration\<close> are HOL \<open>int\<close> values with the wrap-around of
    the 64-bit platform written out by \<open>i64\<close> wherever the code's arithmetic could leave
    the range.
  \<^item> A run-time panic (division by zero, a negative subslice length, an index out of range) is
    \<open>None\<close> of an \<open>option\<close>.
  \<^item> A function that can also fail with an error returns a \<open>res\<close>: a value, an error or a
    panic.
  \<^item> Go strings are byte strings, so HOL \<open>string\<close> values (lists of 8-bit \<open>char\<close>).
  \<^item> \<open>time.Time\<close> is an unbounded number of nanoseconds since Go's zero time (\<open>zero_time\<close>),
    and \<open>time.Now()\<close> is an argument.
\<close>

named_theorems go_arith \<open>facts that compute the 64-bit arithmetic inside its range\<close>
named_theorems inv_keep \<open>preservation of the components' invariants\<close>

section \<open>64-bit integers\<close>

definition i64 :: "int \<Rightarrow> int" where
  "i64 x = (x + 2 ^ 63) mod 2 ^ 64 - 2 ^ 63"

definition in_i64 :: "int \<Rightarrow> bool" where
  "in_i64 x \<longleftrightarrow> - (2 ^ 63) \<le> x \<and> x < 2 ^ 63"

lemma i64_id [go_arith]: "in_i64 x \<Longrightarrow> i64 x = x"
  by (simp add: i64_def in_i64_def)

lemma i64_in_i64 [simp]: "in_i64 (i64 x)"
proof -
  have "0 \<le> (x + 2 ^ 63) mod 2 ^ 64" "(x + 2 ^ 63) mod 2 ^ 64 < 2 ^ 64"
    by simp_all
  then show ?thesis by (simp add: i64_def in_i64_def)
qed

text \<open>The wrap-around is the one of two's complement: \<open>i64\<close> is the signed reading of the
  64-bit word.\<close>

lemma i64_is_sint: "i64 x = sint (word_of_int x :: 64 word)"
proof -
  have "sint (word_of_int x :: 64 word) = signed_take_bit 63 x"
    by (simp add: signed_of_int)
  also have "\<dots> = i64 x"
    by (simp add: i64_def signed_take_bit_eq_take_bit_shift take_bit_eq_mod)
  finally show ?thesis by simp
qed

lemma i64_id_nonneg [go_arith]: "0 \<le> x \<Longrightarrow> x < 2 ^ 63 \<Longrightarrow> i64 x = x"
  by (rule i64_id) (simp add: in_i64_def)

text \<open>Inner wrap-arounds disappear under an outer one.\<close>

lemma i64_cong: "x mod 2 ^ 64 = y mod 2 ^ 64 \<Longrightarrow> i64 x = i64 y"
  unfolding i64_def by (metis mod_add_left_eq)

lemma i64_mod: "i64 x mod 2 ^ 64 = x mod 2 ^ 64"
proof -
  have "((x + 2 ^ 63) mod 2 ^ 64 - 2 ^ 63) mod 2 ^ 64 = (x + 2 ^ 63 - 2 ^ 63) mod 2 ^ 64"
    by (rule mod_diff_left_eq)
  then show ?thesis by (simp add: i64_def)
qed

lemma i64_add_left [go_arith]: "i64 (i64 x + y) = i64 (x + y)"
  by (rule i64_cong) (metis i64_mod mod_add_left_eq)

lemma i64_diff_left [go_arith]: "i64 (i64 x - y) = i64 (x - y)"
  by (rule i64_cong) (metis i64_mod mod_diff_left_eq)

text \<open>Go's integer quotient truncates towards zero; a zero divisor panics.\<close>

definition go_div :: "int \<Rightarrow> int \<Rightarrow> int option" where
  "go_div a b = (if b = 0 then None else Some (i64 (a sdiv b)))"

lemma sdiv_nonneg: "0 \<le> (a::int) \<Longrightarrow> 0 < b \<Longrightarrow> a sdiv b = a div b"
  by (cases "a = 0") (simp_all add: signed_divide_int_def sgn_if)

lemma go_div_nonneg [go_arith]:
  assumes "0 \<le> a" and "a < 2 ^ 63" and "0 < b"
  shows "go_div a b = Some (a div b)"
proof -
  have "a div b \<le> a"
    using assms by (simp add: div_le_dividend zdiv_mono2 [of a 1 b, simplified])
  moreover have "0 \<le> a div b"
    using assms by (simp add: pos_imp_zdiv_nonneg_iff)
  ultimately show ?thesis
    using assms by (simp add: go_div_def sdiv_nonneg i64_id_nonneg)
qed

section \<open>Instants and durations\<close>

type_synonym gtime = int
type_synonym duration = int

definition zero_time :: gtime where
  "zero_time = 0"

definition ms :: "int \<Rightarrow> duration" where
  "ms n = n * 1000000"

definition seconds :: "int \<Rightarrow> duration" where
  "seconds n = n * 1000000000"

text \<open>\<open>t.Sub(u)\<close> saturates at the ends of the duration range.\<close>

definition time_sub :: "gtime \<Rightarrow> gtime \<Rightarrow> duration" where
  "time_sub t u = max (- (2 ^ 63)) (min (2 ^ 63 - 1) (t - u))"

lemma time_sub_small [go_arith]:
  "\<bar>t - u\<bar> < 2 ^ 63 \<Longrightarrow> time_sub t u = t - u"
  by (simp add: time_sub_def)

section \<open>Results\<close>

text \<open>A Go function with an error result: it returns a value, an error, or panics.\<close>

datatype ('e, 'a) res = Ret 'a | Err 'e | Panic

fun res_bind :: "('e, 'a) res \<Rightarrow> ('a \<Rightarrow> ('e, 'b) res) \<Rightarrow> ('e, 'b) res" where
  "res_bind (Ret x) f = f x"
| "res_bind (Err e) f = Err e"
| "res_bind Panic f = Panic"

lemma res_bind_Ret: "res_bind r f = Ret y \<longleftrightarrow> (\<exists>x. r = Ret x \<and> f x = Ret y)"
  by (cases r) auto

fun of_panic :: "'a option \<Rightarrow> ('e, 'a) res" where
  "of_panic None = Panic"
| "of_panic (Some x) = Ret x"

lemma of_panic_Ret [simp]: "of_panic v = Ret x \<longleftrightarrow> v = Some x"
  by (cases v) auto

section \<open>Lists read by index\<close>

definition in_range :: "int \<Rightarrow> 'a list \<Rightarrow> bool" where
  "in_range i xs \<longleftrightarrow> 0 \<le> i \<and> i < int (length xs)"

lemma in_range_nat [dest]: "in_range i xs \<Longrightarrow> nat i < length xs"
  by (auto simp: in_range_def)

lemma in_range_update [simp]: "in_range i (xs[k := v]) = in_range i xs"
  by (simp add: in_range_def)

lemma in_range_of_nat [simp]: "in_range (int k) xs \<longleftrightarrow> k < length xs"
  by (simp add: in_range_def)

text \<open>A loop that stops at the first element with a property.\<close>

fun find_index :: "('a \<Rightarrow> bool) \<Rightarrow> 'a list \<Rightarrow> nat option" where
  "find_index P [] = None"
| "find_index P (x # xs) = (if P x then Some 0 else map_option Suc (find_index P xs))"

lemma find_index_Some:
  "find_index P xs = Some k \<Longrightarrow> k < length xs \<and> P (xs ! k) \<and> (\<forall>j < k. \<not> P (xs ! j))"
  by (induction xs arbitrary: k) (auto split: if_splits simp: less_Suc_eq_0_disj)

lemma find_index_None: "find_index P xs = None \<longleftrightarrow> (\<forall>x \<in> set xs. \<not> P x)"
  by (induction xs) auto

text \<open>The number of elements that satisfy a predicate, and how one update changes it.\<close>

definition count_if :: "('a \<Rightarrow> bool) \<Rightarrow> 'a list \<Rightarrow> nat" where
  "count_if P xs = length (filter P xs)"

lemma count_if_simps [simp]:
  "count_if P [] = 0"
  "count_if P (x # xs) = (if P x then Suc (count_if P xs) else count_if P xs)"
  "count_if P (xs @ ys) = count_if P xs + count_if P ys"
  by (simp_all add: count_if_def)

lemma count_if_le: "count_if P xs \<le> length xs"
  by (simp add: count_if_def)

lemma count_if_update:
  "k < length xs \<Longrightarrow>
     count_if P (xs[k := v]) + (if P (xs ! k) then 1 else 0) =
     count_if P xs + (if P v then 1 else 0)"
proof (induction xs arbitrary: k)
  case (Cons x xs)
  show ?case
  proof (cases k)
    case (Suc j)
    with Cons.IH [of j] Cons.prems show ?thesis by (simp split: if_splits)
  qed simp
qed simp

lemma count_if_update_int:
  assumes "k < length xs"
  shows "int (count_if P (xs[k := v])) =
    int (count_if P xs) - (if P (xs ! k) then 1 else 0) + (if P v then 1 else 0)"
  using count_if_update [OF assms, of P v] by (auto split: if_splits)

lemma count_if_same:
  "k < length xs \<Longrightarrow> P v = P (xs ! k) \<Longrightarrow> count_if P (xs[k := v]) = count_if P xs"
  using count_if_update [of k xs P v] by (auto split: if_splits)

lemma count_if_all: "count_if P xs = length xs \<Longrightarrow> x \<in> set xs \<Longrightarrow> P x"
  by (induction xs) (auto simp: count_if_le split: if_splits
      dest: order.trans [OF eq_imp_le [OF sym] count_if_le])

lemma count_if_pos: "k < length xs \<Longrightarrow> P (xs ! k) \<Longrightarrow> 0 < count_if P xs"
  by (auto simp: count_if_def filter_empty_conv)

lemma count_if_zero: "count_if P xs = 0 \<longleftrightarrow> (\<forall>x\<in>set xs. \<not> P x)"
  by (auto simp: count_if_def filter_empty_conv)

section \<open>Slices of byte strings\<close>

type_synonym bytes = "8 word list"

text \<open>\<open>subslice xs a n\<close> is \<open>xs[a : a+n]\<close>: what a server sends for a byte range.\<close>

definition subslice :: "'a list \<Rightarrow> int \<Rightarrow> int \<Rightarrow> 'a list" where
  "subslice xs a n = take (nat n) (drop (nat a) xs)"

lemma length_subslice:
  "0 \<le> a \<Longrightarrow> 0 \<le> n \<Longrightarrow> a + n \<le> int (length xs) \<Longrightarrow> length (subslice xs a n) = nat n"
  by (simp add: subslice_def)

lemma subslice_append:
  assumes "0 \<le> a" and "0 \<le> m" and "0 \<le> n"
  shows "subslice xs a m @ subslice xs (a + m) n = subslice xs a (m + n)"
proof -
  have "nat (a + m) = nat m + nat a" and "nat (m + n) = nat m + nat n"
    using assms by simp_all
  then show ?thesis
    by (simp add: subslice_def take_add add.commute)
qed

lemma subslice_all: "int (length xs) \<le> n \<Longrightarrow> subslice xs 0 n = xs"
  by (simp add: subslice_def)

section \<open>Reachable states and invariants\<close>

inductive reach :: "('s \<Rightarrow> bool) \<Rightarrow> ('s \<Rightarrow> 's \<Rightarrow> bool) \<Rightarrow> 's \<Rightarrow> bool"
  for init :: "'s \<Rightarrow> bool" and step :: "'s \<Rightarrow> 's \<Rightarrow> bool" where
  reach_init: "init s \<Longrightarrow> reach init step s"
| reach_step: "reach init step s \<Longrightarrow> step s t \<Longrightarrow> reach init step t"

text \<open>The contract between a step relation and a predicate that it keeps.\<close>

locale inductive_invariant =
  fixes init :: "'s \<Rightarrow> bool"
    and step :: "'s \<Rightarrow> 's \<Rightarrow> bool"
    and I :: "'s \<Rightarrow> bool"
  assumes init_I: "init s \<Longrightarrow> I s"
    and step_I: "step s t \<Longrightarrow> I s \<Longrightarrow> I t"
begin

lemma reach_I: "reach init step s \<Longrightarrow> I s"
  by (induction rule: reach.induct) (auto intro: init_I step_I)

lemma steps_I: "step\<^sup>*\<^sup>* s t \<Longrightarrow> I s \<Longrightarrow> I t"
  by (induction rule: rtranclp_induct) (auto intro: step_I)

end

lemma reach_rtranclp: "step\<^sup>*\<^sup>* s t \<Longrightarrow> reach init step s \<Longrightarrow> reach init step t"
  by (induction rule: rtranclp_induct) (auto intro: reach_step)

end
