(* ===== verification/Go_Strings.thy ===== *)
theory Go_Strings
  imports Go_Base "HOL-Library.Char_ord"
begin

text \<open>
  The part of Go's \<open>strings\<close>, \<open>strconv\<close> and \<open>fmt\<close> packages that the command line, the HTTP
  adapter and the job runner use, on byte strings. \<open>trim_space\<close> removes the UTF-8 encodings
  of all Unicode white space; \<open>to_upper\<close> is Go's on ASCII text. The round trip of decimal
  integers is the contract \<open>int_text\<close>.
\<close>

section \<open>Searching and splitting\<close>

definition has_prefix :: "string \<Rightarrow> string \<Rightarrow> bool" where
  "has_prefix s p \<longleftrightarrow> take (length p) s = p"

definition has_suffix :: "string \<Rightarrow> string \<Rightarrow> bool" where
  "has_suffix s p \<longleftrightarrow> length p \<le> length s \<and> drop (length s - length p) s = p"

definition trim_prefix :: "string \<Rightarrow> string \<Rightarrow> string" where
  "trim_prefix s p = (if has_prefix s p then drop (length p) s else s)"

text \<open>\<open>strings.Index\<close> and \<open>strings.LastIndex\<close>; \<open>None\<close> is \<open>-1\<close>.\<close>

fun str_index :: "string \<Rightarrow> string \<Rightarrow> nat option" where
  "str_index s sub =
     (if has_prefix s sub then Some 0
      else case s of [] \<Rightarrow> None | _ # s' \<Rightarrow> map_option Suc (str_index s' sub))"

declare str_index.simps [simp del]

fun last_index_char :: "string \<Rightarrow> char \<Rightarrow> nat option" where
  "last_index_char [] c = None"
| "last_index_char (d # s) c =
     (case last_index_char s c of
        Some k \<Rightarrow> Some (Suc k)
      | None \<Rightarrow> if d = c then Some 0 else None)"

text \<open>\<open>strings.Split\<close> and \<open>strings.SplitN(_, _, 2)\<close> with a separator of one byte; the second
  is \<open>None\<close> when the result has one part.\<close>

fun split_on :: "char \<Rightarrow> string \<Rightarrow> string list" where
  "split_on c [] = [[]]"
| "split_on c (d # s) =
     (if d = c then [] # split_on c s
      else case split_on c s of [] \<Rightarrow> [[d]] | p # ps \<Rightarrow> (d # p) # ps)"

fun split_two :: "char \<Rightarrow> string \<Rightarrow> (string \<times> string) option" where
  "split_two c [] = None"
| "split_two c (d # s) =
     (if d = c then Some ([], s)
      else map_option (\<lambda>(p, r). (d # p, r)) (split_two c s))"

definition replace_char :: "char \<Rightarrow> string \<Rightarrow> string \<Rightarrow> string" where
  "replace_char c r s = concat (map (\<lambda>d. if d = c then r else [d]) s)"

section \<open>Trimming and case\<close>

text \<open>The encodings of the code points that \<open>unicode.IsSpace\<close> accepts.\<close>

definition go_spaces :: "string list" where
  "go_spaces =
     [[CHR 0x09], [CHR 0x0A], [CHR 0x0B], [CHR 0x0C], [CHR 0x0D], [CHR 0x20],
      [CHR 0xC2, CHR 0x85], [CHR 0xC2, CHR 0xA0], [CHR 0xE1, CHR 0x9A, CHR 0x80],
      [CHR 0xE2, CHR 0x80, CHR 0x80], [CHR 0xE2, CHR 0x80, CHR 0x81],
      [CHR 0xE2, CHR 0x80, CHR 0x82], [CHR 0xE2, CHR 0x80, CHR 0x83],
      [CHR 0xE2, CHR 0x80, CHR 0x84], [CHR 0xE2, CHR 0x80, CHR 0x85],
      [CHR 0xE2, CHR 0x80, CHR 0x86], [CHR 0xE2, CHR 0x80, CHR 0x87],
      [CHR 0xE2, CHR 0x80, CHR 0x88], [CHR 0xE2, CHR 0x80, CHR 0x89],
      [CHR 0xE2, CHR 0x80, CHR 0x8A], [CHR 0xE2, CHR 0x80, CHR 0xA8],
      [CHR 0xE2, CHR 0x80, CHR 0xA9], [CHR 0xE2, CHR 0x80, CHR 0xAF],
      [CHR 0xE2, CHR 0x81, CHR 0x9F], [CHR 0xE3, CHR 0x80, CHR 0x80]]"

definition space_at :: "string list \<Rightarrow> string \<Rightarrow> nat" where
  "space_at sps s = (case find_index (has_prefix s) sps of None \<Rightarrow> 0 | Some k \<Rightarrow> length (sps ! k))"

text \<open>Left trimming by at most as many spaces as there are bytes.\<close>

fun trim_left_n :: "nat \<Rightarrow> string list \<Rightarrow> string \<Rightarrow> string" where
  "trim_left_n 0 sps s = s"
| "trim_left_n (Suc n) sps s =
     (let k = space_at sps s in if k = 0 then s else trim_left_n n sps (drop k s))"

definition trim_space :: "string \<Rightarrow> string" where
  "trim_space s =
     (let l = trim_left_n (length s) go_spaces s
      in rev (trim_left_n (length l) (map rev go_spaces) (rev l)))"

definition trim_set :: "string \<Rightarrow> string \<Rightarrow> string" where
  "trim_set s cutset =
     rev (dropWhile (\<lambda>c. c \<in> set cutset) (rev (dropWhile (\<lambda>c. c \<in> set cutset) s)))"

definition upper_char :: "char \<Rightarrow> char" where
  "upper_char c = (if CHR ''a'' \<le> c \<and> c \<le> CHR ''z'' then char_of (of_char c - 32 :: nat) else c)"

definition to_upper :: "string \<Rightarrow> string" where
  "to_upper s = map upper_char s"

section \<open>Decimal integers\<close>

definition is_digit :: "char \<Rightarrow> bool" where
  "is_digit c \<longleftrightarrow> CHR ''0'' \<le> c \<and> c \<le> CHR ''9''"

definition digit_value :: "char \<Rightarrow> int" where
  "digit_value c = int (of_char c) - 48"

definition digits_value :: "string \<Rightarrow> int" where
  "digits_value s = fold (\<lambda>c v. v * 10 + digit_value c) s 0"

text \<open>\<open>strconv.ParseInt(s, 10, 64)\<close> and \<open>strconv.Atoi\<close>: an optional sign, then digits, in the
  range of 64 bits.\<close>

definition parse_int :: "string \<Rightarrow> int option" where
  "parse_int s =
     (let (neg, ds) = (case s of
            [] \<Rightarrow> (False, [])
          | c # r \<Rightarrow> if c = CHR ''-'' then (True, r) else if c = CHR ''+'' then (False, r)
                      else (False, s));
          v = (if neg then - digits_value ds else digits_value ds)
      in if ds \<noteq> [] \<and> list_all is_digit ds \<and> in_i64 v then Some v else None)"

definition digit_char :: "nat \<Rightarrow> char" where
  "digit_char n = char_of (48 + n)"

fun fmt_nat :: "nat \<Rightarrow> string" where
  "fmt_nat n = (if n < 10 then [digit_char n] else fmt_nat (n div 10) @ [digit_char (n mod 10)])"

declare fmt_nat.simps [simp del]

text \<open>\<open>%d\<close>.\<close>

definition fmt_int :: "int \<Rightarrow> string" where
  "fmt_int n = (if n < 0 then CHR ''-'' # fmt_nat (nat (- n)) else fmt_nat (nat n))"

lemma digit_char_facts:
  "n < 10 \<Longrightarrow> is_digit (digit_char n) \<and> digit_value (digit_char n) = int n"
proof -
  assume "n < 10"
  then have "n \<in> set [0..<10]" by simp
  moreover have "list_all (\<lambda>n. is_digit (digit_char n) \<and> digit_value (digit_char n) = int n) [0..<10]"
    by (simp add: upt_rec digit_char_def is_digit_def digit_value_def less_eq_char_def)
  ultimately show ?thesis by (simp add: list_all_iff)
qed

lemma digits_value_append:
  "digits_value (s @ [c]) = digits_value s * 10 + digit_value c"
  by (simp add: digits_value_def)

lemma fmt_nat_digits: "fmt_nat n \<noteq> [] \<and> list_all is_digit (fmt_nat n) \<and> digits_value (fmt_nat n) = int n"
proof (induction n rule: fmt_nat.induct)
  case (1 n)
  show ?case
  proof (cases "n < 10")
    case True
    then show ?thesis
      using digit_char_facts [of n] by (subst (1 2 3) fmt_nat.simps) (simp add: digits_value_def)
  next
    case False
    have f: "fmt_nat n = fmt_nat (n div 10) @ [digit_char (n mod 10)]"
      using False by (simp add: fmt_nat.simps [of n])
    have "int n = int (n div 10) * 10 + int (n mod 10)"
      by (simp add: zdiv_int zmod_int)
    then show ?thesis
      using 1 False digit_char_facts [of "n mod 10"] by (simp add: f digits_value_append)
  qed
qed

lemma digit_not_special:
  "is_digit c \<Longrightarrow> c \<noteq> CHR ''-'' \<and> c \<noteq> CHR ''+'' \<and> c \<noteq> CHR ''/'' \<and> c \<noteq> CHR '' ''"
  by (auto simp: is_digit_def less_eq_char_def)

lemma parse_fmt_int: "in_i64 n \<Longrightarrow> parse_int (fmt_int n) = Some n"
proof (cases "n < 0")
  case True
  assume "in_i64 n"
  then show ?thesis
    using True fmt_nat_digits [of "nat (- n)"] by (simp add: parse_int_def fmt_int_def Let_def)
next
  case False
  assume n: "in_i64 n"
  obtain c r where cr: "fmt_nat (nat n) = c # r"
    using fmt_nat_digits [of "nat n"] by (cases "fmt_nat (nat n)") auto
  have "is_digit c" using fmt_nat_digits [of "nat n"] cr by simp
  then show ?thesis
    using n False fmt_nat_digits [of "nat n"] cr digit_not_special [of c]
    by (simp add: parse_int_def fmt_int_def Let_def)
qed

text \<open>Texts that read back as the value they were made from.\<close>

locale int_text =
  fixes show_text :: "'v \<Rightarrow> string" and read_text :: "string \<Rightarrow> 'v option" and valid :: "'v \<Rightarrow> bool"
  assumes read_show: "valid v \<Longrightarrow> read_text (show_text v) = Some v"
begin

lemma show_inj: "valid v \<Longrightarrow> valid w \<Longrightarrow> show_text v = show_text w \<Longrightarrow> v = w"
  by (metis read_show option.inject)

end

interpretation decimal: int_text fmt_int parse_int in_i64
  by unfold_locales (rule parse_fmt_int)

section \<open>Facts about splitting and trimming\<close>

lemma split_two_append:
  "c \<notin> set p \<Longrightarrow> split_two c (p @ c # r) = Some (p, r)"
  by (induction p) auto

lemma split_on_none: "c \<notin> set p \<Longrightarrow> split_on c p = [p]"
  by (induction p) auto

lemma split_on_append:
  "c \<notin> set p \<Longrightarrow> split_on c (p @ c # r) = p # split_on c r"
  by (induction p) auto

text \<open>Trimming does nothing to a text without a byte that can begin or end white space.\<close>

definition space_bytes :: "char set" where
  "space_bytes = \<Union> (set ` set go_spaces)"

lemma digit_not_space_byte: "is_digit c \<Longrightarrow> c \<notin> space_bytes"
  by (auto simp: space_bytes_def go_spaces_def is_digit_def less_eq_char_def)

lemma space_at_0:
  assumes "\<forall>sp \<in> set sps. sp \<noteq> [] \<and> hd sp \<in> space_bytes" and "s = [] \<or> hd s \<notin> space_bytes"
  shows "space_at sps s = 0"
proof -
  have "\<not> has_prefix s sp" if "sp \<in> set sps" for sp
    using assms that by (cases sp; cases s) (auto simp: has_prefix_def)
  then show ?thesis
    using find_index_None [of "has_prefix s" sps] by (simp add: space_at_def)
qed

lemma trim_left_id:
  assumes "\<forall>sp \<in> set sps. sp \<noteq> [] \<and> hd sp \<in> space_bytes" and "s = [] \<or> hd s \<notin> space_bytes"
  shows "trim_left_n n sps s = s"
  using space_at_0 [OF assms] by (cases n) simp_all

lemma trim_space_id:
  assumes "set s \<inter> space_bytes = {}"
  shows "trim_space s = s"
proof -
  have ne: "\<forall>sp \<in> set go_spaces. sp \<noteq> [] \<and> hd sp \<in> space_bytes"
    "\<forall>sp \<in> set (map rev go_spaces). sp \<noteq> [] \<and> hd sp \<in> space_bytes"
    by (auto simp: go_spaces_def space_bytes_def)
  have out: "c \<notin> space_bytes" if "c \<in> set s" for c
    using assms that by blast
  have "s = [] \<or> hd s \<notin> space_bytes" "rev s = [] \<or> hd (rev s) \<notin> space_bytes"
    using out hd_in_set [of s] hd_in_set [of "rev s"] by (blast, metis set_rev)
  then show ?thesis
    using trim_left_id [OF ne(1)] trim_left_id [OF ne(2)] by (simp add: trim_space_def Let_def)
qed

lemma trim_fmt_nat: "trim_space (fmt_nat n) = fmt_nat n"
  using fmt_nat_digits [of n] digit_not_space_byte
  by (intro trim_space_id) (auto simp: list_all_iff)

lemma fmt_nat_no_special:
  "CHR ''/'' \<notin> set (fmt_nat n)" "CHR ''-'' \<notin> set (fmt_nat n)"
  using fmt_nat_digits [of n] digit_not_special by (auto simp: list_all_iff)

lemma fmt_int_nonneg: "0 \<le> n \<Longrightarrow> fmt_int n = fmt_nat (nat n)"
  by (simp add: fmt_int_def)

end
