(* ===== verification/Chunk_Plan.thy ===== *)
theory Chunk_Plan
  imports Go_Base
begin

text \<open>
  The chunk planner, \<open>internal/chunk/chunk.go\<close>: the life cycle of a chunk, the chunk record
  and the functions \<open>Plan\<close> and \<open>ChunkCount\<close>. The lemmas show that a plan tiles the object:
  chunks are numbered in order, each starts where the one before ends, and their byte ranges
  concatenated give the object back. The contract on which the sinks, the scheduler and
  resume rely is the locale \<open>chunk_layout\<close>.
\<close>

section \<open>Chunks\<close>

datatype chunk_state =
  StatePending | StateActive | StateCompleted | StateWritten | StateRetryWait | StateFailed

fun chunk_state_String :: "chunk_state \<Rightarrow> string" where
  "chunk_state_String StatePending = ''pending''"
| "chunk_state_String StateActive = ''active''"
| "chunk_state_String StateCompleted = ''completed''"
| "chunk_state_String StateWritten = ''written''"
| "chunk_state_String StateRetryWait = ''retry-wait''"
| "chunk_state_String StateFailed = ''failed''"

record chunk =
  cIndex :: int
  cStart :: int
  cLength :: int
  cState :: chunk_state
  cAttempts :: int
  cWorkerSlot :: int
  cStartTime :: gtime
  cRetryAfter :: gtime
  cBytesRecv :: int
  cLastProgress :: gtime
  cHedged :: bool

section \<open>The planner\<close>

text \<open>\<open>(objectSize + p.SplitSize - 1) / p.SplitSize\<close>; the division panics on a zero split
  size, and every operation wraps at 64 bits.\<close>

definition chunk_quot :: "int \<Rightarrow> int \<Rightarrow> int option" where
  "chunk_quot splitSize objectSize =
     go_div (i64 (i64 (objectSize + splitSize) - 1)) splitSize"

definition plan_chunk :: "int \<Rightarrow> int \<Rightarrow> nat \<Rightarrow> chunk" where
  "plan_chunk splitSize objectSize i =
     (let start = i64 (int i * splitSize);
          length =
            (if i64 (start + splitSize) > objectSize then i64 (objectSize - start)
             else splitSize)
      in \<lparr>cIndex = int i, cStart = start, cLength = length, cState = StatePending,
          cAttempts = 0, cWorkerSlot = -1, cStartTime = zero_time,
          cRetryAfter = zero_time, cBytesRecv = 0, cLastProgress = zero_time,
          cHedged = False\<rparr>)"

text \<open>\<open>make([]Chunk, n)\<close> panics for a negative \<open>n\<close>.\<close>

definition plan :: "int \<Rightarrow> int \<Rightarrow> chunk list option" where
  "plan splitSize objectSize =
     (if objectSize \<le> 0 then Some []
      else case chunk_quot splitSize objectSize of
        None \<Rightarrow> None
      | Some n \<Rightarrow>
          if n < 0 then None
          else Some (map (plan_chunk splitSize objectSize) [0..<nat n]))"

definition chunk_count :: "int \<Rightarrow> int \<Rightarrow> int option" where
  "chunk_count splitSize objectSize =
     (if objectSize \<le> 0 then Some 0 else chunk_quot splitSize objectSize)"

section \<open>Tilings\<close>

text \<open>\<open>tiled_from a cs b\<close>: the chunks cover the bytes from \<open>a\<close> up to \<open>b\<close> one after the
  other, without gap or overlap.\<close>

fun tiled_from :: "int \<Rightarrow> chunk list \<Rightarrow> int \<Rightarrow> bool" where
  "tiled_from a [] b = (a = b)"
| "tiled_from a (c # cs) b =
     (cStart c = a \<and> 0 < cLength c \<and> tiled_from (a + cLength c) cs b)"

definition chunk_bytes :: "'a list \<Rightarrow> chunk \<Rightarrow> 'a list" where
  "chunk_bytes obj c = subslice obj (cStart c) (cLength c)"

lemma tiled_from_le: "tiled_from a cs b \<Longrightarrow> a \<le> b"
  by (induction cs arbitrary: a) fastforce+

lemma tiled_from_append:
  "tiled_from a (xs @ ys) b \<longleftrightarrow> (\<exists>m. tiled_from a xs m \<and> tiled_from m ys b)"
  by (induction xs arbitrary: a) auto

lemma tiled_from_bounds:
  "tiled_from a cs b \<Longrightarrow> c \<in> set cs \<Longrightarrow>
     a \<le> cStart c \<and> 0 < cLength c \<and> cStart c + cLength c \<le> b"
proof (induction cs arbitrary: a)
  case (Cons d ds)
  then show ?case using tiled_from_le [of "a + cLength d" ds b] by fastforce
qed simp

lemma tiled_from_concat:
  assumes "tiled_from a cs b" and "0 \<le> a"
  shows "concat (map (chunk_bytes obj) cs) = subslice obj a (b - a)"
  using assms
proof (induction cs arbitrary: a)
  case Nil
  then show ?case by (simp add: subslice_def)
next
  case (Cons c cs)
  have "a + cLength c \<le> b"
    using Cons.prems by (auto intro: tiled_from_le)
  moreover have "concat (map (chunk_bytes obj) cs) =
      subslice obj (a + cLength c) (b - (a + cLength c))"
    using Cons.prems by (intro Cons.IH) auto
  ultimately show ?case
    using Cons.prems
      subslice_append [of a "cLength c" "b - (a + cLength c)" obj]
    by (simp add: chunk_bytes_def [of obj c])
qed

section \<open>The plan tiles the object\<close>

text \<open>The sizes for which the planner's arithmetic stays inside 64 bits.\<close>

definition plan_ok :: "int \<Rightarrow> int \<Rightarrow> bool" where
  "plan_ok splitSize objectSize \<longleftrightarrow>
     0 < splitSize \<and> 0 < objectSize \<and> objectSize + splitSize \<le> 2 ^ 63"

lemma plan_ok_pos: "plan_ok s n \<Longrightarrow> 0 < s \<and> 0 < n"
  by (simp add: plan_ok_def)

definition n_chunks :: "int \<Rightarrow> int \<Rightarrow> nat" where
  "n_chunks splitSize objectSize = nat ((objectSize + splitSize - 1) div splitSize)"

lemma chunk_quot_ok:
  "plan_ok s n \<Longrightarrow> chunk_quot s n = Some (int (n_chunks s n))"
  by (simp add: chunk_quot_def plan_ok_def i64_diff_left i64_id_nonneg go_div_nonneg
      n_chunks_def pos_imp_zdiv_nonneg_iff)

lemma n_chunks_bounds:
  assumes "plan_ok s n"
  shows "0 < n_chunks s n" and "(int (n_chunks s n) - 1) * s < n"
    and "n \<le> int (n_chunks s n) * s"
proof -
  let ?q = "(n + s - 1) div s"
  have pos: "0 < s" "0 < n"
    using assms by (auto simp: plan_ok_def)
  have eq: "?q * s + (n + s - 1) mod s = n + s - 1"
    by simp
  have m: "0 \<le> (n + s - 1) mod s" "(n + s - 1) mod s < s"
    using pos by auto
  have "1 \<le> ?q"
    using pos zdiv_mono1 [of s "n + s - 1" s] by simp
  then have q: "int (n_chunks s n) = ?q"
    by (simp add: n_chunks_def)
  show "0 < n_chunks s n" using \<open>1 \<le> ?q\<close> q by linarith
  show "(int (n_chunks s n) - 1) * s < n"
    using eq m unfolding q left_diff_distrib by linarith
  show "n \<le> int (n_chunks s n) * s"
    using eq m unfolding q by linarith
qed

lemma plan_chunk_ok:
  assumes ok: "plan_ok s n" and i: "i < n_chunks s n"
  shows "cStart (plan_chunk s n i) = int i * s"
    and "cLength (plan_chunk s n i) = min s (n - int i * s)"
    and "0 < cLength (plan_chunk s n i)"
proof -
  have "int i * s \<le> (int (n_chunks s n) - 1) * s"
    using ok i by (intro mult_right_mono) (auto simp: plan_ok_def)
  then have lt: "int i * s < n"
    using n_chunks_bounds(2) [OF ok] by linarith
  have nn: "0 \<le> int i * s" "0 < s" "0 < n" "n + s \<le> 2 ^ 63"
    using ok by (auto simp: plan_ok_def)
  have w: "i64 (int i * s) = int i * s" "i64 (int i * s + s) = int i * s + s"
    "i64 (n - int i * s) = n - int i * s"
    using lt nn by (intro i64_id_nonneg; linarith)+
  show "cStart (plan_chunk s n i) = int i * s"
    by (simp add: plan_chunk_def Let_def w)
  show "cLength (plan_chunk s n i) = min s (n - int i * s)"
    by (auto simp: plan_chunk_def Let_def w)
  then show "0 < cLength (plan_chunk s n i)"
    using lt nn by simp
qed

lemma plan_eq:
  "plan_ok s n \<Longrightarrow> plan s n = Some (map (plan_chunk s n) [0..<n_chunks s n])"
  using plan_ok_pos [of s n] by (auto simp: plan_def chunk_quot_ok)

lemma plan_chunk_fields [simp]:
  "cIndex (plan_chunk s n i) = int i"
  "cState (plan_chunk s n i) = StatePending"
  "cAttempts (plan_chunk s n i) = 0"
  "cWorkerSlot (plan_chunk s n i) = -1"
  "cHedged (plan_chunk s n i) = False"
  by (simp_all add: plan_chunk_def Let_def)

lemma plan_prefix_tiled:
  assumes ok: "plan_ok s n"
  shows "k < n_chunks s n \<Longrightarrow> tiled_from 0 (map (plan_chunk s n) [0..<k]) (int k * s)"
proof (induction k)
  case (Suc k)
  have "int (Suc k) * s \<le> (int (n_chunks s n) - 1) * s"
    using ok Suc.prems by (intro mult_right_mono) (auto simp: plan_ok_def)
  then have "int (Suc k) * s < n"
    using n_chunks_bounds(2) [OF ok] by linarith
  then have "cLength (plan_chunk s n k) = s"
    using plan_chunk_ok(2) [OF ok, of k] Suc.prems by (simp add: algebra_simps)
  then show ?case
    using Suc plan_chunk_ok(1,3) [OF ok, of k]
    by (simp add: tiled_from_append algebra_simps)
qed simp

lemma plan_tiled:
  assumes ok: "plan_ok s n"
  shows "tiled_from 0 (map (plan_chunk s n) [0..<n_chunks s n]) n"
proof -
  obtain k where k: "n_chunks s n = Suc k"
    using n_chunks_bounds(1) [OF ok] gr0_implies_Suc by blast
  have "n \<le> int k * s + s"
    using n_chunks_bounds(3) [OF ok] by (simp add: k algebra_simps)
  then have "cLength (plan_chunk s n k) = n - int k * s"
    using plan_chunk_ok(2) [OF ok, of k] k by simp
  then show ?thesis
    using plan_prefix_tiled [OF ok, of k] plan_chunk_ok(1,3) [OF ok, of k] k
    by (auto simp: tiled_from_append)
qed

section \<open>The layout contract\<close>

text \<open>What the scheduler, the sinks and resume rely on: a plan of an accepted size exists,
  tiles the object and is numbered by position.\<close>

locale chunk_layout =
  fixes mk :: "int \<Rightarrow> int \<Rightarrow> chunk list option"
    and ok :: "int \<Rightarrow> int \<Rightarrow> bool"
  assumes mk_total: "ok s n \<Longrightarrow> mk s n \<noteq> None"
    and mk_tiles: "ok s n \<Longrightarrow> mk s n = Some cs \<Longrightarrow> tiled_from 0 cs n"
    and mk_index: "ok s n \<Longrightarrow> mk s n = Some cs \<Longrightarrow> i < length cs \<Longrightarrow> cIndex (cs ! i) = int i"
begin

lemma reassemble:
  assumes "ok s n" and "mk s n = Some cs" and "int (length obj) = n"
  shows "concat (map (chunk_bytes obj) cs) = obj"
  using tiled_from_concat [OF mk_tiles [OF assms(1,2)], of obj] assms(3)
  by (simp add: subslice_all)

lemma prefix_bytes:
  assumes "ok s n" and "mk s n = Some cs" and "k < length cs"
  shows "concat (map (chunk_bytes obj) (take k cs)) = take (nat (cStart (cs ! k))) obj"
proof -
  have "tiled_from 0 (take k cs @ cs ! k # drop (Suc k) cs) n"
    using mk_tiles [OF assms(1,2)] assms(3) by (simp add: id_take_nth_drop [symmetric])
  then have "tiled_from 0 (take k cs) (cStart (cs ! k))"
    by (auto simp: tiled_from_append)
  from tiled_from_concat [OF this, of obj] show ?thesis
    by (simp add: subslice_def)
qed

lemma inside:
  assumes "ok s n" and "mk s n = Some cs" and "c \<in> set cs"
  shows "0 \<le> cStart c \<and> 0 < cLength c \<and> cStart c + cLength c \<le> n"
  using tiled_from_bounds [OF mk_tiles [OF assms(1,2)] assms(3)] by simp

lemma disjoint:
  assumes "ok s n" and "mk s n = Some cs" and "i < j" and "j < length cs"
  shows "cStart (cs ! i) + cLength (cs ! i) \<le> cStart (cs ! j)"
proof -
  have "tiled_from 0 (take j cs @ cs ! j # drop (Suc j) cs) n"
    using mk_tiles [OF assms(1,2)] assms(4) by (simp add: id_take_nth_drop [symmetric])
  then have "tiled_from 0 (take j cs) (cStart (cs ! j))"
    by (auto simp: tiled_from_append)
  moreover have "cs ! i \<in> set (take j cs)"
    using assms(3,4) by (auto simp: in_set_conv_nth intro!: exI [of _ i])
  ultimately show ?thesis
    by (auto dest: tiled_from_bounds)
qed

end

interpretation plan_layout: chunk_layout plan plan_ok
  by unfold_locales (auto simp: plan_eq plan_tiled)

section \<open>Properties\<close>

text \<open>C11: for every positive split size and object size whose sum fits 64 bits, \<open>Plan\<close>
  returns (it does not panic), the chunks are numbered by position, all pending, at most one
  split size long, tile the object exactly, and their number is the one \<open>ChunkCount\<close> gives.\<close>

theorem plan_correct:
  assumes "plan_ok s n"
  shows "\<exists>cs. plan s n = Some cs \<and> tiled_from 0 cs n \<and>
    chunk_count s n = Some (int (length cs)) \<and>
    (\<forall>i < length cs. cIndex (cs ! i) = int i \<and> cState (cs ! i) = StatePending \<and>
       cLength (cs ! i) \<le> s)"
  using assms plan_tiled [OF assms]
  by (auto simp: plan_eq chunk_count_def chunk_quot_ok plan_chunk_ok(2) dest: plan_ok_pos)

theorem plan_correct_witness:
  "map cLength (the (plan 4 10)) = [4, 4, 2] \<and> tiled_from 0 (the (plan 4 10)) 10"
proof -
  have "plan_ok 4 10" by (simp add: plan_ok_def)
  from plan_correct [OF this] show ?thesis
    by (auto simp: plan_eq plan_ok_def n_chunks_def plan_chunk_def i64_def upt_rec)
qed

text \<open>the byte ranges of a plan, fetched from an object of the planned size and
  concatenated in index order, are the object, and the first \<open>k\<close> of them are the bytes
  before chunk \<open>k\<close>.\<close>

theorem plan_reassembles:
  assumes "plan_ok s n" and "plan s n = Some cs" and "int (length obj) = n"
  shows "concat (map (chunk_bytes obj) cs) = obj \<and>
    (\<forall>k < length cs. concat (map (chunk_bytes obj) (take k cs)) =
       take (nat (cStart (cs ! k))) obj)"
  using plan_layout.reassemble [OF assms] plan_layout.prefix_bytes [OF assms(1,2)]
  by blast

theorem plan_reassembles_witness:
  "concat (map (chunk_bytes ''abcde'') (the (plan 2 5))) = ''abcde''"
proof -
  have ok: "plan_ok 2 5" by (simp add: plan_ok_def)
  then have "plan 2 5 = Some (the (plan 2 5))"
    by (simp add: plan_eq)
  from plan_reassembles [OF ok this, of "''abcde''"] show ?thesis by simp
qed

text \<open>A split size of zero makes \<open>Plan\<close> panic for every non-empty object, although
  nothing in the option parser rejects it.\<close>

lemma plan_zero_split_panics: "plan 0 n = (if n \<le> 0 then Some [] else None)"
  by (simp add: plan_def chunk_quot_def go_div_def)

end
