(* ===== verification/Scheduler.thy ===== *)
theory Scheduler
  imports Chunk_Plan
begin

text \<open>
  The chunk scheduler and connection controller, \<open>internal/schedule/scheduler.go\<close>, with the
  per-worker statistics of \<open>internal/schedule/stats.go\<close>. Every method is one function on the
  scheduler's state, executed under its mutex; \<open>time.Now()\<close> is the argument \<open>now\<close>.
  \<open>NextAssignment\<close> is the pass through its loop between two waits on the condition variable
  (\<open>next_assignment\<close>, which reports \<open>NABlock\<close> where the code waits).
  The invariant that every method keeps is in \<open>Scheduler_Inv\<close>, the properties, about any
  sequence of calls by any number of workers in any order, in \<open>Scheduler_Props\<close>.
\<close>

section \<open>Per-worker statistics\<close>

text \<open>\<open>RecentThroughput\<close> is the floating-point quotient of bytes and seconds; the model
  keeps the two operands of the last division.\<close>

record worker_stats =
  wSlotID :: int
  wActive :: bool
  wUsefulBytes :: int
  wSuccessfulChunks :: int
  wAdmissionFailures :: int
  wRecentThroughput :: "(int \<times> duration) option"
  wRecentChunkDurations :: "duration list"
  wSuppressedUntil :: gtime
  wLastSuccess :: gtime

definition new_worker :: "int \<Rightarrow> worker_stats" where
  "new_worker i =
     \<lparr>wSlotID = i, wActive = False, wUsefulBytes = 0, wSuccessfulChunks = 0,
      wAdmissionFailures = 0, wRecentThroughput = None, wRecentChunkDurations = [],
      wSuppressedUntil = zero_time, wLastSuccess = zero_time\<rparr>"

definition is_suppressed :: "gtime \<Rightarrow> worker_stats \<Rightarrow> bool" where
  "is_suppressed now w \<longleftrightarrow> now < wSuppressedUntil w"

text \<open>\<open>append\<close>, then drop the oldest entry of a window that grew past its bound.\<close>

definition push_window :: "nat \<Rightarrow> duration \<Rightarrow> duration list \<Rightarrow> duration list" where
  "push_window bound d ds =
     (let ds' = ds @ [d] in if bound < length ds' then drop 1 ds' else ds')"

definition record_success :: "gtime \<Rightarrow> int \<Rightarrow> duration \<Rightarrow> worker_stats \<Rightarrow> worker_stats" where
  "record_success now bytes d w =
     (let w1 = w\<lparr>wSuccessfulChunks := wSuccessfulChunks w + 1,
                 wUsefulBytes := i64 (wUsefulBytes w + bytes),
                 wAdmissionFailures := 0,
                 wLastSuccess := now,
                 wRecentChunkDurations := push_window 16 d (wRecentChunkDurations w)\<rparr>
      in if 0 < d then w1\<lparr>wRecentThroughput := Some (bytes, d)\<rparr> else w1)"

definition record_admission_failure :: "worker_stats \<Rightarrow> worker_stats" where
  "record_admission_failure w = w\<lparr>wAdmissionFailures := wAdmissionFailures w + 1\<rparr>"

section \<open>The scheduler's state\<close>

record sched_config =
  cfgRequestedConnections :: int
  cfgStreamBufferSize :: int
  cfgSplitSize :: int
  cfgMaxTries :: int
  cfgStreamMode :: bool

datatype sched_err = ErrCanceled | ErrExhausted int int int

text \<open>\<open>sHasSink\<close> is \<open>streamSink != nil\<close>; \<open>sCancelled\<close> is that the scheduler's context is
  done, by \<open>Cancel\<close>, by a fatal error or through the parent context.\<close>

record sched =
  sCfg :: sched_config
  sChunks :: "chunk list"
  sWorkers :: "worker_stats list"
  sNextUndispatched :: nat
  sActiveCount :: int
  sCompletedCount :: int
  sEffectiveTarget :: int
  sFatalErr :: "sched_err option"
  sHasSink :: bool
  sHedgedChunkIdx :: int
  sHedgeActive :: bool
  sCooldownUntil :: gtime
  sRestoreBackoff :: duration
  sRecentChunkDurations :: "duration list"
  sPressureEvents :: int
  sCancelled :: bool

abbreviation is_state :: "chunk_state \<Rightarrow> chunk \<Rightarrow> bool" where
  "is_state st c \<equiv> cState c = st"

text \<open>The initial effective target of \<open>New\<close>; the division of the stream buffer by the
  split size panics on zero.\<close>

definition initial_target :: "sched_config \<Rightarrow> nat \<Rightarrow> bool \<Rightarrow> int option" where
  "initial_target cfg n hasSink =
     (let effective = cfgRequestedConnections cfg;
          limited =
            (if cfgStreamMode cfg \<and> hasSink then
               (case go_div (cfgStreamBufferSize cfg) (cfgSplitSize cfg) of
                  None \<Rightarrow> None
                | Some memLimit \<Rightarrow>
                    let e1 = (if memLimit < effective then memLimit else effective)
                    in Some (if e1 < 1 then 1 else e1))
             else Some effective)
      in case limited of
           None \<Rightarrow> None
         | Some e \<Rightarrow>
             let e2 = (if e > int n then int n else e)
             in Some (if e2 < 1 then 1 else e2))"

definition sched_new :: "sched_config \<Rightarrow> chunk list \<Rightarrow> bool \<Rightarrow> sched option" where
  "sched_new cfg chunks hasSink =
     (if cfgRequestedConnections cfg < 0 then None
      else case initial_target cfg (length chunks) hasSink of
        None \<Rightarrow> None
      | Some effective \<Rightarrow> Some
          \<lparr>sCfg = cfg, sChunks = chunks,
           sWorkers = map (\<lambda>i. new_worker (int i)) [0..<nat (cfgRequestedConnections cfg)],
           sNextUndispatched = length (takeWhile (is_state StateCompleted) chunks),
           sActiveCount = 0,
           sCompletedCount = int (count_if (is_state StateCompleted) chunks),
           sEffectiveTarget = effective, sFatalErr = None, sHasSink = hasSink,
           sHedgedChunkIdx = -1, sHedgeActive = False, sCooldownUntil = zero_time,
           sRestoreBackoff = seconds 30, sRecentChunkDurations = [],
           sPressureEvents = 0, sCancelled = False\<rparr>)"

section \<open>Assignment\<close>

definition set_chunk :: "nat \<Rightarrow> chunk \<Rightarrow> sched \<Rightarrow> sched" where
  "set_chunk k c s = s\<lparr>sChunks := (sChunks s)[k := c]\<rparr>"

definition cleanup :: "gtime \<Rightarrow> sched \<Rightarrow> sched" where
  "cleanup now s =
     (if sEffectiveTarget s < cfgRequestedConnections (sCfg s) \<and> now > sCooldownUntil s \<and>
         sCompletedCount s > 0 \<and> sCompletedCount s \<ge> 4
      then let doubled = i64 (sRestoreBackoff s * 2);
               backoff = (if doubled > seconds 300 then seconds 300 else doubled)
           in s\<lparr>sEffectiveTarget := sEffectiveTarget s + 1,
                sRestoreBackoff := backoff, sCooldownUntil := now + backoff\<rparr>
      else s)"

definition find_retryable_chunk :: "gtime \<Rightarrow> sched \<Rightarrow> nat option" where
  "find_retryable_chunk now s =
     find_index (\<lambda>c. cState c = StateRetryWait \<and> \<not> cRetryAfter c > now) (sChunks s)"

definition assign_chunk :: "gtime \<Rightarrow> nat \<Rightarrow> int \<Rightarrow> sched \<Rightarrow> sched" where
  "assign_chunk now k slot s =
     (let c = sChunks s ! k
      in (set_chunk k (c\<lparr>cState := StateActive, cWorkerSlot := slot, cStartTime := now,
                         cAttempts := cAttempts c + 1\<rparr>) s)
         \<lparr>sActiveCount := sActiveCount s + 1\<rparr>)"

definition try_assign :: "gtime \<Rightarrow> int \<Rightarrow> sched \<Rightarrow> sched \<times> nat option" where
  "try_assign now slot s =
     (if in_range slot (sWorkers s) \<and> is_suppressed now (sWorkers s ! nat slot) then (s, None)
      else if sActiveCount s \<ge> sEffectiveTarget s then (s, None)
      else case find_retryable_chunk now s of
        Some k \<Rightarrow> (assign_chunk now k slot s, Some k)
      | None \<Rightarrow>
          if sNextUndispatched s < length (sChunks s)
          then let k = sNextUndispatched s
               in (assign_chunk now k slot (s\<lparr>sNextUndispatched := k + 1\<rparr>), Some k)
          else (s, None))"

datatype na_result = NAErr sched_err | NADone | NAAssign nat | NABlock

definition next_assignment :: "gtime \<Rightarrow> int \<Rightarrow> sched \<Rightarrow> sched \<times> na_result" where
  "next_assignment now slot s0 =
     (let s = cleanup now s0
      in if sCancelled s then (s, NAErr ErrCanceled)
         else case sFatalErr s of
           Some e \<Rightarrow> (s, NAErr e)
         | None \<Rightarrow>
             if sCompletedCount s \<ge> int (length (sChunks s)) then (s, NADone)
             else case try_assign now slot s of
               (s', Some k) \<Rightarrow> (s', NAAssign k)
             | (s', None) \<Rightarrow> (s', NABlock))"

section \<open>Completion, failure and adaptation\<close>

definition record_chunk_duration :: "duration \<Rightarrow> sched \<Rightarrow> sched" where
  "record_chunk_duration d s =
     s\<lparr>sRecentChunkDurations := push_window 32 d (sRecentChunkDurations s)\<rparr>"

definition mark_complete :: "gtime \<Rightarrow> int \<Rightarrow> sched \<Rightarrow> sched" where
  "mark_complete now idx s =
     (if \<not> in_range idx (sChunks s) then s
      else let c = sChunks s ! nat idx
           in if cState c = StateActive
              then let s1 = (set_chunk (nat idx) (c\<lparr>cState := StateCompleted\<rparr>) s)
                         \<lparr>sActiveCount := sActiveCount s - 1,
                          sCompletedCount := sCompletedCount s + 1\<rparr>;
                       d = time_sub now (cStartTime c)
                   in if 0 < d then record_chunk_duration d s1 else s1
              else s)"

text \<open>\<open>time.Duration(1<<uint(attempts-1)) * time.Second\<close>: shift and product wrap.\<close>

definition retry_backoff :: "int \<Rightarrow> duration" where
  "retry_backoff attempts =
     (let a = (if attempts \<le> 0 then 1 else attempts);
          delay = i64 (i64 (2 ^ nat (a - 1)) * seconds 1)
      in if delay > seconds 30 then seconds 30 else delay)"

definition mark_failed :: "gtime \<Rightarrow> int \<Rightarrow> bool \<Rightarrow> sched \<Rightarrow> sched" where
  "mark_failed now idx retryable s =
     (if \<not> in_range idx (sChunks s) then s
      else let c = sChunks s ! nat idx
           in if cState c \<noteq> StateActive then s
              else let s1 = s\<lparr>sActiveCount := sActiveCount s - 1\<rparr>
                   in if retryable \<and> cAttempts c < cfgMaxTries (sCfg s)
                      then set_chunk (nat idx)
                             (c\<lparr>cState := StateRetryWait,
                                cRetryAfter := now + retry_backoff (cAttempts c)\<rparr>) s1
                      else (set_chunk (nat idx) (c\<lparr>cState := StateFailed\<rparr>) s1)
                             \<lparr>sFatalErr := Some (ErrExhausted idx (cAttempts c)
                                                (cfgMaxTries (sCfg s))),
                              sCancelled := True\<rparr>)"

definition sched_cancel :: "sched \<Rightarrow> sched" where
  "sched_cancel s = s\<lparr>sCancelled := True\<rparr>"

text \<open>\<open>math.Max(1, math.Ceil(float64(target)/2))\<close>, exact in float64 for every target below
  \<open>2^53\<close>.\<close>

definition half_target :: "int \<Rightarrow> int" where
  "half_target t = max 1 ((t + 1) div 2)"

definition on_pressure :: "gtime \<Rightarrow> duration \<Rightarrow> sched \<Rightarrow> sched" where
  "on_pressure now retryAfter s =
     (let newTarget = half_target (sEffectiveTarget s)
      in if newTarget < sEffectiveTarget s
         then s\<lparr>sEffectiveTarget := newTarget, sPressureEvents := sPressureEvents s + 1,
                sCooldownUntil := now + (if retryAfter \<le> 0 then seconds 30 else retryAfter)\<rparr>
         else s)"

definition on_admission_failure :: "gtime \<Rightarrow> int \<Rightarrow> sched \<Rightarrow> sched" where
  "on_admission_failure now slot s =
     (if \<not> in_range slot (sWorkers s) then s
      else let w = record_admission_failure (sWorkers s ! nat slot)
           in if wAdmissionFailures w \<ge> 2
              then s\<lparr>sWorkers := (sWorkers s)[nat slot := w\<lparr>wSuppressedUntil := now + seconds 30\<rparr>],
                     sEffectiveTarget := (if sEffectiveTarget s > 1
                       then sEffectiveTarget s - 1 else sEffectiveTarget s)\<rparr>
              else s\<lparr>sWorkers := (sWorkers s)[nat slot := w]\<rparr>)"

definition on_worker_success :: "gtime \<Rightarrow> int \<Rightarrow> int \<Rightarrow> duration \<Rightarrow> sched \<Rightarrow> sched" where
  "on_worker_success now slot bytes d s =
     (if in_range slot (sWorkers s)
      then s\<lparr>sWorkers := (sWorkers s)[nat slot :=
                 record_success now bytes d (sWorkers s ! nat slot)]\<rparr>
      else s)"

definition effective_concurrency :: "sched \<Rightarrow> int" where
  "effective_concurrency s = sEffectiveTarget s"

definition active_count :: "sched \<Rightarrow> int" where
  "active_count s = sActiveCount s"

definition sched_progress :: "sched \<Rightarrow> int \<times> int" where
  "sched_progress s = (sCompletedCount s, int (length (sChunks s)))"

section \<open>Speculative duplicates\<close>

definition rolling_median_locked :: "sched \<Rightarrow> duration" where
  "rolling_median_locked s =
     (if sRecentChunkDurations s = [] then 0
      else sort (sRecentChunkDurations s) ! (length (sRecentChunkDurations s) div 2))"

definition rolling_median :: "sched \<Rightarrow> duration" where
  "rolling_median s =
     (if sRecentChunkDurations s = [] then 0
      else sort (sRecentChunkDurations s) ! (length (sRecentChunkDurations s) div 2))"

text \<open>The stream sink's \<open>FrontierIndex()\<close>, \<open>ReservedBytes()\<close> and \<open>BufferSize()\<close> are
  arguments; the frontier index is never negative.\<close>

definition hedge_eligible :: "gtime \<Rightarrow> nat \<Rightarrow> int \<Rightarrow> int \<Rightarrow> sched \<Rightarrow> int" where
  "hedge_eligible now frontier reserved bufferSize s =
     (if \<not> cfgStreamMode (sCfg s) \<or> \<not> sHasSink s then -1
      else if sHedgeActive s then -1
      else if frontier \<ge> length (sChunks s) then -1
      else let fc = sChunks s ! frontier
           in if cState fc \<noteq> StateActive then -1
              else if cHedged fc then -1
              else if length (sRecentChunkDurations s) < 4 then -1
              else if count_if (\<lambda>c. cState c = StateCompleted \<or> cState c = StateWritten)
                        (drop (frontier + 1) (sChunks s)) < 2 then -1
              else if time_sub now (cStartTime fc) < i64 (2 * rolling_median_locked s) then -1
              else if sActiveCount s \<ge> sEffectiveTarget s then -1
              else if i64 (reserved + cLength fc) > bufferSize then -1
              else int frontier)"

definition slot_in_use :: "sched \<Rightarrow> nat \<Rightarrow> bool" where
  "slot_in_use s i \<longleftrightarrow>
     list_ex (\<lambda>c. cState c = StateActive \<and> cWorkerSlot c = int i) (sChunks s)"

text \<open>The scan for a free slot of \<open>StartHedge\<close>: \<open>None\<close> is the panic of reading
  \<open>s.workers[i]\<close> out of range, \<open>Some (-1)\<close> that no slot is free.\<close>

fun hedge_slot_scan :: "gtime \<Rightarrow> sched \<Rightarrow> nat list \<Rightarrow> int option" where
  "hedge_slot_scan now s [] = Some (-1)"
| "hedge_slot_scan now s (i # is) =
     (if slot_in_use s i then hedge_slot_scan now s is
      else if i \<ge> length (sWorkers s) then None
      else if is_suppressed now (sWorkers s ! i) then hedge_slot_scan now s is
      else Some (int i))"

definition start_hedge :: "gtime \<Rightarrow> int \<Rightarrow> sched \<Rightarrow> (sched \<times> (nat \<times> int) option) option" where
  "start_hedge now idx s =
     (if \<not> in_range idx (sChunks s) then Some (s, None)
      else let k = nat idx; c = sChunks s ! k;
               s1 = (set_chunk k (c\<lparr>cHedged := True\<rparr>) s)
                      \<lparr>sHedgeActive := True, sHedgedChunkIdx := idx\<rparr>
           in case hedge_slot_scan now s1 [0..<nat (sEffectiveTarget s1)] of
                None \<Rightarrow> None
              | Some slot \<Rightarrow>
                  if slot < 0
                  then Some ((set_chunk k (c\<lparr>cHedged := False\<rparr>) s)
                               \<lparr>sHedgeActive := False, sHedgedChunkIdx := -1\<rparr>, None)
                  else Some ((set_chunk k (c\<lparr>cHedged := True, cAttempts := cAttempts c + 1\<rparr>) s1)
                               \<lparr>sActiveCount := sActiveCount s1 + 1\<rparr>, Some (k, slot)))"

definition cancel_hedge :: "int \<Rightarrow> sched \<Rightarrow> sched" where
  "cancel_hedge idx s =
     (let s1 = (if sHedgedChunkIdx s = idx
                then s\<lparr>sHedgeActive := False, sHedgedChunkIdx := -1\<rparr> else s)
      in s1\<lparr>sActiveCount := sActiveCount s1 - 1\<rparr>)"

end
