(* ===== verification/Scheduler_Inv.thy ===== *)
theory Scheduler_Inv
  imports Scheduler
begin

text \<open>
  The invariant of the scheduler and what follows from it. \<open>sched_inv h s\<close> ties the counters
  \<open>activeCount\<close> and \<open>completedCount\<close> to the states of the chunks, with \<open>h\<close> speculative
  duplicates in flight, bounds the effective target by the requested connections, and says
  that the chunks from \<open>nextUndispatched\<close> on are exactly the pending ones. Every method keeps
  it (collected in \<open>inv_keep\<close>), so it holds after any interleaving of calls
  (\<open>sched_step\<close>).
\<close>

section \<open>The invariant\<close>

definition chunks_ok :: "nat \<Rightarrow> chunk list \<Rightarrow> bool" where
  "chunks_ok next cs \<longleftrightarrow>
     next \<le> length cs \<and>
     (\<forall>i < length cs. (next \<le> i) = (cState (cs ! i) = StatePending)) \<and>
     (\<forall>c \<in> set cs. cState c \<noteq> StateWritten)"

definition sched_inv :: "int \<Rightarrow> sched \<Rightarrow> bool" where
  "sched_inv h s \<longleftrightarrow>
     0 \<le> h \<and>
     1 \<le> sEffectiveTarget s \<and>
     sEffectiveTarget s \<le> cfgRequestedConnections (sCfg s) \<and>
     int (length (sWorkers s)) = cfgRequestedConnections (sCfg s) \<and>
     chunks_ok (sNextUndispatched s) (sChunks s) \<and>
     sCompletedCount s = int (count_if (is_state StateCompleted) (sChunks s)) \<and>
     sActiveCount s = int (count_if (is_state StateActive) (sChunks s)) + h \<and>
     (0 < int (count_if (is_state StateFailed) (sChunks s)) \<longrightarrow> sFatalErr s \<noteq> None) \<and>
     (sFatalErr s \<noteq> None \<longrightarrow> sCancelled s)"

text \<open>What a chunk keeps for life: its index and its byte range.\<close>

definition layout :: "sched \<Rightarrow> (int \<times> int \<times> int) list" where
  "layout s = map (\<lambda>c. (cIndex c, cStart c, cLength c)) (sChunks s)"

lemma chunks_ok_update:
  assumes "chunks_ok next cs" and "k < length cs" and "cState (cs ! k) \<noteq> StatePending"
    and "cState c \<noteq> StatePending" and "cState c \<noteq> StateWritten"
  shows "chunks_ok next (cs[k := c])"
  using assms set_update_subset_insert [of cs k c]
  by (auto simp: chunks_ok_def nth_list_update)

lemma chunks_ok_dispatch:
  assumes "chunks_ok next cs" and "next < length cs"
    and "cState c \<noteq> StatePending" and "cState c \<noteq> StateWritten"
  shows "chunks_ok (next + 1) (cs[next := c])"
  using assms set_update_subset_insert [of cs "next" c]
  by (auto simp: chunks_ok_def nth_list_update)

lemma chunks_ok_pending:
  "chunks_ok next cs \<Longrightarrow> next < length cs \<Longrightarrow> cState (cs ! next) = StatePending"
  unfolding chunks_ok_def by blast

lemma set_chunk_sel [simp]:
  "sChunks (set_chunk k c s) = (sChunks s)[k := c]"
  "sCfg (set_chunk k c s) = sCfg s"
  "sWorkers (set_chunk k c s) = sWorkers s"
  "sNextUndispatched (set_chunk k c s) = sNextUndispatched s"
  "sActiveCount (set_chunk k c s) = sActiveCount s"
  "sCompletedCount (set_chunk k c s) = sCompletedCount s"
  "sEffectiveTarget (set_chunk k c s) = sEffectiveTarget s"
  "sFatalErr (set_chunk k c s) = sFatalErr s"
  "sCancelled (set_chunk k c s) = sCancelled s"
  "sHedgeActive (set_chunk k c s) = sHedgeActive s"
  "sHedgedChunkIdx (set_chunk k c s) = sHedgedChunkIdx s"
  "sRecentChunkDurations (set_chunk k c s) = sRecentChunkDurations s"
  by (simp_all add: set_chunk_def)

lemma map_update_id: "f c = f (xs ! k) \<Longrightarrow> map f (xs[k := c]) = map f xs"
  by (metis list_update_id map_update)

text \<open>The effect of one chunk's change of state on the two counters.\<close>

lemma count_change:
  assumes "k < length cs"
  shows "int (count_if (is_state st) (cs[k := c])) =
    int (count_if (is_state st) cs) - (if cState (cs ! k) = st then 1 else 0)
      + (if cState c = st then 1 else 0)"
  using count_if_update_int [OF assms, of "is_state st" c] by simp

section \<open>Every method keeps the invariant\<close>

lemma cleanup_sel [simp]:
  "sChunks (cleanup now s) = sChunks s"
  "sCfg (cleanup now s) = sCfg s"
  "sWorkers (cleanup now s) = sWorkers s"
  "sNextUndispatched (cleanup now s) = sNextUndispatched s"
  "sActiveCount (cleanup now s) = sActiveCount s"
  "sCompletedCount (cleanup now s) = sCompletedCount s"
  "sFatalErr (cleanup now s) = sFatalErr s"
  "sCancelled (cleanup now s) = sCancelled s"
  by (simp_all add: cleanup_def Let_def)

lemma cleanup_target:
  "sEffectiveTarget s \<le> sEffectiveTarget (cleanup now s) \<and>
   sEffectiveTarget (cleanup now s) \<le> max (sEffectiveTarget s) (cfgRequestedConnections (sCfg s))"
  by (auto simp: cleanup_def Let_def)

lemma cleanup_inv [inv_keep]: "sched_inv h s \<Longrightarrow> sched_inv h (cleanup now s)"
  using cleanup_target [of s now] by (auto simp: sched_inv_def)

lemma assign_retry_inv:
  assumes "sched_inv h s" and "k < length (sChunks s)"
    and "cState (sChunks s ! k) = StateRetryWait"
  shows "sched_inv h (assign_chunk now k slot s)"
  using assms
  by (auto simp: sched_inv_def assign_chunk_def Let_def count_change intro!: chunks_ok_update)

lemma assign_next_inv:
  assumes "sched_inv h s" and "sNextUndispatched s < length (sChunks s)"
  shows "sched_inv h (assign_chunk now (sNextUndispatched s) slot
           (s\<lparr>sNextUndispatched := sNextUndispatched s + 1\<rparr>))"
  using assms chunks_ok_pending [of "sNextUndispatched s" "sChunks s"]
    chunks_ok_dispatch [of "sNextUndispatched s" "sChunks s"]
  by (auto simp: sched_inv_def assign_chunk_def Let_def count_change)

lemma try_assign_inv:
  assumes "sched_inv h s" shows "sched_inv h (fst (try_assign now slot s))"
  using assms
  by (auto simp: try_assign_def Let_def find_retryable_chunk_def split: option.splits
      dest!: find_index_Some intro: assign_retry_inv assign_next_inv[simplified])

lemma next_assignment_inv [inv_keep]:
  assumes "sched_inv h s" shows "sched_inv h (fst (next_assignment now slot s))"
  using cleanup_inv [OF assms, of now] try_assign_inv [OF cleanup_inv [OF assms], of now slot now]
  by (auto simp: next_assignment_def Let_def split: option.splits prod.splits)

lemma record_chunk_duration_inv [inv_keep]:
  "sched_inv h (record_chunk_duration d s) = sched_inv h s"
  by (simp add: record_chunk_duration_def sched_inv_def)

lemma mark_complete_inv [inv_keep]:
  assumes "sched_inv h s" shows "sched_inv h (mark_complete now idx s)"
proof (cases "in_range idx (sChunks s) \<and> cState (sChunks s ! nat idx) = StateActive")
  case True
  let ?c = "(sChunks s ! nat idx)\<lparr>cState := StateCompleted\<rparr>"
  have k: "nat idx < length (sChunks s)" using True by auto
  have "sched_inv h ((set_chunk (nat idx) ?c s)
      \<lparr>sActiveCount := sActiveCount s - 1, sCompletedCount := sCompletedCount s + 1\<rparr>)"
    using assms True k
    by (auto simp: sched_inv_def count_change intro!: chunks_ok_update)
  with True show ?thesis
    by (simp add: mark_complete_def Let_def record_chunk_duration_inv)
next
  case False
  with assms show ?thesis by (auto simp: mark_complete_def Let_def)
qed

lemma mark_failed_inv [inv_keep]:
  assumes "sched_inv h s" shows "sched_inv h (mark_failed now idx retryable s)"
proof (cases "in_range idx (sChunks s) \<and> cState (sChunks s ! nat idx) = StateActive")
  case True
  then have k: "nat idx < length (sChunks s)" by auto
  with assms True show ?thesis
    by (auto simp: mark_failed_def Let_def sched_inv_def count_if_same count_change intro!: chunks_ok_update
       )
next
  case False
  with assms show ?thesis by (auto simp: mark_failed_def Let_def)
qed

lemma half_target_bounds: "1 \<le> t \<Longrightarrow> 1 \<le> half_target t \<and> half_target t \<le> t"
  unfolding half_target_def by auto

lemma on_pressure_inv [inv_keep]: "sched_inv h s \<Longrightarrow> sched_inv h (on_pressure now d s)"
  using half_target_bounds [of "sEffectiveTarget s"]
  by (auto simp: on_pressure_def Let_def sched_inv_def)

lemma on_admission_failure_inv [inv_keep]:
  "sched_inv h s \<Longrightarrow> sched_inv h (on_admission_failure now slot s)"
  by (auto simp: on_admission_failure_def Let_def sched_inv_def)

lemma on_worker_success_inv [inv_keep]:
  "sched_inv h s \<Longrightarrow> sched_inv h (on_worker_success now slot b d s)"
  by (auto simp: on_worker_success_def sched_inv_def)

lemma sched_cancel_inv [inv_keep]: "sched_inv h s \<Longrightarrow> sched_inv h (sched_cancel s)"
  by (auto simp: sched_cancel_def sched_inv_def)

lemma cancel_hedge_inv [inv_keep]:
  "sched_inv h s \<Longrightarrow> 0 < h \<Longrightarrow> sched_inv (h - 1) (cancel_hedge idx s)"
  by (auto simp: cancel_hedge_def Let_def sched_inv_def)

text \<open>\<open>StartHedge\<close> never reads past the worker table, and counts one more duplicate when it
  returns a slot.\<close>

lemma hedge_slot_scan_total:
  "\<forall>i \<in> set is. i < length (sWorkers s) \<Longrightarrow> \<exists>r. hedge_slot_scan now s is = Some r"
  by (induction "is") auto

lemma hedge_slot_scan_slot:
  "hedge_slot_scan now s is = Some r \<Longrightarrow> r = -1 \<or>
     (\<exists>i \<in> set is. r = int i \<and> \<not> slot_in_use s i \<and> \<not> is_suppressed now (sWorkers s ! i))"
  by (induction "is") (auto split: if_splits)

lemma same_states_ok:
  assumes "k < length cs" and "cState c = cState (cs ! k)"
  shows "chunks_ok n (cs[k := c]) = chunks_ok n cs"
proof -
  have st: "\<And>i. cState (cs[k := c] ! i) = cState (cs ! i)"
    using assms by (cases "k < length cs") (auto simp: nth_list_update)
  have "cState ` set (cs[k := c]) = cState ` set cs"
    using assms(2) by (metis map_update_id list.set_map)
  then have "(\<forall>d \<in> set (cs[k := c]). cState d \<noteq> StateWritten) =
      (\<forall>d \<in> set cs. cState d \<noteq> StateWritten)"
    by (metis (no_types) image_iff)
  with st show ?thesis by (simp add: chunks_ok_def)
qed

lemma start_hedge_inv [inv_keep]:
  assumes inv: "sched_inv h s" and st: "start_hedge now idx s = Some (s', r)"
  shows "sched_inv (case r of None \<Rightarrow> h | Some _ \<Rightarrow> h + 1) s'"
proof (cases "in_range idx (sChunks s)")
  case True
  then have k: "nat idx < length (sChunks s)" by auto
  from st True inv k show ?thesis
    by (auto simp: start_hedge_def Let_def sched_inv_def count_if_same same_states_ok
        split: option.splits if_splits)
next
  case False
  with st inv show ?thesis by (simp add: start_hedge_def)
qed

lemma start_hedge_total:
  assumes "sched_inv h s"
  shows "start_hedge now idx s \<noteq> None"
proof -
  let ?c = "(sChunks s ! nat idx)\<lparr>cHedged := True\<rparr>"
  let ?s1 = "(set_chunk (nat idx) ?c s)\<lparr>sHedgeActive := True, sHedgedChunkIdx := idx\<rparr>"
  have "\<exists>r. hedge_slot_scan now ?s1 [0..<nat (sEffectiveTarget ?s1)] = Some r"
    using assms by (intro hedge_slot_scan_total) (auto simp: sched_inv_def)
  then show ?thesis
    by (auto simp: start_hedge_def Let_def)
qed

section \<open>The initial state\<close>

text \<open>A fresh plan, or one whose completed chunks (from a sidecar) form a prefix.\<close>

definition all_pending :: "chunk list \<Rightarrow> bool" where
  "all_pending cs \<longleftrightarrow> list_all (is_state StatePending) cs"

definition prefix_completed :: "chunk list \<Rightarrow> bool" where
  "prefix_completed cs \<longleftrightarrow> all_pending (dropWhile (is_state StateCompleted) cs)"

lemma prefix_completed_Nil [simp]: "prefix_completed []"
  by (simp add: prefix_completed_def all_pending_def)

lemma prefix_completed_Cons:
  "prefix_completed (c # cs) =
     (if cState c = StateCompleted then prefix_completed cs else all_pending (c # cs))"
  by (simp add: prefix_completed_def)

lemma all_pending_prefix: "all_pending cs \<Longrightarrow> prefix_completed cs"
  by (cases cs) (auto simp: prefix_completed_Cons all_pending_def)

lemma all_pending_ok: "all_pending cs \<Longrightarrow> chunks_ok 0 cs"
  by (simp add: chunks_ok_def all_pending_def list_all_iff)

lemma chunks_ok_Cons:
  "chunks_ok n cs \<Longrightarrow> cState c = StateCompleted \<Longrightarrow> chunks_ok (Suc n) (c # cs)"
  by (simp add: chunks_ok_def nth_Cons split: nat.split)

lemma prefix_completed_ok:
  "prefix_completed cs \<Longrightarrow> chunks_ok (length (takeWhile (is_state StateCompleted) cs)) cs"
proof (induction cs)
  case (Cons c cs)
  then show ?case
    by (cases "cState c = StateCompleted")
       (simp_all add: prefix_completed_Cons chunks_ok_Cons all_pending_ok)
qed (simp add: chunks_ok_def)

lemma all_pending_counts:
  "all_pending cs \<Longrightarrow> st \<noteq> StatePending \<Longrightarrow> count_if (is_state st) cs = 0"
  by (induction cs) (auto simp: all_pending_def)

lemma prefix_completed_counts:
  "prefix_completed cs \<Longrightarrow> st \<noteq> StatePending \<Longrightarrow> st \<noteq> StateCompleted \<Longrightarrow>
     count_if (is_state st) cs = 0"
proof (induction cs)
  case (Cons c cs)
  then show ?case
    using all_pending_counts [of "c # cs" st]
    by (cases "cState c = StateCompleted") (simp_all add: prefix_completed_Cons)
qed simp

lemma initial_target_bounds:
  assumes "initial_target cfg n sink = Some e" and "1 \<le> cfgRequestedConnections cfg"
  shows "1 \<le> e \<and> e \<le> cfgRequestedConnections cfg"
proof (cases "cfgStreamMode cfg \<and> sink")
  case True
  then obtain m where "go_div (cfgStreamBufferSize cfg) (cfgSplitSize cfg) = Some m"
    using assms(1) by (cases "go_div (cfgStreamBufferSize cfg) (cfgSplitSize cfg)")
      (auto simp: initial_target_def)
  with True assms show ?thesis
    by (simp add: initial_target_def Let_def split: if_splits)
next
  case False
  with assms show ?thesis
    by (simp only: initial_target_def Let_def if_False option.case) (simp split: if_splits)
qed

lemma sched_new_inv [inv_keep]:
  assumes new: "sched_new cfg cs sink = Some s" and r: "1 \<le> cfgRequestedConnections cfg"
    and p: "prefix_completed cs"
  shows "sched_inv 0 s"
proof -
  obtain e where e: "initial_target cfg (length cs) sink = Some e"
    using new by (auto simp: sched_new_def split: option.splits if_splits)
  show ?thesis
    using new e r p initial_target_bounds [OF e r] prefix_completed_ok [OF p]
      prefix_completed_counts [OF p, of StateActive] prefix_completed_counts [OF p, of StateFailed]
    by (auto simp: sched_new_def sched_inv_def)
qed

section \<open>Any interleaving of calls\<close>

text \<open>One call of one worker (or of the canceller); the first component counts the
  speculative duplicates that were started and not yet ended by \<open>CancelHedge\<close>, which a
  worker calls once for the duplicate it holds.\<close>

inductive sched_step :: "int \<times> sched \<Rightarrow> int \<times> sched \<Rightarrow> bool" where
  sNext: "sched_step (h, s) (h, fst (next_assignment now slot s))"
| sComplete: "sched_step (h, s) (h, mark_complete now idx s)"
| sFailed: "sched_step (h, s) (h, mark_failed now idx retryable s)"
| sPressure: "sched_step (h, s) (h, on_pressure now d s)"
| sAdmission: "sched_step (h, s) (h, on_admission_failure now slot s)"
| sSuccess: "sched_step (h, s) (h, on_worker_success now slot b d s)"
| sCancel: "sched_step (h, s) (h, sched_cancel s)"
| sHedge: "start_hedge now idx s = Some (s', Some r) \<Longrightarrow> sched_step (h, s) (h + 1, s')"
| sNoHedge: "start_hedge now idx s = Some (s', None) \<Longrightarrow> sched_step (h, s) (h, s')"
| sEndHedge: "0 < h \<Longrightarrow> sched_step (h, s) (h - 1, cancel_hedge idx s)"

definition sched_start :: "sched_config \<Rightarrow> chunk list \<Rightarrow> bool \<Rightarrow> int \<times> sched \<Rightarrow> bool" where
  "sched_start cfg cs sink hs \<longleftrightarrow>
     1 \<le> cfgRequestedConnections cfg \<and> prefix_completed cs \<and>
     fst hs = 0 \<and> sched_new cfg cs sink = Some (snd hs)"

lemma sched_step_inv: "sched_step hs ht \<Longrightarrow> sched_inv (fst hs) (snd hs) \<Longrightarrow> sched_inv (fst ht) (snd ht)"
  by (induction rule: sched_step.induct) (auto intro: inv_keep dest: start_hedge_inv)

interpretation sched_system:
  inductive_invariant "sched_start cfg cs sink" sched_step "\<lambda>hs. sched_inv (fst hs) (snd hs)"
  for cfg cs sink
  by unfold_locales (auto simp: sched_start_def intro: sched_new_inv sched_step_inv)

lemma reach_sched_inv:
  "reach (sched_start cfg cs sink) sched_step (h, s) \<Longrightarrow> sched_inv h s"
  using sched_system.reach_I by fastforce

section \<open>The layout never changes\<close>

lemma layout_set_chunk:
  "cIndex c = cIndex (sChunks s ! k) \<Longrightarrow> cStart c = cStart (sChunks s ! k) \<Longrightarrow>
   cLength c = cLength (sChunks s ! k) \<Longrightarrow> layout (set_chunk k c s) = layout s"
  by (auto simp: layout_def intro!: map_update_id)

lemma layout_eqI: "sChunks s = sChunks t \<Longrightarrow> layout s = layout t"
  by (simp add: layout_def)

lemma layout_ops:
  "layout (fst (next_assignment now slot s)) = layout s"
  "layout (mark_complete now idx s) = layout s"
  "layout (mark_failed now idx retryable s) = layout s"
  "layout (on_pressure now d s) = layout s"
  "layout (on_admission_failure now slot s) = layout s"
  "layout (on_worker_success now slot b d s) = layout s"
  "layout (sched_cancel s) = layout s"
  "layout (cancel_hedge idx s) = layout s"
  "start_hedge now idx s = Some (s', r) \<Longrightarrow> layout s' = layout s"
  by (auto simp: layout_def next_assignment_def try_assign_def assign_chunk_def mark_complete_def
      mark_failed_def on_pressure_def on_admission_failure_def on_worker_success_def
      sched_cancel_def cancel_hedge_def start_hedge_def record_chunk_duration_def Let_def
      map_update_id split: option.splits if_splits)

lemma sched_step_layout: "sched_step hs ht \<Longrightarrow> layout (snd ht) = layout (snd hs)"
  by (induction rule: sched_step.induct) (auto simp: layout_ops)

end
