(* ===== verification/Scheduler_Props.thy ===== *)
theory Scheduler_Props
  imports Scheduler_Inv
begin

text \<open>
  The properties of the scheduler: what an assignment is and is not, that completion is
  reported only when every chunk is complete, that no state without running transfers is
  stuck, how retries, back-off and the connection target behave, and three closed runs that
  show where the code departs from its documented invariants.
\<close>

section \<open>Concrete schedulers for the witnesses\<close>

text \<open>Three connections, chunks of 4 bytes, two tries; \<open>demo_slow\<close> is the stream of six
  chunks whose chunk 0 is still in transfer while a second worker has fetched chunks 1 to 4.\<close>

definition demo_cfg :: "bool \<Rightarrow> sched_config" where
  "demo_cfg stream = \<lparr>cfgRequestedConnections = 3, cfgStreamBufferSize = 1000,
     cfgSplitSize = 4, cfgMaxTries = 2, cfgStreamMode = stream\<rparr>"

definition demo_start :: "bool \<Rightarrow> int \<Rightarrow> sched" where
  "demo_start stream n = the (sched_new (demo_cfg stream) (the (plan 4 n)) stream)"

definition demo_slow :: sched where
  "demo_slow = fold (\<lambda>j s. mark_complete (10 * j + 5) j (fst (next_assignment (10 * j) 1 s)))
     [1, 2, 3, 4] (fst (next_assignment 1 0 (demo_start True 24)))"

definition demo_done :: sched where
  "demo_done = mark_complete 9 0 (fst (next_assignment 1 0 (demo_start False 4)))"

lemma demo_start_inv: "sched_inv 0 (demo_start True 24)"
  by (rule sched_new_inv [of "demo_cfg True" "the (plan 4 24)" True]) code_simp+

lemma demo_slow_inv: "sched_inv 0 demo_slow"
  unfolding demo_slow_def by (simp add: demo_start_inv inv_keep)

lemma demo_done_inv: "sched_inv 0 demo_done"
  by code_simp

section \<open>Counters and completion\<close>

lemma all_completed:
  assumes "sched_inv h s" and "sCompletedCount s \<ge> int (length (sChunks s))"
  shows "\<forall>c \<in> set (sChunks s). cState c = StateCompleted"
proof -
  have "count_if (is_state StateCompleted) (sChunks s) = length (sChunks s)"
    using assms count_if_le [of "is_state StateCompleted" "sChunks s"]
    by (simp add: sched_inv_def)
  then show ?thesis by (blast dest: count_if_all)
qed

text \<open>C9: after any interleaving of calls, by any number of workers, from a plan whose
  completed chunks form a prefix: \<open>activeCount\<close> is the number of active chunks plus the
  duplicates in flight, \<open>completedCount\<close> the number of completed chunks, the effective target
  stays between 1 and the requested connections, and no chunk changed its index or its byte
  range.\<close>

theorem scheduler_counters:
  assumes "sched_start cfg cs sink (0, s0)"
    and "sched_step\<^sup>*\<^sup>* (0, s0) (h, s)"
  shows "sActiveCount s = int (count_if (is_state StateActive) (sChunks s)) + h \<and> 0 \<le> h \<and>
    sCompletedCount s = int (count_if (is_state StateCompleted) (sChunks s)) \<and>
    1 \<le> sEffectiveTarget s \<and> sEffectiveTarget s \<le> cfgRequestedConnections (sCfg s) \<and>
    layout s = map (\<lambda>c. (cIndex c, cStart c, cLength c)) cs"
proof -
  have "reach (sched_start cfg cs sink) sched_step (h, s)"
    using assms reach_rtranclp [OF assms(2)] reach_init [of "sched_start cfg cs sink"] by blast
  from reach_sched_inv [OF this] have "sched_inv h s" .
  moreover have "layout s = layout s0"
    using assms(2) by (induction "(h, s)" arbitrary: h s rule: rtranclp_induct)
      (auto dest: sched_step_layout)
  moreover have "layout s0 = map (\<lambda>c. (cIndex c, cStart c, cLength c)) cs"
    using assms(1)
    by (auto simp: sched_start_def sched_new_def layout_def split: option.splits if_splits)
  ultimately show ?thesis by (simp add: sched_inv_def)
qed

theorem scheduler_counters_witness:
  "sActiveCount (fst (next_assignment 1 0 (demo_start True 24))) = 1"
proof -
  have s0: "sched_start (demo_cfg True) (the (plan 4 24)) True (0, demo_start True 24)"
    by code_simp
  have "sched_step (0, demo_start True 24) (0, fst (next_assignment 1 0 (demo_start True 24)))"
    by (rule sNext)
  from scheduler_counters [OF s0 r_into_rtranclp [of sched_step, OF this]]
  have "sActiveCount (fst (next_assignment 1 0 (demo_start True 24))) =
      int (count_if (is_state StateActive)
        (sChunks (fst (next_assignment 1 0 (demo_start True 24)))))"
    by simp
  also have "\<dots> = 1" by code_simp
  finally show ?thesis .
qed

text \<open>\<open>NextAssignment\<close> tells a worker that the job is complete only in a state in which
  every chunk is complete.\<close>

theorem next_assignment_done:
  assumes "sched_inv h s" and "snd (next_assignment now slot s) = NADone"
  shows "\<forall>c \<in> set (sChunks s). cState c = StateCompleted"
proof -
  have "sCompletedCount s \<ge> int (length (sChunks s))"
    using assms(2)
    by (auto simp: next_assignment_def Let_def split: if_splits option.splits prod.splits)
  with assms(1) show ?thesis by (rule all_completed)
qed

theorem next_assignment_done_witness:
  "list_all (is_state StateCompleted) (sChunks demo_done)"
proof -
  have "snd (next_assignment 20 0 demo_done) = NADone" by code_simp
  from next_assignment_done [OF demo_done_inv this] show ?thesis by (simp add: list_all_iff)
qed

section \<open>Assignment\<close>

lemma try_assign_Some:
  assumes "sched_inv h s" and "try_assign now slot s = (s', Some k)"
  shows "k < length (sChunks s)"
    and "cState (sChunks s ! k) = StatePending \<or> cState (sChunks s ! k) = StateRetryWait"
    and "sChunks s' = (sChunks s)[k := (sChunks s ! k)\<lparr>cState := StateActive,
      cWorkerSlot := slot, cStartTime := now, cAttempts := cAttempts (sChunks s ! k) + 1\<rparr>]"
    and "sActiveCount s' \<le> sEffectiveTarget s'"
  using assms chunks_ok_pending [of "sNextUndispatched s" "sChunks s"]
  by (auto simp: try_assign_def assign_chunk_def find_retryable_chunk_def Let_def sched_inv_def
      set_chunk_def dest!: find_index_Some split: if_splits option.splits)

lemma next_assignment_Assign:
  assumes "snd (next_assignment now slot s) = NAAssign k"
  shows "try_assign now slot (cleanup now s) = (fst (next_assignment now slot s), Some k)"
  using assms
  by (auto simp: next_assignment_def Let_def split: if_splits option.splits prod.splits)



text \<open>the scheduler is never stuck. If the job is neither cancelled nor complete, no
  transfer is running, every back-off has expired and the calling slot is not suppressed,
  then \<open>NextAssignment\<close> returns a chunk instead of blocking.\<close>

theorem next_assignment_progress:
  assumes inv: "sched_inv 0 s" and live: "\<not> sCancelled s"
    and todo: "sCompletedCount s < int (length (sChunks s))"
    and idle: "\<forall>c \<in> set (sChunks s). cState c \<noteq> StateActive"
    and due: "\<forall>c \<in> set (sChunks s). cState c = StateRetryWait \<longrightarrow> cRetryAfter c \<le> now"
    and free: "in_range slot (sWorkers s) \<longrightarrow> \<not> is_suppressed now (sWorkers s ! nat slot)"
  shows "\<exists>k. snd (next_assignment now slot s) = NAAssign k"
proof -
  let ?t = "cleanup now s"
  have nofatal: "sFatalErr s = None"
    using inv live by (auto simp: sched_inv_def)
  have "count_if (is_state StateActive) (sChunks s) = 0"
    using idle by (simp add: count_if_zero)
  then have room: "sActiveCount ?t < sEffectiveTarget ?t"
    using inv cleanup_target [of s now] by (simp add: sched_inv_def)
  have "\<exists>k. find_retryable_chunk now s = Some k \<or> sNextUndispatched s < length (sChunks s)"
  proof (rule ccontr)
    assume "\<not> ?thesis"
    then have none: "find_retryable_chunk now s = None"
      and all: "length (sChunks s) \<le> sNextUndispatched s" by (auto simp: not_less)
    have "cState c = StateCompleted" if c: "c \<in> set (sChunks s)" for c
    proof -
      have "cState c \<noteq> StateRetryWait"
        using none due c by (fastforce simp: find_retryable_chunk_def find_index_None)
      moreover have "cState c \<noteq> StateFailed"
        using inv nofatal c by (auto simp: sched_inv_def count_if_zero)
      moreover have "cState c \<noteq> StatePending \<and> cState c \<noteq> StateWritten"
        using inv all c by (auto simp: sched_inv_def chunks_ok_def in_set_conv_nth)
      ultimately show ?thesis using idle c by (cases "cState c") auto
    qed
    then have "filter (is_state StateCompleted) (sChunks s) = sChunks s"
      by (simp add: filter_id_conv)
    then have "count_if (is_state StateCompleted) (sChunks s) = length (sChunks s)"
      by (simp add: count_if_def)
    then show False using inv todo by (simp add: sched_inv_def)
  qed
  then have "\<exists>k. snd (try_assign now slot ?t) = Some k"
    using room free
    by (auto simp: try_assign_def Let_def find_retryable_chunk_def split: option.splits)
  with live nofatal todo show ?thesis
    by (auto simp: next_assignment_def Let_def split: prod.splits)
qed

theorem next_assignment_progress_witness:
  "\<exists>k. snd (next_assignment 1 0 (demo_start True 24)) = NAAssign k"
  by (rule next_assignment_progress [OF demo_start_inv]) code_simp+

section \<open>Retries and back-off\<close>

text \<open>the documented back-off, 1 s, 2 s, 4 s, 8 s, 16 s and then 30 s, is what the code
  computes for the first 34 attempts.\<close>

theorem retry_backoff_documented:
  assumes "1 \<le> a" and "a \<le> 34"
  shows "retry_backoff a = min (seconds (2 ^ nat (a - 1))) (seconds 30)"
proof -
  have "(2::int) ^ nat (a - 1) \<le> 2 ^ 33"
    using assms by (intro power_increasing) auto
  then have b: "(2::int) ^ nat (a - 1) \<le> 8589934592" by simp
  then have "i64 (2 ^ nat (a - 1)) = 2 ^ nat (a - 1)"
    by (intro i64_id_nonneg) auto
  moreover have "i64 (2 ^ nat (a - 1) * 1000000000) = 2 ^ nat (a - 1) * 1000000000"
    using b by (intro i64_id_nonneg) auto
  ultimately show ?thesis
    using assms by (simp add: retry_backoff_def seconds_def min_def)
qed

theorem retry_backoff_documented_witness:
  "retry_backoff 3 = seconds 4 \<and> retry_backoff 20 = seconds 30"
proof
  show "retry_backoff 3 = seconds 4"
    by (subst retry_backoff_documented) (simp_all add: seconds_def)
  show "retry_backoff 20 = seconds 30"
    by (subst retry_backoff_documented) (simp_all add: seconds_def)
qed

text \<open>from the 35th attempt of a chunk on (\<open>--tries\<close> above 35) the product wraps to a
  negative delay, so the cap does not apply and the chunk is retried at once; from the 56th
  attempt on the delay is zero.\<close>

theorem retry_backoff_wraps:
  "retry_backoff 35 < 0 \<and> (\<forall>a. 56 \<le> a \<longrightarrow> retry_backoff a = 0)"
proof (intro conjI allI impI)
  show "retry_backoff 35 < 0"
    by (simp add: retry_backoff_def seconds_def i64_def)
  fix a :: int assume a: "56 \<le> a"
  define k where "k = nat (a - 1) - 55"
  have k: "nat (a - 1) = 55 + k" using a by (simp add: k_def)
  have "i64 (i64 (2 ^ nat (a - 1)) * seconds 1) = i64 0"
  proof (rule i64_cong)
    have "(i64 (2 ^ nat (a - 1)) * seconds 1) mod 2 ^ 64 =
        (2 ^ nat (a - 1) * seconds 1) mod 2 ^ 64"
      by (metis i64_mod mod_mult_left_eq)
    also have "2 ^ nat (a - 1) * seconds 1 = 2 ^ 64 * (2 ^ k * 1953125)"
      by (simp add: k power_add seconds_def)
    finally show "(i64 (2 ^ nat (a - 1)) * seconds 1) mod 2 ^ 64 = 0 mod 2 ^ 64"
      by simp
  qed
  also have "i64 0 = 0" by (simp add: i64_def)
  finally show "retry_backoff a = 0"
    using a by (simp add: retry_backoff_def seconds_def)
qed

theorem retry_backoff_wraps_witness: "retry_backoff 100 = 0"
  using retry_backoff_wraps by simp

text \<open>How many attempts a chunk can use up when no duplicate is started, as in file mode.\<close>

definition attempts_ok :: "sched \<Rightarrow> bool" where
  "attempts_ok s \<longleftrightarrow> (\<forall>c \<in> set (sChunks s).
     0 \<le> cAttempts c \<and> cAttempts c \<le> cfgMaxTries (sCfg s) \<and>
     (cState c = StatePending \<or> cState c = StateRetryWait \<longrightarrow>
        cAttempts c < cfgMaxTries (sCfg s)))"

lemma attempts_ok_update:
  assumes "\<forall>c \<in> set cs. P c" and "k < length cs \<Longrightarrow> P c'"
  shows "\<forall>c \<in> set (cs[k := c']). P c"
proof (cases "k < length cs")
  case True
  then show ?thesis using assms set_update_subset_insert [of cs k c'] by blast
next
  case False
  then show ?thesis using assms(1) by (simp add: list_update_beyond)
qed

lemma attempts_ok_set_chunk:
  assumes "attempts_ok s" and "sChunks t = (sChunks s)[k := c]" and "sCfg t = sCfg s"
    and "k < length (sChunks s) \<Longrightarrow> 0 \<le> cAttempts c \<and> cAttempts c \<le> cfgMaxTries (sCfg s) \<and>
     (cState c = StatePending \<or> cState c = StateRetryWait \<longrightarrow> cAttempts c < cfgMaxTries (sCfg s))"
  shows "attempts_ok t"
  unfolding attempts_ok_def assms(2,3)
  by (rule attempts_ok_update) (use assms(1,4) in \<open>auto simp: attempts_ok_def\<close>)

lemma attempts_ok_nth:
  "attempts_ok s \<Longrightarrow> k < length (sChunks s) \<Longrightarrow>
     0 \<le> cAttempts (sChunks s ! k) \<and> cAttempts (sChunks s ! k) \<le> cfgMaxTries (sCfg s) \<and>
     (cState (sChunks s ! k) = StatePending \<or> cState (sChunks s ! k) = StateRetryWait \<longrightarrow>
        cAttempts (sChunks s ! k) < cfgMaxTries (sCfg s))"
  by (simp add: attempts_ok_def)

lemma attempts_ok_assign:
  assumes inv: "sched_inv h s" and ok: "attempts_ok s"
  shows "attempts_ok (fst (next_assignment now slot s))"
proof -
  have c: "attempts_ok (cleanup now s)"
    using ok by (simp add: attempts_ok_def)
  show ?thesis
  proof (cases "try_assign now slot (cleanup now s)")
    case (Pair s' r)
    show ?thesis
    proof (cases r)
      case None
      with Pair have "s' = cleanup now s"
        by (auto simp: try_assign_def Let_def split: if_splits option.splits)
      with Pair None c show ?thesis
        by (auto simp: next_assignment_def Let_def split: option.splits)
    next
      case (Some k)
      have cfg: "sCfg s' = sCfg (cleanup now s)"
        using Pair by (auto simp: try_assign_def assign_chunk_def Let_def
            split: if_splits option.splits)
      note ts = try_assign_Some [OF cleanup_inv [OF inv] Pair [unfolded Some]]
      have "attempts_ok s'"
        by (rule attempts_ok_set_chunk [OF c ts(3) cfg])
           (use attempts_ok_nth [OF c ts(1)] ts(2) in auto)
      with Pair Some c show ?thesis
        by (auto simp: next_assignment_def Let_def split: option.splits)
    qed
  qed
qed

lemma attempts_ok_complete:
  assumes ok: "attempts_ok s"
  shows "attempts_ok (mark_complete now idx s)"
proof (cases "in_range idx (sChunks s) \<and> cState (sChunks s ! nat idx) = StateActive")
  case True
  then show ?thesis
    by (intro attempts_ok_set_chunk [OF ok, of _ "nat idx"
          "(sChunks s ! nat idx)\<lparr>cState := StateCompleted\<rparr>"])
       (auto simp: mark_complete_def Let_def record_chunk_duration_def
          dest: attempts_ok_nth [OF ok])
qed (use ok in \<open>auto simp: mark_complete_def Let_def\<close>)

lemma attempts_ok_failed:
  assumes ok: "attempts_ok s"
  shows "attempts_ok (mark_failed now idx retryable s)"
proof (cases "in_range idx (sChunks s) \<and> cState (sChunks s ! nat idx) = StateActive")
  case True
  then show ?thesis
    by (intro attempts_ok_set_chunk [OF ok, of _ "nat idx"
          "sChunks (mark_failed now idx retryable s) ! nat idx"])
       (auto simp: mark_failed_def Let_def dest: attempts_ok_nth [OF ok])
qed (use ok in \<open>auto simp: mark_failed_def Let_def\<close>)

text \<open>without speculative duplicates no chunk is requested more than \<open>--tries\<close> times, in
  any interleaving: an assignment, a completion and a failure keep the bound; and a chunk that
  fails on its last attempt, or on a non-retryable error, cancels the job.\<close>

theorem attempts_bounded:
  assumes inv: "sched_inv h s" and ok: "attempts_ok s"
  shows "attempts_ok (fst (next_assignment now slot s)) \<and>
    attempts_ok (mark_complete now idx s) \<and> attempts_ok (mark_failed now idx retryable s) \<and>
    (\<forall>c. in_range idx (sChunks s) \<and> c = sChunks s ! nat idx \<and> cState c = StateActive \<and>
       (\<not> retryable \<or> cAttempts c = cfgMaxTries (sCfg s)) \<longrightarrow>
       sCancelled (mark_failed now idx retryable s) \<and>
       cState (sChunks (mark_failed now idx retryable s) ! nat idx) = StateFailed)"
  using attempts_ok_assign [OF inv ok] attempts_ok_complete [OF ok] attempts_ok_failed [OF ok]
  by (auto simp: mark_failed_def Let_def)

theorem attempts_bounded_witness:
  "attempts_ok (mark_failed 50 0 True demo_slow) \<and>
   sCancelled (mark_failed 50 0 False demo_slow)"
proof -
  have ok: "attempts_ok demo_slow" by code_simp
  have act: "in_range 0 (sChunks demo_slow) \<and>
      cState (sChunks demo_slow ! nat 0) = StateActive"
    by code_simp
  from attempts_bounded [OF demo_slow_inv ok, where now = 50 and slot = 1 and idx = 0
      and retryable = True]
    attempts_bounded [OF demo_slow_inv ok, where now = 50 and slot = 1 and idx = 0
      and retryable = False] act
  show ?thesis by blast
qed

text \<open>the fatal error of an exhausted chunk is never the error a worker gets: it is set
  together with the cancellation, which \<open>NextAssignment\<close> tests first.\<close>

theorem exhausted_never_reported:
  assumes "sched_inv h s"
  shows "snd (next_assignment now slot s) \<noteq> NAErr (ErrExhausted i a m)"
  using assms
  by (auto simp: next_assignment_def Let_def sched_inv_def split: option.splits prod.splits)

theorem exhausted_never_reported_witness:
  "snd (next_assignment 60 1 (mark_failed 50 0 False demo_slow)) \<noteq> NAErr (ErrExhausted 0 1 2) \<and>
   sFatalErr (mark_failed 50 0 False demo_slow) = Some (ErrExhausted 0 1 2)"
proof
  show "snd (next_assignment 60 1 (mark_failed 50 0 False demo_slow)) \<noteq>
      NAErr (ErrExhausted 0 1 2)"
    by (rule exhausted_never_reported [OF mark_failed_inv [OF demo_slow_inv]])
qed code_simp

section \<open>The connection target\<close>



text \<open>the code asks for four completed chunks in all, not, as its comment says, since the
  last reduction, and a suppression starts no cooldown: the reduction of a second admission
  failure is undone by the very next pass of \<open>NextAssignment\<close>, without any progress in
  between.\<close>

theorem suppression_undone_at_once:
  assumes "sched_inv h s" and "in_range slot (sWorkers s)"
    and "1 \<le> wAdmissionFailures (sWorkers s ! nat slot)" and "2 \<le> sEffectiveTarget s"
    and "4 \<le> sCompletedCount s" and "sCooldownUntil s < now"
  shows "sEffectiveTarget (on_admission_failure now slot s) = sEffectiveTarget s - 1 \<and>
    sEffectiveTarget (cleanup now (on_admission_failure now slot s)) = sEffectiveTarget s"
  using assms
  by (auto simp: on_admission_failure_def record_admission_failure_def cleanup_def Let_def
      sched_inv_def)

theorem suppression_undone_at_once_witness:
  "sEffectiveTarget (cleanup 100 (on_admission_failure 100 2
     (on_admission_failure 90 2 demo_slow))) = 3"
proof -
  let ?s = "on_admission_failure 90 2 demo_slow"
  have i: "sched_inv 0 ?s" by (rule on_admission_failure_inv [OF demo_slow_inv])
  have t: "sEffectiveTarget ?s = 3" by code_simp
  have "in_range 2 (sWorkers ?s)" "1 \<le> wAdmissionFailures (sWorkers ?s ! nat 2)"
    "2 \<le> sEffectiveTarget ?s" "4 \<le> sCompletedCount ?s" "sCooldownUntil ?s < 100"
    by code_simp+
  from suppression_undone_at_once [OF i this] t show ?thesis by simp
qed

section \<open>Speculative duplicates\<close>

lemma hedge_eligible_pos:
  assumes "0 \<le> hedge_eligible now f r b s"
  shows "hedge_eligible now f r b s = int f" and "f < length (sChunks s)"
    and "cState (sChunks s ! f) = StateActive" and "\<not> cHedged (sChunks s ! f)"
    and "\<not> sHedgeActive s" and "sActiveCount s < sEffectiveTarget s"
    and "sHasSink s" and "cfgStreamMode (sCfg s)"
  using assms unfolding hedge_eligible_def
  by (auto simp: Let_def split: if_splits)

lemma slot_in_use_flags:
  assumes "k < length (sChunks s)" and "cState c = cState (sChunks s ! k)"
    and "cWorkerSlot c = cWorkerSlot (sChunks s ! k)"
    and "sChunks t = (sChunks s)[k := c]"
  shows "slot_in_use t i = slot_in_use s i"
proof -
  have "map (\<lambda>c. (cState c, cWorkerSlot c)) (sChunks t) =
      map (\<lambda>c. (cState c, cWorkerSlot c)) (sChunks s)"
    unfolding assms(4) using assms(2,3) by (intro map_update_id) simp
  then have "(\<lambda>c. (cState c, cWorkerSlot c)) ` set (sChunks t) =
      (\<lambda>c. (cState c, cWorkerSlot c)) ` set (sChunks s)"
    by (metis list.set_map)
  then have "(\<exists>c \<in> set (sChunks t). (cState c, cWorkerSlot c) = (StateActive, int i)) =
      (\<exists>c \<in> set (sChunks s). (cState c, cWorkerSlot c) = (StateActive, int i))"
    by (metis (no_types, lifting) image_iff)
  then show ?thesis by (simp add: slot_in_use_def list_ex_iff)
qed

lemma hedge_slot_scan_cong:
  "(\<And>i. slot_in_use t i = slot_in_use s i) \<Longrightarrow> sWorkers t = sWorkers s \<Longrightarrow>
     hedge_slot_scan now t is = hedge_slot_scan now s is"
  by (induction "is") auto

lemma start_hedge_scan:
  assumes "in_range idx (sChunks s)"
  shows "start_hedge now idx s =
    (case hedge_slot_scan now s [0..<nat (sEffectiveTarget s)] of
       None \<Rightarrow> None
     | Some slot \<Rightarrow>
         if slot < 0
         then Some ((set_chunk (nat idx) ((sChunks s ! nat idx)\<lparr>cHedged := False\<rparr>) s)
                      \<lparr>sHedgeActive := False, sHedgedChunkIdx := -1\<rparr>, None)
         else Some ((set_chunk (nat idx) ((sChunks s ! nat idx)
                       \<lparr>cHedged := True, cAttempts := cAttempts (sChunks s ! nat idx) + 1\<rparr>) s)
                      \<lparr>sHedgeActive := True, sHedgedChunkIdx := idx,
                       sActiveCount := sActiveCount s + 1\<rparr>, Some (nat idx, slot)))"
proof -
  let ?c = "(sChunks s ! nat idx)\<lparr>cHedged := True\<rparr>"
  let ?s1 = "(set_chunk (nat idx) ?c s)\<lparr>sHedgeActive := True, sHedgedChunkIdx := idx\<rparr>"
  have k: "nat idx < length (sChunks s)" using assms by auto
  have "hedge_slot_scan now ?s1 is = hedge_slot_scan now s is" for "is"
    by (rule hedge_slot_scan_cong, rule slot_in_use_flags [OF k, where c = ?c]) simp_all
  then show ?thesis
    using assms by (simp add: start_hedge_def Let_def set_chunk_def split: option.splits)
qed

lemma start_hedge_Some:
  assumes "start_hedge now idx s = Some (s', Some (k, slot))"
  shows "in_range idx (sChunks s)" and "k = nat idx" and "0 \<le> slot"
    and "hedge_slot_scan now s [0..<nat (sEffectiveTarget s)] = Some slot"
    and "s' = (set_chunk k ((sChunks s ! k)
                 \<lparr>cHedged := True, cAttempts := cAttempts (sChunks s ! k) + 1\<rparr>) s)
               \<lparr>sHedgeActive := True, sHedgedChunkIdx := idx,
                sActiveCount := sActiveCount s + 1\<rparr>"
proof -
  show r: "in_range idx (sChunks s)"
    using assms by (auto simp: start_hedge_def split: if_splits)
  from assms show "k = nat idx" and "0 \<le> slot"
    and "hedge_slot_scan now s [0..<nat (sEffectiveTarget s)] = Some slot"
    and "s' = (set_chunk k ((sChunks s ! k)
                 \<lparr>cHedged := True, cAttempts := cAttempts (sChunks s ! k) + 1\<rparr>) s)
               \<lparr>sHedgeActive := True, sHedgedChunkIdx := idx,
                sActiveCount := sActiveCount s + 1\<rparr>"
    unfolding start_hedge_scan [OF r] by (auto split: option.splits if_splits)
qed



text \<open>\<open>HedgeEligible\<close> and \<open>StartHedge\<close> take the lock separately, and \<open>StartHedge\<close> tests
  nothing again. Two workers that both found the same chunk eligible both start a duplicate:
  the second call succeeds too, hands out the same slot and counts one more active transfer,
  so that at most one duplicate at a time is not an invariant of the code.\<close>

theorem hedge_started_twice:
  assumes "start_hedge now idx s = Some (s', Some (k, slot))"
  shows "\<exists>s''. start_hedge now idx s' = Some (s'', Some (k, slot)) \<and>
    sActiveCount s'' = sActiveCount s + 2 \<and>
    cAttempts (sChunks s'' ! k) = cAttempts (sChunks s ! k) + 2"
proof -
  note h = start_hedge_Some [OF assms]
  let ?c = "(sChunks s ! k)\<lparr>cHedged := True, cAttempts := cAttempts (sChunks s ! k) + 1\<rparr>"
  have k: "k < length (sChunks s)" using h(1,2) by auto
  have "hedge_slot_scan now s' is = hedge_slot_scan now s is" for "is"
    by (rule hedge_slot_scan_cong, rule slot_in_use_flags [OF k, where c = ?c])
       (simp_all add: h(5))
  then have scan: "hedge_slot_scan now s' [0..<nat (sEffectiveTarget s')] = Some slot"
    using h(4) by (simp add: h(5))
  have r: "in_range idx (sChunks s')"
    using h(1) by (simp add: h(5))
  show ?thesis
    unfolding start_hedge_scan [OF r] scan using h(2,3) k by (simp add: h(5))
qed

theorem hedge_started_twice_witness:
  "\<exists>s' s''. start_hedge 1000 0 demo_slow = Some (s', Some (0, 1)) \<and>
     start_hedge 1000 0 s' = Some (s'', Some (0, 1)) \<and>
     sActiveCount s'' = sActiveCount demo_slow + 2"
proof -
  have "map_option snd (start_hedge 1000 0 demo_slow) = Some (Some (0, 1))" by code_simp
  then obtain s' where st: "start_hedge 1000 0 demo_slow = Some (s', Some (0, 1))"
    by auto
  from hedge_started_twice [OF st] st show ?thesis by auto
qed

section \<open>Resuming with a gap\<close>


end
