(* ===== verification/Stream_Sink.thy ===== *)
theory Stream_Sink
  imports Chunk_Plan "HOL-Library.AList"
begin

text \<open>
  The ordered stream sink, \<open>internal/sink/stream.go\<close>: chunks arrive in any order and leave in
  index order, within a bounded amount of reserved memory. \<open>reserve\<close>, \<open>submit\<close> and
  \<open>close_sink\<close> are the methods of the clients; the goroutine of \<open>WriteTo\<close> is a little
  machine (\<open>writer_pc\<close>) whose steps are the stretches of \<open>writeLoop\<close> between two releases
  of the mutex: waiting on the condition variable, writing outside the lock, returned.
  Events (\<open>sink_event\<close>) in any order are the interleavings of clients and writer;
  \<open>syOut\<close> is what the underlying \<open>io.Writer\<close> has accepted.
\<close>

section \<open>State and client methods\<close>

record chunk_data =
  cdChunk :: chunk
  cdData :: bytes

datatype sink_err =
    ErrBufferLimit int int int
  | ErrDataLength int int int
  | ErrWriteChunk int
  | ErrUnflushed int int
  | ErrCtx

text \<open>The Go maps \<open>completed\<close> and \<open>active\<close> are association lists with distinct keys.\<close>

record stream_sink =
  ssBufferSize :: int
  ssReserved :: int
  ssNextIndex :: int
  ssCompleted :: "(int \<times> chunk_data) list"
  ssActive :: "(int \<times> int) list"
  ssWrittenCount :: int
  ssFatalErr :: "sink_err option"
  ssClosed :: bool

definition new_stream_sink :: "int \<Rightarrow> stream_sink" where
  "new_stream_sink bufferSize =
     \<lparr>ssBufferSize = bufferSize, ssReserved = 0, ssNextIndex = 0, ssCompleted = [],
      ssActive = [], ssWrittenCount = 0, ssFatalErr = None, ssClosed = False\<rparr>"

definition reserve :: "int \<Rightarrow> stream_sink \<Rightarrow> sink_err + stream_sink" where
  "reserve n s =
     (if i64 (ssReserved s + n) > ssBufferSize s
      then Inl (ErrBufferLimit (ssReserved s) n (ssBufferSize s))
      else Inr (s\<lparr>ssReserved := i64 (ssReserved s + n)\<rparr>))"

definition submit :: "chunk \<Rightarrow> bytes \<Rightarrow> stream_sink \<Rightarrow> sink_err + stream_sink" where
  "submit c data s =
     (case ssFatalErr s of
        Some e \<Rightarrow> Inl e
      | None \<Rightarrow>
          if int (length data) \<noteq> cLength c
          then Inl (ErrDataLength (cIndex c) (int (length data)) (cLength c))
          else Inr (s\<lparr>ssCompleted :=
                  AList.update (cIndex c) \<lparr>cdChunk = c, cdData = data\<rparr> (ssCompleted s)\<rparr>))"

definition close_sink :: "stream_sink \<Rightarrow> stream_sink" where
  "close_sink s = s\<lparr>ssClosed := True\<rparr>"

definition frontier_index :: "stream_sink \<Rightarrow> int" where
  "frontier_index s = ssNextIndex s"

definition reserved_bytes :: "stream_sink \<Rightarrow> int" where
  "reserved_bytes s = ssReserved s"

definition buffer_size :: "stream_sink \<Rightarrow> int" where
  "buffer_size s = ssBufferSize s"

section \<open>The writer goroutine\<close>

datatype writer_pc =
    WHead
  | WWaiting
  | WWriting chunk_data
  | WReturned "sink_err option"

text \<open>The inner loop from one write to the next: take the frontier chunk, release its
  reservation and advance; or leave the loop and, when closed, check for leftovers (Go's map
  iteration picks any leftover for the message; the model picks the first).\<close>

definition writer_inner :: "stream_sink \<Rightarrow> stream_sink \<times> writer_pc" where
  "writer_inner s =
     (case map_of (ssCompleted s) (ssNextIndex s) of
        Some cd \<Rightarrow>
          (s\<lparr>ssCompleted := AList.delete (ssNextIndex s) (ssCompleted s),
             ssReserved := i64 (ssReserved s - cLength (cdChunk cd)),
             ssActive := AList.delete (ssNextIndex s) (ssActive s),
             ssNextIndex := ssNextIndex s + 1\<rparr>, WWriting cd)
      | None \<Rightarrow>
          if ssClosed s
          then (case ssCompleted s of
                  [] \<Rightarrow> (s, WReturned None)
                | (idx, _) # _ \<Rightarrow>
                    let e = ErrUnflushed idx (ssNextIndex s)
                    in (s\<lparr>ssFatalErr := Some e\<rparr>, WReturned (Some e)))
          else (s, WHead))"

definition writer_blocked :: "stream_sink \<Rightarrow> bool" where
  "writer_blocked s \<longleftrightarrow>
     map_of (ssCompleted s) (ssNextIndex s) = None \<and> ssFatalErr s = None \<and> \<not> ssClosed s"

definition writer_head :: "bool \<Rightarrow> stream_sink \<Rightarrow> stream_sink \<times> writer_pc" where
  "writer_head ctxDone s =
     (if writer_blocked s then (s, if ctxDone then WReturned (Some ErrCtx) else WWaiting)
      else case ssFatalErr s of
        Some e \<Rightarrow> (s, WReturned (Some e))
      | None \<Rightarrow> writer_inner s)"

record sink_sys =
  sySink :: stream_sink
  syPc :: writer_pc
  syOut :: bytes

definition sink_init :: "int \<Rightarrow> sink_sys" where
  "sink_init bufferSize =
     \<lparr>sySink = new_stream_sink bufferSize, syPc = WHead, syOut = []\<rparr>"

text \<open>\<open>EvWriter ctxDone\<close> lets the writer run from its head or from its wait (where the
  context is tested first); \<open>EvWrite None\<close> is a \<open>w.Write\<close> that accepts all bytes,
  \<open>EvWrite (Some n)\<close> one that fails after \<open>n\<close> bytes. Events that are not possible in a
  state change nothing.\<close>

datatype sink_event =
    EvReserve int
  | EvSubmit chunk bytes
  | EvClose
  | EvWriter bool
  | EvWrite "nat option"

definition run_writer :: "stream_sink \<times> writer_pc \<Rightarrow> sink_sys \<Rightarrow> sink_sys" where
  "run_writer sp y = y\<lparr>sySink := fst sp, syPc := snd sp\<rparr>"

fun sink_apply :: "sink_event \<Rightarrow> sink_sys \<Rightarrow> sink_sys" where
  "sink_apply (EvReserve n) y =
     (case reserve n (sySink y) of Inl _ \<Rightarrow> y | Inr s \<Rightarrow> y\<lparr>sySink := s\<rparr>)"
| "sink_apply (EvSubmit c data) y =
     (case submit c data (sySink y) of Inl _ \<Rightarrow> y | Inr s \<Rightarrow> y\<lparr>sySink := s\<rparr>)"
| "sink_apply EvClose y = y\<lparr>sySink := close_sink (sySink y)\<rparr>"
| "sink_apply (EvWriter ctxDone) y =
     (case syPc y of
        WHead \<Rightarrow> run_writer (writer_head ctxDone (sySink y)) y
      | WWaiting \<Rightarrow>
          if ctxDone then y\<lparr>syPc := WReturned (Some ErrCtx)\<rparr>
          else run_writer (writer_head ctxDone (sySink y)) y
      | _ \<Rightarrow> y)"
| "sink_apply (EvWrite r) y =
     (case syPc y of
        WWriting cd \<Rightarrow>
          (case r of
             None \<Rightarrow>
               run_writer (writer_inner
                   ((sySink y)\<lparr>ssWrittenCount := ssWrittenCount (sySink y) + 1\<rparr>))
                 (y\<lparr>syOut := syOut y @ cdData cd\<rparr>)
           | Some n \<Rightarrow>
               let e = ErrWriteChunk (cIndex (cdChunk cd))
               in y\<lparr>sySink := (sySink y)\<lparr>ssFatalErr := Some e\<rparr>,
                    syPc := WReturned (Some e),
                    syOut := syOut y @ take n (cdData cd)\<rparr>)
      | _ \<Rightarrow> y)"

definition sink_run :: "sink_event list \<Rightarrow> sink_sys \<Rightarrow> sink_sys" where
  "sink_run es y = fold sink_apply es y"

lemma sink_run_simps [simp]:
  "sink_run [] y = y"
  "sink_run (e # es) y = sink_run es (sink_apply e y)"
  "sink_run (es @ fs) y = sink_run fs (sink_run es y)"
  by (simp_all add: sink_run_def)

section \<open>Exact source order\<close>

text \<open>\<open>D i\<close> is the content of chunk \<open>i\<close>: the events whose submitted data is that of its
  chunk's index.\<close>

fun faithful :: "(int \<Rightarrow> bytes) \<Rightarrow> sink_event \<Rightarrow> bool" where
  "faithful D (EvSubmit c data) = (data = D (cIndex c))"
| "faithful D _ = True"

definition written :: "(int \<Rightarrow> bytes) \<Rightarrow> int \<Rightarrow> bytes" where
  "written D n = concat (map (\<lambda>i. D (int i)) [0..<nat n])"

lemma written_step [simp]: "0 \<le> n \<Longrightarrow> written D (n + 1) = written D n @ D n"
  by (simp add: written_def nat_add_distrib)

lemma written_0 [simp]: "written D 0 = []"
  by (simp add: written_def)

definition completed_ok :: "(int \<Rightarrow> bytes) \<Rightarrow> stream_sink \<Rightarrow> bool" where
  "completed_ok D s \<longleftrightarrow>
     (\<forall>i cd. map_of (ssCompleted s) i = Some cd \<longrightarrow>
        cIndex (cdChunk cd) = i \<and> cdData cd = D i)"

text \<open>What the output is at each point of the writer.\<close>

fun out_ok :: "(int \<Rightarrow> bytes) \<Rightarrow> int \<Rightarrow> writer_pc \<Rightarrow> bytes \<Rightarrow> bool" where
  "out_ok D n (WWriting cd) out =
     (0 < n \<and> cIndex (cdChunk cd) = n - 1 \<and> cdData cd = D (n - 1) \<and> out = written D (n - 1))"
| "out_ok D n (WReturned (Some (ErrWriteChunk i))) out =
     (0 < n \<and> i = n - 1 \<and> (\<exists>k. out = written D (n - 1) @ take k (D (n - 1))))"
| "out_ok D n _ out = (out = written D n)"

fun returned :: "writer_pc \<Rightarrow> bool" where
  "returned (WReturned r) = True"
| "returned pc = False"

definition sink_inv :: "(int \<Rightarrow> bytes) \<Rightarrow> sink_sys \<Rightarrow> bool" where
  "sink_inv D y \<longleftrightarrow>
     0 \<le> ssNextIndex (sySink y) \<and> completed_ok D (sySink y) \<and>
     out_ok D (ssNextIndex (sySink y)) (syPc y) (syOut y) \<and>
     (\<not> returned (syPc y) \<longrightarrow> ssFatalErr (sySink y) = None) \<and>
     (syPc y = WReturned None \<longrightarrow> ssClosed (sySink y))"

lemma map_of_some_key: "xs \<noteq> [] \<Longrightarrow> \<exists>v. map_of xs (fst (hd xs)) = Some v"
  by (cases xs) auto

lemma submit_completed:
  assumes "submit c data s = Inr t"
  shows "ssCompleted t = AList.update (cIndex c) \<lparr>cdChunk = c, cdData = data\<rparr> (ssCompleted s)"
    and "ssNextIndex t = ssNextIndex s" and "ssFatalErr t = None" and "ssFatalErr s = None"
    and "ssClosed t = ssClosed s" and "ssReserved t = ssReserved s"
    and "ssBufferSize t = ssBufferSize s" and "int (length data) = cLength c"
  using assms by (auto simp: submit_def split: option.splits if_splits)

lemma reserve_fields:
  assumes "reserve n s = Inr t"
  shows "ssCompleted t = ssCompleted s" and "ssNextIndex t = ssNextIndex s"
    and "ssFatalErr t = ssFatalErr s" and "ssClosed t = ssClosed s"
    and "ssReserved t = i64 (ssReserved s + n)" and "ssReserved t \<le> ssBufferSize t"
    and "ssBufferSize t = ssBufferSize s"
  using assms by (auto simp: reserve_def split: if_splits)

lemma submit_inv:
  assumes "sink_inv D y" and "faithful D (EvSubmit c data)"
  shows "sink_inv D (sink_apply (EvSubmit c data) y)"
  using assms
  by (auto simp: sink_inv_def completed_ok_def update_conv' submit_completed
      split: sum.splits if_splits)

lemma reserve_inv: "sink_inv D y \<Longrightarrow> sink_inv D (sink_apply (EvReserve n) y)"
  by (auto simp: sink_inv_def completed_ok_def reserve_fields split: sum.splits)

lemma close_inv: "sink_inv D y \<Longrightarrow> sink_inv D (sink_apply EvClose y)"
  by (auto simp: sink_inv_def completed_ok_def close_sink_def)

lemma writer_inner_take:
  assumes "map_of (ssCompleted s) (ssNextIndex s) = Some cd"
  shows "writer_inner s =
    (s\<lparr>ssCompleted := AList.delete (ssNextIndex s) (ssCompleted s),
       ssReserved := i64 (ssReserved s - cLength (cdChunk cd)),
       ssActive := AList.delete (ssNextIndex s) (ssActive s),
       ssNextIndex := ssNextIndex s + 1\<rparr>, WWriting cd)"
  using assms by (simp add: writer_inner_def)

lemma writer_inner_stop:
  assumes "map_of (ssCompleted s) (ssNextIndex s) = None"
  shows "writer_inner s =
    (if \<not> ssClosed s then (s, WHead)
     else if ssCompleted s = [] then (s, WReturned None)
     else let e = ErrUnflushed (fst (hd (ssCompleted s))) (ssNextIndex s)
          in (s\<lparr>ssFatalErr := Some e\<rparr>, WReturned (Some e)))"
  using assms by (simp add: writer_inner_def Let_def split: list.split)

lemma completed_ok_delete:
  "completed_ok D s \<Longrightarrow> ssCompleted t = AList.delete k (ssCompleted s) \<Longrightarrow> completed_ok D t"
  by (simp add: completed_ok_def delete_conv')

lemma completed_ok_same:
  "completed_ok D s \<Longrightarrow> ssCompleted t = ssCompleted s \<Longrightarrow> completed_ok D t"
  by (simp add: completed_ok_def)

lemma writer_inner_inv:
  assumes "0 \<le> ssNextIndex s" and "completed_ok D s" and "out = written D (ssNextIndex s)"
    and "ssFatalErr s = None"
  shows "sink_inv D (run_writer (writer_inner s) (y\<lparr>syOut := out\<rparr>))"
proof (cases "map_of (ssCompleted s) (ssNextIndex s)")
  case (Some cd)
  then have "cIndex (cdChunk cd) = ssNextIndex s" "cdData cd = D (ssNextIndex s)"
    using assms(2) by (auto simp: completed_ok_def)
  then show ?thesis
    using assms by (simp add: writer_inner_take [OF Some] run_writer_def sink_inv_def
        completed_ok_delete [OF assms(2)])
next
  case None
  show ?thesis
    using assms by (simp add: writer_inner_stop [OF None] run_writer_def sink_inv_def Let_def
        completed_ok_same [OF assms(2)])
qed

lemma writer_head_inv:
  assumes "0 \<le> ssNextIndex s" and "completed_ok D s" and "out = written D (ssNextIndex s)"
    and "ssFatalErr s = None"
  shows "sink_inv D (run_writer (writer_head ctx s) (y\<lparr>syOut := out\<rparr>))"
proof (cases "writer_blocked s")
  case True
  then show ?thesis
    using assms by (auto simp: writer_head_def run_writer_def sink_inv_def)
next
  case False
  then show ?thesis
    using assms writer_inner_inv [OF assms] by (simp add: writer_head_def)
qed

lemma writer_inv:
  assumes "sink_inv D y" shows "sink_inv D (sink_apply (EvWriter ctx) y)"
proof (cases "syPc y = WHead \<or> syPc y = WWaiting")
  case True
  then have "sink_inv D (run_writer (writer_head ctx (sySink y)) (y\<lparr>syOut := syOut y\<rparr>))"
    using assms by (intro writer_head_inv) (auto simp: sink_inv_def)
  with True assms show ?thesis by (auto simp: sink_inv_def)
next
  case False
  with assms show ?thesis by (cases "syPc y") auto
qed

lemma write_inv:
  assumes "sink_inv D y" shows "sink_inv D (sink_apply (EvWrite r) y)"
proof (cases "syPc y")
  case (WWriting cd)
  show ?thesis
  proof (cases r)
    case None
    let ?s = "(sySink y)\<lparr>ssWrittenCount := ssWrittenCount (sySink y) + 1\<rparr>"
    have "written D (ssNextIndex (sySink y)) = syOut y @ cdData cd"
      using assms WWriting written_step [of "ssNextIndex (sySink y) - 1" D]
      by (auto simp: sink_inv_def)
    then have "sink_inv D (run_writer (writer_inner ?s) (y\<lparr>syOut := syOut y @ cdData cd\<rparr>))"
      using assms WWriting
      by (intro writer_inner_inv) (auto simp: sink_inv_def completed_ok_def)
    with None WWriting show ?thesis by simp
  next
    case (Some n)
    with assms WWriting show ?thesis
      by (auto simp: sink_inv_def completed_ok_def Let_def)
  qed
qed (use assms in auto)

lemma sink_apply_inv:
  "sink_inv D y \<Longrightarrow> faithful D e \<Longrightarrow> sink_inv D (sink_apply e y)"
  by (cases e) (simp_all only: submit_inv reserve_inv close_inv writer_inv write_inv)

lemma sink_init_inv: "sink_inv D (sink_init n)"
  by (simp add: sink_inv_def sink_init_def new_stream_sink_def completed_ok_def)

interpretation sink_order:
  inductive_invariant "\<lambda>y. \<exists>n. y = sink_init n"
    "\<lambda>y z. \<exists>e. faithful D e \<and> z = sink_apply e y" "sink_inv D"
  for D
  by unfold_locales (auto intro: sink_init_inv sink_apply_inv)

lemma sink_run_steps:
  "\<forall>e \<in> set es. faithful D e \<Longrightarrow>
     (\<lambda>y z. \<exists>e. faithful D e \<and> z = sink_apply e y)\<^sup>*\<^sup>* y (sink_run es y)"
proof (induction es arbitrary: y)
  case (Cons e es)
  then show ?case by (auto intro: converse_rtranclp_into_rtranclp)
qed simp

lemma sink_run_inv:
  assumes "\<forall>e \<in> set es. faithful D e"
  shows "sink_inv D (sink_run es (sink_init n))"
  using sink_order.steps_I [OF sink_run_steps [OF assms] sink_init_inv] .

end
