(* ===== verification/Stream_Sink_Props.thy ===== *)
theory Stream_Sink_Props
  imports Stream_Sink
begin

text \<open>
  The properties of the stream sink over any interleaving of clients and writer: the output is
  in exact source order, a clean end means that nothing accepted was lost, reserved memory
  stays within the buffer size, a closed sink without gaps is drained, and a late copy of a
  chunk that was already written makes the stream fail.
\<close>

section \<open>A concrete run for the witnesses\<close>

text \<open>An object of four bytes in two chunks; chunk 1 arrives first.\<close>

definition demo_content :: "int \<Rightarrow> bytes" where
  "demo_content i = subslice [1, 2, 3, 4] (2 * i) 2"

definition demo_chunk :: "nat \<Rightarrow> chunk" where
  "demo_chunk i = plan_chunk 2 4 i"

definition demo_arrivals :: "sink_event list" where
  "demo_arrivals =
     [EvReserve 2, EvReserve 2, EvSubmit (demo_chunk 1) [3, 4], EvWriter False]"

definition demo_rest :: "sink_event list" where
  "demo_rest = [EvClose, EvWriter False, EvWrite None, EvWrite None]"

definition demo_submit :: sink_event where
  "demo_submit = EvSubmit (demo_chunk 0) [1, 2]"

lemma demo_faithful:
  "\<forall>e \<in> set (demo_arrivals @ demo_submit # demo_rest). faithful demo_content e"
  by code_simp

section \<open>Source order\<close>

text \<open>C8: whatever the order of submissions and however writer and clients interleave, the
  bytes accepted by the destination are always a prefix of the chunks' contents in index
  order, namely all chunks before the frontier except possibly the one being written; and when
  \<open>WriteTo\<close> returns without error they are exactly all of them.\<close>

theorem stream_ordered:
  assumes "\<forall>e \<in> set es. faithful D e" and "y = sink_run es (sink_init n)"
  shows "(\<exists>rest. syOut y @ rest = written D (frontier_index (sySink y))) \<and>
    (syPc y = WReturned None \<longrightarrow> syOut y = written D (frontier_index (sySink y)))"
proof -
  let ?n = "ssNextIndex (sySink y)"
  have inv: "sink_inv D y"
    using sink_run_inv [OF assms(1)] assms(2) by simp
  have step: "0 < ?n \<Longrightarrow> written D ?n = written D (?n - 1) @ D (?n - 1)"
    using written_step [of "?n - 1" D] by simp
  have "\<exists>rest. syOut y @ rest = written D ?n"
  proof (cases "syPc y")
    case (WWriting cd)
    with inv step show ?thesis by (auto simp: sink_inv_def)
  next
    case (WReturned r)
    show ?thesis
    proof (cases "\<exists>i. r = Some (ErrWriteChunk i)")
      case True
      with inv WReturned step obtain k where
        "written D ?n = written D (?n - 1) @ D (?n - 1)"
        "syOut y = written D (?n - 1) @ take k (D (?n - 1))"
        by (auto simp: sink_inv_def)
      then have "syOut y @ drop k (D (?n - 1)) = written D ?n" by simp
      then show ?thesis ..
    next
      case False
      then have "syOut y = written D ?n"
        using inv WReturned by (cases "(D, ?n, WReturned r, syOut y)" rule: out_ok.cases)
          (auto simp: sink_inv_def)
      then show ?thesis by simp
    qed
  qed (use inv in \<open>auto simp: sink_inv_def\<close>)
  with inv show ?thesis by (auto simp: sink_inv_def frontier_index_def)
qed

theorem stream_ordered_witness:
  "\<exists>rest. syOut (sink_run (demo_arrivals @ demo_submit # demo_rest) (sink_init 4)) @ rest =
     [1, 2, 3, 4]"
proof -
  let ?y = "sink_run (demo_arrivals @ demo_submit # demo_rest) (sink_init 4)"
  have "written demo_content (frontier_index (sySink ?y)) = [1, 2, 3, 4]" by code_simp
  with stream_ordered [OF demo_faithful refl, of 4] show ?thesis by metis
qed

section \<open>Nothing accepted is lost\<close>

text \<open>A submitted index is behind the frontier or still buffered.\<close>

definition kept :: "int \<Rightarrow> sink_sys \<Rightarrow> bool" where
  "kept i y \<longleftrightarrow> i < ssNextIndex (sySink y) \<or>
     (map_of (ssCompleted (sySink y)) i \<noteq> None \<and> syPc y \<noteq> WReturned None)"

text \<open>A buffered index that the frontier has already passed.\<close>

definition stale :: "int \<Rightarrow> sink_sys \<Rightarrow> bool" where
  "stale i y \<longleftrightarrow> i < ssNextIndex (sySink y) \<and>
     map_of (ssCompleted (sySink y)) i \<noteq> None \<and> syPc y \<noteq> WReturned None"

lemma writer_inner_kept:
  "i < ssNextIndex s \<or> map_of (ssCompleted s) i \<noteq> None \<Longrightarrow>
     kept i (run_writer (writer_inner s) y)"
  by (cases "map_of (ssCompleted s) (ssNextIndex s)")
     (auto simp: writer_inner_take writer_inner_stop run_writer_def kept_def delete_conv' Let_def)

lemma writer_inner_stale:
  "i < ssNextIndex s \<Longrightarrow> map_of (ssCompleted s) i \<noteq> None \<Longrightarrow>
     stale i (run_writer (writer_inner s) y)"
  by (cases "map_of (ssCompleted s) (ssNextIndex s)")
     (auto simp: writer_inner_take writer_inner_stop run_writer_def stale_def delete_conv' Let_def)

lemma writer_head_kept:
  "i < ssNextIndex s \<or> map_of (ssCompleted s) i \<noteq> None \<Longrightarrow>
     kept i (run_writer (writer_head ctx s) y)"
  by (auto simp: writer_head_def writer_inner_kept split: option.split)
     (auto simp: run_writer_def kept_def)

lemma writer_head_stale:
  "i < ssNextIndex s \<Longrightarrow> map_of (ssCompleted s) i \<noteq> None \<Longrightarrow>
     stale i (run_writer (writer_head ctx s) y)"
  by (auto simp: writer_head_def writer_inner_stale split: option.split)
     (auto simp: run_writer_def stale_def)

lemma sink_apply_kept: "kept i y \<Longrightarrow> kept i (sink_apply e y)"
proof (cases e)
  case (EvWriter ctx)
  assume k: "kept i y"
  then have "syPc y \<noteq> WReturned None \<Longrightarrow> i < ssNextIndex (sySink y) \<or>
      map_of (ssCompleted (sySink y)) i \<noteq> None" by (auto simp: kept_def)
  with k EvWriter show ?thesis
    by (cases "syPc y") (auto simp: writer_head_kept, auto simp: kept_def)
next
  case (EvWrite r)
  assume k: "kept i y"
  show ?thesis
  proof (cases "\<exists>cd. syPc y = WWriting cd \<and> r = None")
    case True
    then have "i < ssNextIndex (sySink y) \<or> map_of (ssCompleted (sySink y)) i \<noteq> None"
      using k by (auto simp: kept_def)
    with True EvWrite show ?thesis
      by (auto simp: writer_inner_kept)
  next
    case False
    with k EvWrite show ?thesis
      by (cases "syPc y"; cases r) (auto simp: kept_def Let_def)
  qed
qed (auto simp: kept_def submit_completed reserve_fields update_conv' close_sink_def
      split: sum.splits)

lemma sink_apply_stale: "stale i y \<Longrightarrow> stale i (sink_apply e y)"
proof (cases e)
  case (EvWriter ctx)
  assume k: "stale i y"
  then have "i < ssNextIndex (sySink y)" "map_of (ssCompleted (sySink y)) i \<noteq> None"
    by (auto simp: stale_def)
  with k EvWriter show ?thesis
    by (cases "syPc y") (auto simp: writer_head_stale, auto simp: stale_def)
next
  case (EvWrite r)
  assume k: "stale i y"
  show ?thesis
  proof (cases "\<exists>cd. syPc y = WWriting cd \<and> r = None")
    case True
    then have "i < ssNextIndex (sySink y) \<and> map_of (ssCompleted (sySink y)) i \<noteq> None"
      using k by (auto simp: stale_def)
    with True EvWrite show ?thesis
      by (auto simp: writer_inner_stale)
  next
    case False
    with k EvWrite show ?thesis
      by (cases "syPc y"; cases r) (auto simp: stale_def Let_def)
  qed
qed (auto simp: stale_def submit_completed reserve_fields update_conv' close_sink_def
      split: sum.splits)

lemma sink_run_kept: "kept i y \<Longrightarrow> kept i (sink_run es y)"
  by (induction es arbitrary: y) (auto intro: sink_apply_kept)

lemma sink_run_stale: "stale i y \<Longrightarrow> stale i (sink_run es y)"
  by (induction es arbitrary: y) (auto intro: sink_apply_stale)

text \<open>C15: a chunk submitted with the right length while the writer is running is not dropped:
  if \<open>WriteTo\<close> later returns without error, the frontier has passed the chunk, so (the output
  being the chunks before the frontier) its bytes were written. A gap in front of it makes
  the closed sink report an error instead.\<close>

theorem stream_complete:
  assumes "\<forall>e \<in> set (es @ EvSubmit c data # fs). faithful D e"
    and "\<not> returned (syPc (sink_run es (sink_init n)))"
    and "int (length data) = cLength c"
    and "y = sink_run (es @ EvSubmit c data # fs) (sink_init n)"
    and "syPc y = WReturned None"
  shows "cIndex c < frontier_index (sySink y) \<and> syOut y = written D (frontier_index (sySink y))"
proof -
  let ?x = "sink_run es (sink_init n)"
  have "sink_inv D ?x"
    using assms(1) by (intro sink_run_inv) auto
  then have "ssFatalErr (sySink ?x) = None"
    using assms(2) by (simp add: sink_inv_def)
  then have "kept (cIndex c) (sink_apply (EvSubmit c data) ?x)"
    using assms(2,3) by (auto simp: submit_def kept_def update_conv')
  then have "kept (cIndex c) y"
    unfolding assms(4) by (simp add: sink_run_kept)
  with assms(5) have "cIndex c < frontier_index (sySink y)"
    by (simp add: kept_def frontier_index_def)
  moreover have "syOut y = written D (ssNextIndex (sySink y))"
    using sink_run_inv [OF assms(1), of n] assms(4,5) by (simp add: sink_inv_def)
  ultimately show ?thesis by (simp add: frontier_index_def)
qed

theorem stream_complete_witness:
  "0 < frontier_index (sySink (sink_run (demo_arrivals @ demo_submit # demo_rest) (sink_init 4)))"
proof -
  have "\<not> returned (syPc (sink_run demo_arrivals (sink_init 4)))"
    by code_simp
  moreover have "syPc (sink_run (demo_arrivals @ demo_submit # demo_rest) (sink_init 4)) =
      WReturned None" by code_simp
  ultimately show ?thesis
    using stream_complete [OF demo_faithful [unfolded demo_submit_def], of 4 _]
    by (simp add: demo_submit_def demo_chunk_def plan_chunk_def Let_def i64_def)
qed

text \<open>A copy of a chunk that arrives after the frontier passed it, such as the slower of a
  chunk and its speculative duplicate, is accepted and never written, and from then on
  \<open>WriteTo\<close> cannot return without error: a complete and correct output is reported as
  failed.\<close>

theorem late_copy_fails_stream:
  assumes "submit c data (sySink y) = Inr s" and "cIndex c < frontier_index (sySink y)"
    and "syPc y \<noteq> WReturned None"
  shows "syPc (sink_run es (sink_apply (EvSubmit c data) y)) \<noteq> WReturned None"
proof -
  have "stale (cIndex c) (sink_apply (EvSubmit c data) y)"
    using assms submit_completed [OF assms(1)]
    by (simp add: stale_def update_conv' frontier_index_def)
  from sink_run_stale [OF this, of es] show ?thesis
    by (simp add: stale_def)
qed

theorem late_copy_fails_stream_witness:
  "syPc (sink_run demo_rest (sink_apply demo_submit
     (sink_run [demo_submit, EvWriter False, EvWrite None] (sink_init 4)))) =
     WReturned (Some (ErrUnflushed 0 1))"
proof -
  let ?y = "sink_run [demo_submit, EvWriter False, EvWrite None] (sink_init 4)"
  have "cIndex (demo_chunk 0) < frontier_index (sySink ?y)" "syPc ?y \<noteq> WReturned None"
    by code_simp+
  moreover have "\<not> isl (submit (demo_chunk 0) [1, 2] (sySink ?y))"
    by code_simp
  then have "\<exists>s. submit (demo_chunk 0) [1, 2] (sySink ?y) = Inr s"
    by (cases "submit (demo_chunk 0) [1, 2] (sySink ?y)") simp_all
  ultimately have "syPc (sink_run demo_rest (sink_apply demo_submit ?y)) \<noteq> WReturned None"
    unfolding demo_submit_def using late_copy_fails_stream by blast
  moreover have "syPc (sink_run demo_rest (sink_apply demo_submit ?y)) =
      WReturned (Some (ErrUnflushed 0 1))" by code_simp
  ultimately show ?thesis by simp
qed

section \<open>Bounded memory\<close>

fun sized :: "int \<Rightarrow> sink_event \<Rightarrow> bool" where
  "sized L (EvReserve k) = (0 \<le> k \<and> k \<le> L)"
| "sized L (EvSubmit c data) = (cLength c \<le> L)"
| "sized L _ = True"

definition mem_inv :: "int \<Rightarrow> int \<Rightarrow> int \<Rightarrow> sink_sys \<Rightarrow> bool" where
  "mem_inv L B N y \<longleftrightarrow>
     ssReserved (sySink y) \<le> B \<and> ssBufferSize (sySink y) = B \<and>
     0 \<le> ssNextIndex (sySink y) \<and> ssNextIndex (sySink y) \<le> N \<and>
     - (L * ssNextIndex (sySink y)) \<le> ssReserved (sySink y) \<and>
     (\<forall>i cd. map_of (ssCompleted (sySink y)) i = Some cd \<longrightarrow>
        0 \<le> cLength (cdChunk cd) \<and> cLength (cdChunk cd) \<le> L)"

lemma mem_inv_inner:
  assumes m: "mem_inv L B N (y\<lparr>sySink := s\<rparr>)"
    and b: "0 \<le> L" "0 \<le> B" "B < 2 ^ 62" "L * (N + 1) \<le> 2 ^ 62"
  shows "mem_inv L B (N + 1) (run_writer (writer_inner s) y)"
proof (cases "map_of (ssCompleted s) (ssNextIndex s)")
  case (Some cd)
  let ?l = "cLength (cdChunk cd)" and ?n = "ssNextIndex s"
  have l: "0 \<le> ?l" "?l \<le> L" and r: "- (L * ?n) \<le> ssReserved s" "ssReserved s \<le> B"
    and n: "0 \<le> ?n" "?n \<le> N"
    using m Some by (auto simp: mem_inv_def)
  have "L * (?n + 1) \<le> L * (N + 1)"
    using n b(1) by (intro mult_left_mono) auto
  then have low: "- (2 ^ 62) \<le> ssReserved s - ?l"
    using r l b(4) by (simp add: distrib_left)
  have w: "i64 (ssReserved s - ?l) = ssReserved s - ?l"
    using low r l b by (intro i64_id) (simp add: in_i64_def)
  have "ssReserved s - ?l \<le> B" "- (L * ?n) - L \<le> ssReserved s - ?l"
    using l r by linarith+
  with m Some show ?thesis
    by (simp add: writer_inner_take run_writer_def mem_inv_def w delete_conv' distrib_left)
next
  case None
  with m show ?thesis
    by (simp add: writer_inner_stop run_writer_def mem_inv_def Let_def)
qed

lemma mem_inv_mono: "mem_inv L B N y \<Longrightarrow> N \<le> M \<Longrightarrow> mem_inv L B M y"
  by (auto simp: mem_inv_def)

lemma mem_inv_step:
  assumes m: "mem_inv L B N y" and e: "sized L e"
    and b: "0 \<le> L" "L < 2 ^ 62" "0 \<le> B" "B < 2 ^ 62" "L * (N + 1) \<le> 2 ^ 62"
  shows "mem_inv L B (N + 1) (sink_apply e y)"
proof (cases e)
  case (EvReserve k)
  let ?r = "ssReserved (sySink y)"
  have "L * ssNextIndex (sySink y) \<le> L * (N + 1)"
    using m b(1) by (intro mult_left_mono) (auto simp: mem_inv_def)
  then have "- (2 ^ 62) \<le> ?r" "?r < 2 ^ 62" using m b by (auto simp: mem_inv_def)
  then have "i64 (?r + k) = ?r + k"
    using e b EvReserve by (intro i64_id) (auto simp: in_i64_def)
  with m e EvReserve show ?thesis
    by (auto simp: mem_inv_def reserve_def)
next
  case (EvSubmit c data)
  then show ?thesis
    using m e by (auto simp: mem_inv_def submit_completed update_conv' split: sum.splits if_splits)
       (metis of_nat_0_le_iff submit_completed(8))
next
  case EvClose
  with m show ?thesis by (simp add: mem_inv_def close_sink_def)
next
  case (EvWriter ctx)
  have "mem_inv L B (N + 1) (run_writer (writer_head ctx (sySink y)) y)"
    using m mem_inv_inner [where L = L and B = B and N = N and y = y and s = "sySink y"] b mem_inv_mono [OF m, of "N + 1"]
    by (auto simp: writer_head_def split: option.split) (auto simp: run_writer_def mem_inv_def)
  with m EvWriter show ?thesis
    by (cases "syPc y") (auto intro: mem_inv_mono, auto simp: mem_inv_def)
next
  case (EvWrite r)
  show ?thesis
  proof (cases "syPc y")
    case (WWriting cd)
    let ?s = "(sySink y)\<lparr>ssWrittenCount := ssWrittenCount (sySink y) + 1\<rparr>"
    show ?thesis
    proof (cases r)
      case None
      have "mem_inv L B N ((y\<lparr>syOut := syOut y @ cdData cd\<rparr>)\<lparr>sySink := ?s\<rparr>)"
        using m by (simp add: mem_inv_def)
      from mem_inv_inner [OF this b(1,3-5)] None WWriting EvWrite show ?thesis by simp
    qed (use m WWriting EvWrite in \<open>auto simp: mem_inv_def Let_def\<close>)
  qed (use m EvWrite in \<open>auto intro: mem_inv_mono\<close>)
qed

lemma mem_inv_run:
  assumes "mem_inv L B N y" and "\<forall>e \<in> set es. sized L e" and "0 \<le> L" "L < 2 ^ 62"
    and "0 \<le> B" "B < 2 ^ 62" and "0 \<le> N" and "L * (N + int (length es)) \<le> 2 ^ 62"
  shows "mem_inv L B (N + int (length es)) (sink_run es y)"
  using assms
proof (induction es arbitrary: y N)
  case (Cons e es)
  have "L * (N + 1) \<le> L * (N + int (length (e # es)))"
    using Cons.prems by (intro mult_left_mono) auto
  then have "mem_inv L B (N + 1) (sink_apply e y)"
    using Cons.prems by (intro mem_inv_step) auto
  from Cons.IH [OF this] Cons.prems show ?case
    by (simp add: algebra_simps)
qed simp



section \<open>Draining\<close>

lemma map_of_empty_list: "(\<forall>i. map_of xs i = None) \<Longrightarrow> xs = []"
proof (cases xs)
  case (Cons x xs')
  assume "\<forall>i. map_of xs i = None"
  then have "map_of xs (fst x) = None" ..
  with Cons show ?thesis by (cases x) simp
qed

lemma drain_inner:
  assumes "\<forall>i. (map_of (ssCompleted s) i \<noteq> None) = (ssNextIndex s \<le> i \<and> i < ssNextIndex s + int m)"
    and "ssClosed s"
  shows "syPc (sink_run (replicate m (EvWrite None)) (run_writer (writer_inner s) y)) = WReturned None \<and>
    ssNextIndex (sySink (sink_run (replicate m (EvWrite None)) (run_writer (writer_inner s) y))) =
      ssNextIndex s + int m"
  using assms
proof (induction m arbitrary: s y)
  case 0
  then have "ssCompleted s = []"
    by (intro map_of_empty_list) auto
  with 0 show ?case
    by (simp add: writer_inner_def run_writer_def)
next
  case (Suc m)
  obtain cd where cd: "map_of (ssCompleted s) (ssNextIndex s) = Some cd"
    using Suc.prems(1) [THEN spec, of "ssNextIndex s"] by auto
  define t where "t = (fst (writer_inner s))
    \<lparr>ssWrittenCount := ssWrittenCount (fst (writer_inner s)) + 1\<rparr>"
  have t: "ssNextIndex t = ssNextIndex s + 1" "ssClosed t"
    "ssCompleted t = AList.delete (ssNextIndex s) (ssCompleted s)"
    using Suc.prems(2) by (simp_all add: t_def writer_inner_take [OF cd])
  have keys: "\<forall>i. (map_of (ssCompleted t) i \<noteq> None) =
      (ssNextIndex t \<le> i \<and> i < ssNextIndex t + int m)"
  proof
    fix i
    show "(map_of (ssCompleted t) i \<noteq> None) = (ssNextIndex t \<le> i \<and> i < ssNextIndex t + int m)"
      using Suc.prems(1) [THEN spec, of i] by (auto simp: t delete_conv')
  qed
  have "sink_apply (EvWrite None) (run_writer (writer_inner s) y) =
      run_writer (writer_inner t) (run_writer (writer_inner s) y\<lparr>syOut := syOut y @ cdData cd\<rparr>)"
    by (simp add: t_def writer_inner_take [OF cd] run_writer_def)
  with Suc.IH [OF keys t(2)] t(1) show ?case by simp
qed

text \<open>a closed sink whose buffer holds exactly the next \<open>m\<close> chunks finishes: one step of
  the writer and \<open>m\<close> writes that succeed let \<open>WriteTo\<close> return without error, with every
  chunk before the new frontier in the output.\<close>

theorem stream_drains:
  assumes run: "\<forall>e \<in> set es. faithful D e" "y = sink_run es (sink_init n)"
    and closed: "ssClosed (sySink y)" and pc: "syPc y = WHead \<or> syPc y = WWaiting"
    and keys: "\<forall>i. (map_of (ssCompleted (sySink y)) i \<noteq> None) =
      (frontier_index (sySink y) \<le> i \<and> i < frontier_index (sySink y) + int m)"
    and z: "z = sink_run (EvWriter False # replicate m (EvWrite None)) y"
  shows "syPc z = WReturned None \<and>
    frontier_index (sySink z) = frontier_index (sySink y) + int m \<and>
    syOut z = written D (frontier_index (sySink z))"
proof -
  have inv: "sink_inv D y" using sink_run_inv [OF run(1)] run(2) by simp
  then have "writer_head False (sySink y) = writer_inner (sySink y)"
    using closed pc by (auto simp: writer_head_def writer_blocked_def sink_inv_def)
  then have "z = sink_run (replicate m (EvWrite None)) (run_writer (writer_inner (sySink y)) y)"
    using pc z by auto
  then have fin: "syPc z = WReturned None" "ssNextIndex (sySink z) = ssNextIndex (sySink y) + int m"
    using drain_inner [of "sySink y" m y] closed keys by (auto simp: frontier_index_def)
  have "z = sink_run (es @ EvWriter False # replicate m (EvWrite None)) (sink_init n)"
    using z run(2) by simp
  moreover have "\<forall>e \<in> set (es @ EvWriter False # replicate m (EvWrite None)). faithful D e"
    using run(1) by auto
  ultimately have "sink_inv D z" using sink_run_inv by blast
  with fin show ?thesis by (simp add: sink_inv_def frontier_index_def)
qed

theorem stream_drains_witness:
  "syOut (sink_run [EvWriter False, EvWrite None]
     (sink_run [demo_submit, EvClose] (sink_init 4))) = [1, 2]"
proof -
  let ?y = "sink_run [demo_submit, EvClose] (sink_init 4)"
  have f: "\<forall>e \<in> set [demo_submit, EvClose]. faithful demo_content e" by code_simp
  have c: "ssClosed (sySink ?y)" "syPc ?y = WHead \<or> syPc ?y = WWaiting" by code_simp+
  have "map fst (ssCompleted (sySink ?y)) = [0]" "frontier_index (sySink ?y) = 0"
    by code_simp+
  then have k: "\<forall>i. (map_of (ssCompleted (sySink ?y)) i \<noteq> None) =
      (frontier_index (sySink ?y) \<le> i \<and> i < frontier_index (sySink ?y) + int 1)"
    by (auto simp: map_of_eq_None_iff)
  from stream_drains [OF f refl c k refl]
  have "syOut (sink_run (EvWriter False # replicate 1 (EvWrite None)) ?y) =
      written demo_content (frontier_index (sySink
        (sink_run (EvWriter False # replicate 1 (EvWrite None)) ?y)))"
    by blast
  also have "\<dots> = [1, 2]" by code_simp
  finally show ?thesis by simp
qed

end
