(* ===== verification/Base64.thy ===== *)
theory Base64
  imports Go_Base "HOL-Library.Code_Target_Nat"
begin

text \<open>
  \<open>base64.RawURLEncoding\<close> of Go's standard library, as \<open>internal/sidecar/sidecar.go\<close> uses
  it for completion bitmaps and URL hashes: the URL-safe alphabet without padding. The encoder
  works on groups of three bytes; the decoder skips line breaks, rejects every other
  character outside the alphabet and a final group of one character, and (not being the
  strict variant) ignores the unused low bits of a final group. The contract of an encoding
  that can be read back is the locale \<open>codec\<close>.
\<close>

section \<open>The alphabet\<close>

definition b64_alphabet :: string where
  "b64_alphabet = ''ABCDEFGHIJKLMNOPQRSTUVWXYZabcdefghijklmnopqrstuvwxyz0123456789-_''"

definition b64_char :: "nat \<Rightarrow> char" where
  "b64_char k = b64_alphabet ! k"

definition b64_value :: "char \<Rightarrow> nat option" where
  "b64_value c = find_index (\<lambda>d. d = c) b64_alphabet"

lemma length_b64_alphabet: "length b64_alphabet = 64"
  by (simp add: b64_alphabet_def)

lemma distinct_b64_alphabet: "distinct b64_alphabet"
  by (simp add: b64_alphabet_def)

lemma b64_value_char [simp]: "k < 64 \<Longrightarrow> b64_value (b64_char k) = Some k"
proof -
  assume k: "k < 64"
  then have "find_index (\<lambda>d. d = b64_char k) b64_alphabet \<noteq> None"
    by (auto simp: find_index_None b64_char_def length_b64_alphabet in_set_conv_nth)
  then obtain j where "find_index (\<lambda>d. d = b64_char k) b64_alphabet = Some j" by blast
  then show ?thesis
    using find_index_Some [of "\<lambda>d. d = b64_char k" b64_alphabet j] k distinct_b64_alphabet
    by (auto simp: b64_value_def b64_char_def length_b64_alphabet nth_eq_iff_index_eq)
qed

section \<open>Encoder and decoder\<close>

fun b64_encode :: "nat list \<Rightarrow> string" where
  "b64_encode [] = []"
| "b64_encode [a] =
     (let v = a * 65536 in map b64_char [v div 262144, v div 4096 mod 64])"
| "b64_encode [a, b] =
     (let v = a * 65536 + b * 256
      in map b64_char [v div 262144, v div 4096 mod 64, v div 64 mod 64])"
| "b64_encode (a # b # c # rest) =
     (let v = a * 65536 + b * 256 + c
      in map b64_char [v div 262144, v div 4096 mod 64, v div 64 mod 64, v mod 64]
         @ b64_encode rest)"

text \<open>The values of the characters, line breaks skipped; \<open>None\<close> at a corrupt one.\<close>

fun b64_values :: "string \<Rightarrow> nat list option" where
  "b64_values [] = Some []"
| "b64_values (c # cs) =
     (if c = CHR 0x0A \<or> c = CHR 0x0D then b64_values cs
      else case b64_value c of
        None \<Rightarrow> None
      | Some v \<Rightarrow> map_option (Cons v) (b64_values cs))"

fun b64_groups :: "nat list \<Rightarrow> nat list option" where
  "b64_groups [] = Some []"
| "b64_groups [p] = None"
| "b64_groups [p, q] = Some [(p * 262144 + q * 4096) div 65536]"
| "b64_groups [p, q, r] =
     (let v = p * 262144 + q * 4096 + r * 64 in Some [v div 65536, v div 256 mod 256])"
| "b64_groups (p # q # r # s # rest) =
     (let v = p * 262144 + q * 4096 + r * 64 + s
      in map_option (\<lambda>bs. [v div 65536, v div 256 mod 256, v mod 256] @ bs) (b64_groups rest))"

definition encode_to_string :: "bytes \<Rightarrow> string" where
  "encode_to_string bs = b64_encode (map unat bs)"

definition decode_string :: "string \<Rightarrow> bytes option" where
  "decode_string s =
     (case b64_values s of
        None \<Rightarrow> None
      | Some vs \<Rightarrow> map_option (map word_of_nat) (b64_groups vs))"

section \<open>Round trip\<close>

lemma b64_char_no_break [simp]:
  "k < 64 \<Longrightarrow> b64_char k \<noteq> CHR 0x0A" "k < 64 \<Longrightarrow> b64_char k \<noteq> CHR 0x0D"
proof -
  have "list_all (\<lambda>c. c \<noteq> CHR 0x0A \<and> c \<noteq> CHR 0x0D) b64_alphabet"
    by (simp add: b64_alphabet_def)
  then show "k < 64 \<Longrightarrow> b64_char k \<noteq> CHR 0x0A" "k < 64 \<Longrightarrow> b64_char k \<noteq> CHR 0x0D"
    by (auto simp: list_all_length b64_char_def length_b64_alphabet)
qed

lemma b64_values_chars [simp]:
  "\<forall>k \<in> set ks. k < 64 \<Longrightarrow> b64_values (map b64_char ks @ cs) =
     map_option (append ks) (b64_values cs)"
  by (induction ks) (cases "b64_values cs"; auto)+

fun b64_digits :: "nat list \<Rightarrow> nat list" where
  "b64_digits [] = []"
| "b64_digits [a] = [a * 65536 div 262144, a * 65536 div 4096 mod 64]"
| "b64_digits [a, b] =
     (let v = a * 65536 + b * 256 in [v div 262144, v div 4096 mod 64, v div 64 mod 64])"
| "b64_digits (a # b # c # rest) =
     (let v = a * 65536 + b * 256 + c
      in [v div 262144, v div 4096 mod 64, v div 64 mod 64, v mod 64] @ b64_digits rest)"

lemma b64_encode_digits: "b64_encode bs = map b64_char (b64_digits bs)"
  by (induction bs rule: b64_encode.induct) (auto simp: Let_def)

lemma b64_digits_range:
  "\<forall>b \<in> set bs. b < 256 \<Longrightarrow> \<forall>k \<in> set (b64_digits bs). k < 64"
  by (induction bs rule: b64_digits.induct) (auto simp: Let_def)

lemma horner64:
  "(v::nat) = x * 64 + r1 \<Longrightarrow> x = y * 64 + r2 \<Longrightarrow> y = z * 64 + r3 \<Longrightarrow>
     z * 262144 + r3 * 4096 + r2 * 64 + r1 = v"
  by simp

lemma digits24:
  fixes v :: nat
  shows "v div 262144 * 262144 + v div 4096 mod 64 * 4096 + v div 64 mod 64 * 64 + v mod 64 = v"
proof -
  have "v div 4096 = v div 64 div 64" "v div 262144 = v div 64 div 64 div 64"
    by (simp_all add: div_mult2_eq [symmetric])
  then show ?thesis
    by (simp only:) (rule horner64; rule div_mult_mod_eq [symmetric])
qed

lemma bytes24:
  fixes a b c :: nat
  assumes "b < 256" and "c < 256"
  shows "(a * 65536 + b * 256 + c) div 65536 = a"
    and "(a * 65536 + b * 256 + c) div 256 mod 256 = b"
    and "(a * 65536 + b * 256 + c) mod 256 = c"
proof -
  have eq: "a * 65536 + b * 256 + c = (a * 256 + b) * 256 + c" by simp
  have d: "(a * 65536 + b * 256 + c) div 256 = a * 256 + b"
    unfolding eq using assms by (subst div_mult_self3) simp_all
  then show "(a * 65536 + b * 256 + c) div 256 mod 256 = b"
    using assms by simp
  show "(a * 65536 + b * 256 + c) mod 256 = c"
    unfolding eq using assms by (simp only: mod_mult_self3 mod_less)
  have "(a * 65536 + b * 256 + c) div 65536 = (a * 65536 + b * 256 + c) div 256 div 256"
    by (simp add: div_mult2_eq [symmetric])
  also have "\<dots> = a"
    unfolding d using assms by simp
  finally show "(a * 65536 + b * 256 + c) div 65536 = a" .
qed

lemma b64_groups_digits:
  "\<forall>b \<in> set bs. b < 256 \<Longrightarrow> b64_groups (b64_digits bs) = Some bs"
proof (induction bs rule: b64_digits.induct)
  case (2 a)
  let ?v = "a * 65536"
  have "?v mod 64 = 0" "?v div 64 mod 64 = 0" by simp_all
  then have "?v div 262144 * 262144 + ?v div 4096 mod 64 * 4096 = ?v"
    using digits24 [of ?v] by (simp only: mult_0 add_0_right)
  then show ?case by (simp only: b64_digits.simps b64_groups.simps) simp
next
  case (3 a b)
  let ?v = "a * 65536 + b * 256"
  have "?v mod 64 = 0" by simp
  then have "?v div 262144 * 262144 + ?v div 4096 mod 64 * 4096 + ?v div 64 mod 64 * 64 = ?v"
    using digits24 [of ?v] by (simp only: add_0_right)
  moreover have "?v div 65536 = a" "?v div 256 mod 256 = b"
    using bytes24 [of b 0 a] 3 by simp_all
  ultimately show ?case by (simp only: b64_digits.simps b64_groups.simps Let_def)
next
  case (4 a b c rest)
  then have "b64_groups (b64_digits rest) = Some rest" by simp
  moreover have "b < 256" "c < 256" using 4 by simp_all
  ultimately show ?case
    by (simp only: b64_digits.simps b64_groups.simps Let_def append.simps digits24 bytes24
        option.map)
qed simp

lemma decode_encode: "decode_string (encode_to_string bs) = Some bs"
proof -
  have r: "\<forall>b \<in> set (map unat bs). b < 256"
    using unsigned_less [where 'b = 8 and 'a = nat] by auto
  then have "b64_values (b64_encode (map unat bs)) = Some (b64_digits (map unat bs))"
    using b64_values_chars [OF b64_digits_range [OF r], of "[]"] by (simp add: b64_encode_digits)
  then show ?thesis
    by (simp add: decode_string_def encode_to_string_def b64_groups_digits [OF r] comp_def)
qed

section \<open>The contract\<close>

locale codec =
  fixes enc :: "'a \<Rightarrow> 'b"
    and dec :: "'b \<Rightarrow> 'a option"
  assumes dec_enc: "dec (enc x) = Some x"
begin

lemma enc_inj: "enc x = enc y \<Longrightarrow> x = y"
  by (metis dec_enc option.inject)

lemma enc_image_dec: "y \<in> range enc \<Longrightarrow> \<exists>x. dec y = Some x \<and> enc x = y"
  using dec_enc by auto

end

interpretation base64: codec encode_to_string decode_string
  by unfold_locales (rule decode_encode)

end
