(* ===== verification/Sidecar.thy ===== *)
theory Sidecar
  imports Base64 Chunk_Plan
begin

text \<open>
  The resume sidecar, \<open>internal/sidecar/sidecar.go\<close>: the completion bitmap and its text
  form, the persisted state, and the manager's operations \<open>Create\<close>, \<open>Load\<close>,
  \<open>MarkComplete\<close> and \<open>Remove\<close> with the outcomes of the file system. The manager and the
  two files it owns (\<open>dest.pget\<close> and \<open>dest.pget.tmp\<close>) are one record. A sidecar file is the
  document that \<open>json.Marshal\<close> wrote (\<open>Doc\<close>) or anything that does not parse
  (\<open>Garbage\<close>); reading a document gives back the state that was written.
\<close>

section \<open>Completion bitmaps\<close>

datatype sc_err =
    ErrBase64
  | ErrItemRange int
  | ErrChunkRange int
  | ErrRead
  | ErrParse
  | ErrVersion int
  | ErrWriteTmp
  | ErrRename
  | ErrNoState
  | ErrRemove

text \<open>The loops over bytes and bits: bit \<open>j\<close> of byte \<open>i\<close> is chunk \<open>8 * i + j\<close>.\<close>

definition bits_of_bytes :: "bytes \<Rightarrow> bool list" where
  "bits_of_bytes data = concat (map (\<lambda>b. map (bit b) [0..<8]) data)"

definition or_bit :: "bool list \<Rightarrow> nat \<Rightarrow> bytes \<Rightarrow> bytes" where
  "or_bit bm i data =
     (if bm ! i then data[i div 8 := or (data ! (i div 8)) (push_bit (i mod 8) 1)] else data)"

definition bytes_of_bits :: "bool list \<Rightarrow> bytes" where
  "bytes_of_bits bm =
     fold (or_bit bm) [0..<length bm] (replicate ((length bm + 7) div 8) 0)"

definition encode_bitmap :: "bool list \<Rightarrow> string" where
  "encode_bitmap bm = encode_to_string (bytes_of_bits bm)"

definition decode_bitmap :: "string \<Rightarrow> int \<Rightarrow> (sc_err, bool list) res" where
  "decode_bitmap encoded minSize =
     (if encoded = [] then if minSize < 0 then Panic else Ret (replicate (nat minSize) False)
      else case decode_string encoded of
        None \<Rightarrow> Err ErrBase64
      | Some data \<Rightarrow>
          let bm = bits_of_bytes data
          in Ret (if int (length bm) < minSize
                  then bm @ replicate (nat minSize - length bm) False else bm))"

section \<open>The persisted state\<close>

record sc_item =
  itSourceURLHash :: string
  itFinalURLHash :: string
  itDisplayURL :: string
  itOutputOffset :: int
  itLength :: int
  itSplitSize :: int
  itETag :: string
  itLastModified :: string
  itRemoteMtimeUnix :: int
  itCompletedBitmap :: string
  itComplete :: bool

record sc_state =
  stVersion :: int
  stDestination :: string
  stURLListHash :: string
  stCreatedAt :: gtime
  stUpdatedAt :: gtime
  stItems :: "sc_item list"

definition sc_version :: int where
  "sc_version = 1"

datatype sc_file = Doc sc_state | Garbage

text \<open>\<open>mgState\<close> is the loaded state, \<open>mgFile\<close> and \<open>mgTmp\<close> the files at \<open>path\<close> and
  \<open>path.tmp\<close>.\<close>

record manager =
  mgPath :: string
  mgState :: "sc_state option"
  mgFile :: "sc_file option"
  mgTmp :: "sc_file option"

definition new_manager :: "string \<Rightarrow> sc_file option \<Rightarrow> sc_file option \<Rightarrow> manager" where
  "new_manager dest file tmp =
     \<lparr>mgPath = dest @ ''.pget'', mgState = None, mgFile = file, mgTmp = tmp\<rparr>"

definition sc_exists :: "manager \<Rightarrow> bool" where
  "sc_exists m \<longleftrightarrow> mgFile m \<noteq> None"

text \<open>What the file system does with one atomic write: both steps succeed; writing the
  temporary file fails and leaves something there; the rename fails; or the process dies
  before the rename.\<close>

datatype write_outcome = WriteOk | TmpFails "sc_file option" | RenameFails | Dies "sc_file option"

definition write_locked :: "write_outcome \<Rightarrow> sc_state \<Rightarrow> manager \<Rightarrow> (sc_err, unit) res \<times> manager" where
  "write_locked w st m =
     (case w of
        WriteOk \<Rightarrow> (Ret (), m\<lparr>mgFile := Some (Doc st), mgTmp := None\<rparr>)
      | TmpFails junk \<Rightarrow> (Err ErrWriteTmp, m\<lparr>mgTmp := junk\<rparr>)
      | RenameFails \<Rightarrow> (Err ErrRename, m\<lparr>mgTmp := None\<rparr>)
      | Dies junk \<Rightarrow> (Panic, m\<lparr>mgTmp := junk\<rparr>))"

definition checkpoint_locked :: "gtime \<Rightarrow> write_outcome \<Rightarrow> manager \<Rightarrow> (sc_err, unit) res \<times> manager" where
  "checkpoint_locked now w m =
     (case mgState m of
        None \<Rightarrow> (Err ErrNoState, m)
      | Some st \<Rightarrow>
          let st' = st\<lparr>stUpdatedAt := now\<rparr>
          in write_locked w st' (m\<lparr>mgState := Some st'\<rparr>))"

definition sc_create ::
  "gtime \<Rightarrow> write_outcome \<Rightarrow> string \<Rightarrow> string \<Rightarrow> sc_item list \<Rightarrow> manager \<Rightarrow>
     (sc_err, unit) res \<times> manager" where
  "sc_create now w dest urlListHash items m =
     (let st = \<lparr>stVersion = sc_version, stDestination = dest, stURLListHash = urlListHash,
                stCreatedAt = now, stUpdatedAt = now, stItems = items\<rparr>
      in case write_locked w st m of
           (Ret _, m') \<Rightarrow> (Ret (), m'\<lparr>mgState := Some st\<rparr>)
         | (r, m') \<Rightarrow> (r, m'))"

definition sc_load :: "manager \<Rightarrow> (sc_err, sc_state) res \<times> manager" where
  "sc_load m =
     (case mgFile m of
        None \<Rightarrow> (Err ErrRead, m)
      | Some Garbage \<Rightarrow> (Err ErrParse, m)
      | Some (Doc st) \<Rightarrow>
          if stVersion st \<noteq> sc_version then (Err (ErrVersion (stVersion st)), m)
          else (Ret st, m\<lparr>mgState := Some st\<rparr>))"

text \<open>One item of \<open>MarkComplete\<close>: decode, set the bit, encode, and recompute \<open>Complete\<close>.
  Only the upper bound of the chunk index is checked; a negative one panics.\<close>

definition mark_item :: "int \<Rightarrow> sc_item \<Rightarrow> (sc_err, sc_item) res" where
  "mark_item idx it =
     res_bind (of_panic (chunk_quot (itSplitSize it) (itLength it))) (\<lambda>chunkCount.
     res_bind (decode_bitmap (itCompletedBitmap it) chunkCount) (\<lambda>bm.
       if idx \<ge> int (length bm) then Err (ErrChunkRange idx)
       else if idx < 0 then Panic
       else let bm' = bm[nat idx := True]
            in Ret (it\<lparr>itCompletedBitmap := encode_bitmap bm',
                       itComplete := list_all id bm'\<rparr>)))"

definition sc_mark_complete ::
  "gtime \<Rightarrow> write_outcome \<Rightarrow> int \<Rightarrow> int \<Rightarrow> manager \<Rightarrow> (sc_err, unit) res \<times> manager" where
  "sc_mark_complete now w itemIndex chunkIndex m =
     (case mgState m of
        None \<Rightarrow> (Ret (), m)
      | Some st \<Rightarrow>
          if \<not> in_range itemIndex (stItems st) then (Err (ErrItemRange itemIndex), m)
          else case mark_item chunkIndex (stItems st ! nat itemIndex) of
            Panic \<Rightarrow> (Panic, m)
          | Err e \<Rightarrow> (Err e, m)
          | Ret it \<Rightarrow>
              checkpoint_locked now w
                (m\<lparr>mgState := Some (st\<lparr>stItems := (stItems st)[nat itemIndex := it]\<rparr>)\<rparr>))"

text \<open>\<open>os.Remove\<close>; the argument is whether the file system lets it happen.\<close>

definition sc_remove :: "bool \<Rightarrow> manager \<Rightarrow> (sc_err, unit) res \<times> manager" where
  "sc_remove ok m =
     (if ok \<and> mgFile m \<noteq> None then (Ret (), m\<lparr>mgFile := None\<rparr>) else (Err ErrRemove, m))"

section \<open>Hashes\<close>

text \<open>SHA-256 is an argument.\<close>

definition hash_url :: "(string \<Rightarrow> bytes) \<Rightarrow> string \<Rightarrow> string" where
  "hash_url sha s = ''sha256:'' @ encode_to_string (sha s)"

definition hash_url_list :: "(string \<Rightarrow> bytes) \<Rightarrow> string list \<Rightarrow> string" where
  "hash_url_list sha urls =
     ''sha256:'' @ encode_to_string (sha (concat (map (\<lambda>u. u @ [CHR 0x00]) urls)))"

section \<open>Bits and bytes\<close>

lemma length_bits_of_bytes [simp]: "length (bits_of_bytes data) = 8 * length data"
  by (induction data) (simp_all add: bits_of_bytes_def)

lemma nth_bits_of_bytes:
  "k < 8 * length data \<Longrightarrow> bits_of_bytes data ! k = bit (data ! (k div 8)) (k mod 8)"
proof (induction data arbitrary: k)
  case (Cons b bs)
  show ?case
  proof (cases "k < 8")
    case True
    then show ?thesis by (simp add: bits_of_bytes_def nth_append)
  next
    case False
    then have "bits_of_bytes (b # bs) ! k = bits_of_bytes bs ! (k - 8)"
      by (simp add: bits_of_bytes_def nth_append)
    moreover have "k div 8 = Suc ((k - 8) div 8)" "(k - 8) mod 8 = k mod 8"
      using False by (auto simp: le_div_geq le_mod_geq)
    ultimately show ?thesis using Cons False by simp
  qed
qed simp

lemma length_or_bits [simp]: "length (fold (or_bit bm) ks data) = length data"
  by (induction ks arbitrary: data) (simp_all add: or_bit_def)

lemma bit_or_bits:
  assumes "n \<le> length bm" and "i < (length bm + 7) div 8" and "j < 8"
  shows "bit (fold (or_bit bm) [0..<n] (replicate ((length bm + 7) div 8) 0) ! i) j =
    (8 * i + j < n \<and> bm ! (8 * i + j))"
  using assms(1)
proof (induction n)
  case (Suc n)
  let ?d = "fold (or_bit bm) [0..<n] (replicate ((length bm + 7) div 8) (0::8 word))"
  have IH: "bit (?d ! i) j = (8 * i + j < n \<and> bm ! (8 * i + j))"
    using Suc by simp
  have key: "8 * i + j = n \<longleftrightarrow> i = n div 8 \<and> j = n mod 8"
    using assms(3) by auto
  have len: "n div 8 < length ?d"
    using Suc.prems by simp
  show ?case
  proof (cases "bm ! n")
    case True
    have "fold (or_bit bm) [0..<Suc n] (replicate ((length bm + 7) div 8) 0) =
        ?d[n div 8 := or (?d ! (n div 8)) (push_bit (n mod 8) 1)]"
      using True by (simp add: or_bit_def)
    also have "bit (\<dots> ! i) j =
        (bit (?d ! i) j \<or> i = n div 8 \<and> j = n mod 8)"
      using len assms(2,3) by (auto simp: nth_list_update bit_or_iff bit_exp_iff)
    finally show ?thesis using IH key True by (auto simp: less_Suc_eq)
  next
    case False
    then have "fold (or_bit bm) [0..<Suc n] (replicate ((length bm + 7) div 8) 0) = ?d"
      by (simp add: or_bit_def)
    then show ?thesis using IH False by (auto simp: less_Suc_eq)
  qed
qed (use assms in simp)

lemma length_bytes_of_bits [simp]: "length (bytes_of_bits bm) = (length bm + 7) div 8"
  by (simp add: bytes_of_bits_def)

text \<open>Writing a bitmap to bytes and reading it back pads it to whole bytes with clear bits.\<close>

definition pad_bits :: "nat \<Rightarrow> bool list \<Rightarrow> bool list" where
  "pad_bits n bm = bm @ replicate (n - length bm) False"

lemma length_pad_bits [simp]: "length (pad_bits n bm) = max n (length bm)"
  by (simp add: pad_bits_def)

lemma nth_pad_bits: "k < max n (length bm) \<Longrightarrow> pad_bits n bm ! k = (k < length bm \<and> bm ! k)"
  by (auto simp: pad_bits_def nth_append)

lemma bits_bytes_bits: "bits_of_bytes (bytes_of_bits bm) = pad_bits (8 * ((length bm + 7) div 8)) bm"
proof (rule nth_equalityI)
  show "length (bits_of_bytes (bytes_of_bits bm)) = length (pad_bits (8 * ((length bm + 7) div 8)) bm)"
    by simp
next
  fix k
  assume k: "k < length (bits_of_bytes (bytes_of_bits bm))"
  then have "bits_of_bytes (bytes_of_bits bm) ! k = bit (bytes_of_bits bm ! (k div 8)) (k mod 8)"
    by (intro nth_bits_of_bytes) simp
  also have "\<dots> = (k < length bm \<and> bm ! k)"
    using k bit_or_bits [of "length bm" bm "k div 8" "k mod 8"]
    by (simp add: bytes_of_bits_def less_mult_imp_div_less mult.commute)
  also have "\<dots> = pad_bits (8 * ((length bm + 7) div 8)) bm ! k"
    using k by (subst nth_pad_bits) auto
  finally show "bits_of_bytes (bytes_of_bits bm) ! k =
      pad_bits (8 * ((length bm + 7) div 8)) bm ! k" .
qed

lemma encode_to_string_Nil [simp]: "encode_to_string bs = [] \<longleftrightarrow> bs = []"
proof -
  have "encode_to_string [] = []" by (simp add: encode_to_string_def)
  then show ?thesis using base64.enc_inj [of bs "[]"] by auto
qed

lemma encode_bitmap_Nil [simp]: "encode_bitmap bm = [] \<longleftrightarrow> bm = []"
proof -
  have "bytes_of_bits bm = [] \<longleftrightarrow> (length bm + 7) div 8 = 0"
    by (metis length_0_conv length_bytes_of_bits)
  then show ?thesis by (simp add: encode_bitmap_def div_eq_0_iff)
qed

definition padded_size :: "nat \<Rightarrow> int \<Rightarrow> nat" where
  "padded_size len n = max (8 * ((len + 7) div 8)) (nat n)"

lemma pad_bits_pad_bits: "length bm \<le> m \<Longrightarrow> m \<le> n \<Longrightarrow> pad_bits n (pad_bits m bm) = pad_bits n bm"
  by (simp add: pad_bits_def replicate_add [symmetric])

lemma decode_encode_bitmap:
  assumes "bm \<noteq> [] \<or> 0 \<le> n"
  shows "decode_bitmap (encode_bitmap bm) n = Ret (pad_bits (padded_size (length bm) n) bm)"
proof (cases "bm = []")
  case True
  then show ?thesis using assms by (simp add: decode_bitmap_def pad_bits_def padded_size_def)
next
  case False
  let ?m = "8 * ((length bm + 7) div 8)"
  have le: "length bm \<le> ?m" by simp
  have dec: "decode_string (encode_bitmap bm) = Some (bytes_of_bits bm)"
    by (simp add: encode_bitmap_def decode_encode)
  have "decode_bitmap (encode_bitmap bm) n = Ret (pad_bits (max ?m (nat n)) (pad_bits ?m bm))"
    using False by (auto simp: decode_bitmap_def dec bits_bytes_bits pad_bits_def Let_def max_def)
  then show ?thesis
    using pad_bits_pad_bits [OF le, of "max ?m (nat n)"] by (simp add: padded_size_def)
qed

section \<open>The completion log of an item\<close>

text \<open>The chunk indices that an item's bitmap records, as resume reads them.\<close>

definition recorded :: "sc_item \<Rightarrow> nat list" where
  "recorded it =
     (case chunk_quot (itSplitSize it) (itLength it) of
        None \<Rightarrow> []
      | Some n \<Rightarrow>
          (case decode_bitmap (itCompletedBitmap it) n of
             Ret bm \<Rightarrow> filter (\<lambda>k. bm ! k) [0..<length bm]
           | _ \<Rightarrow> []))"

definition item_ok :: "sc_item \<Rightarrow> bool" where
  "item_ok it \<longleftrightarrow> plan_ok (itSplitSize it) (itLength it) \<and>
     (itCompletedBitmap it = [] \<or> decode_string (itCompletedBitmap it) \<noteq> None)"

definition item_chunks :: "sc_item \<Rightarrow> nat" where
  "item_chunks it = n_chunks (itSplitSize it) (itLength it)"

lemma item_ok_decode:
  assumes "item_ok it"
  obtains bm where "decode_bitmap (itCompletedBitmap it) (int (item_chunks it)) = Ret bm"
    and "item_chunks it \<le> length bm"
    and "chunk_quot (itSplitSize it) (itLength it) = Some (int (item_chunks it))"
    and "0 < item_chunks it"
proof -
  have q: "chunk_quot (itSplitSize it) (itLength it) = Some (int (item_chunks it))"
    using assms by (simp add: item_ok_def item_chunks_def chunk_quot_ok)
  have "0 < item_chunks it"
    using assms by (simp add: item_ok_def item_chunks_def n_chunks_bounds)
  moreover have "\<exists>bm. decode_bitmap (itCompletedBitmap it) (int (item_chunks it)) = Ret bm \<and>
      item_chunks it \<le> length bm"
    using assms by (auto simp: item_ok_def decode_bitmap_def Let_def)
  ultimately show ?thesis using q that by blast
qed

lemma mark_item_ok:
  assumes ok: "item_ok it" and i: "0 \<le> idx" "idx < int (item_chunks it)"
  shows "\<exists>it'. mark_item idx it = Ret it' \<and> item_ok it' \<and>
    itSplitSize it' = itSplitSize it \<and> itLength it' = itLength it \<and>
    set (recorded it') = insert (nat idx) (set (recorded it))"
proof -
  from item_ok_decode [OF ok] obtain bm where
    bm: "decode_bitmap (itCompletedBitmap it) (int (item_chunks it)) = Ret bm"
      "item_chunks it \<le> length bm"
    and q: "chunk_quot (itSplitSize it) (itLength it) = Some (int (item_chunks it))"
    and pos: "0 < item_chunks it" .
  let ?bm = "bm[nat idx := True]"
  let ?it = "it\<lparr>itCompletedBitmap := encode_bitmap ?bm, itComplete := list_all id ?bm\<rparr>"
  have mk: "mark_item idx it = Ret ?it"
    using i bm by (simp add: mark_item_def q Let_def)
  have ne: "?bm \<noteq> []" using bm pos by auto
  have dec: "decode_bitmap (encode_bitmap ?bm) (int (item_chunks it)) =
      Ret (pad_bits (padded_size (length bm) (int (item_chunks it))) ?bm)"
    using decode_encode_bitmap [of ?bm "int (item_chunks it)"] by simp
  have "decode_string (encode_bitmap ?bm) \<noteq> None"
    by (simp add: encode_bitmap_def decode_encode)
  then have "item_ok ?it" using ok by (simp add: item_ok_def)
  moreover have "set (recorded ?it) = insert (nat idx) (set (recorded it))"
    using i bm(2)
    by (auto simp: recorded_def q dec bm(1) nth_pad_bits nth_list_update padded_size_def)
  ultimately show ?thesis using mk by auto
qed

text \<open>What the file sink and resume rely on: marking never loses a record and adds exactly
  one.\<close>

locale completion_log =
  fixes mark :: "int \<Rightarrow> 'i \<Rightarrow> ('e, 'i) res"
    and seen :: "'i \<Rightarrow> nat set"
    and valid :: "nat \<Rightarrow> 'i \<Rightarrow> bool"
  assumes mark_ret: "valid n it \<Longrightarrow> 0 \<le> i \<Longrightarrow> i < int n \<Longrightarrow>
      \<exists>it'. mark i it = Ret it' \<and> valid n it' \<and> seen it' = insert (nat i) (seen it)"
begin

lemma mark_seen:
  assumes "valid n it" and "0 \<le> i" and "i < int n" and "mark i it = Ret it'"
  shows "valid n it' \<and> seen it' = insert (nat i) (seen it)"
  using mark_ret [OF assms(1-3)] assms(4) by auto

text \<open>Marks in any order, repeated or not, record exactly the set of the marked chunks.\<close>

lemma marks_seen:
  assumes "valid n it" and "\<forall>i \<in> set ks. 0 \<le> i \<and> i < int n"
  shows "\<exists>it'. fold (\<lambda>i r. res_bind r (mark i)) ks (Ret it) = Ret it' \<and> valid n it' \<and>
    seen it' = nat ` set ks \<union> seen it"
  using assms
proof (induction ks arbitrary: it)
  case (Cons i ks)
  obtain it1 where "mark i it = Ret it1" "valid n it1" "seen it1 = insert (nat i) (seen it)"
    using mark_ret [of n it i] Cons.prems by auto
  then show ?case using Cons.IH [of it1] Cons.prems by auto
qed simp

end

interpretation item_log: completion_log mark_item "\<lambda>it. set (recorded it)"
  "\<lambda>n it. item_ok it \<and> item_chunks it = n"
  by unfold_locales (use mark_item_ok in \<open>fastforce simp: item_chunks_def\<close>)

section \<open>Properties\<close>

text \<open>C18: an encoded bitmap decodes to itself, followed by clear bits up to whole bytes and up
  to the requested size.\<close>

theorem bitmap_roundtrip:
  assumes "0 \<le> n"
  shows "decode_bitmap (encode_bitmap bm) n = Ret (pad_bits (padded_size (length bm) n) bm)"
  using assms by (intro decode_encode_bitmap) simp

theorem bitmap_roundtrip_witness:
  "decode_bitmap (encode_bitmap [True, False, True]) 3 =
     Ret [True, False, True, False, False, False, False, False]"
proof -
  have "pad_bits (padded_size 3 3) [True, False, True] =
      [True, False, True, False, False, False, False, False]"
    by code_simp
  moreover have "length [True, False, True] = 3" by simp
  ultimately show ?thesis
    using bitmap_roundtrip [of 3 "[True, False, True]"] by (simp only:)
qed

text \<open>marking chunks of an accepted item, in any order and with repetitions, never fails,
  and the stored bitmap then records exactly the chunks marked and those recorded before.\<close>

theorem marks_recorded:
  assumes "item_ok it" and "\<forall>i \<in> set ks. 0 \<le> i \<and> i < int (item_chunks it)"
  shows "\<exists>it'. fold (\<lambda>i r. res_bind r (mark_item i)) ks (Ret it) = Ret it' \<and> item_ok it' \<and>
    set (recorded it') = nat ` set ks \<union> set (recorded it)"
  using item_log.marks_seen [where n = "item_chunks it" and it = it and ks = ks] assms
  by auto

definition demo_item :: sc_item where
  "demo_item = \<lparr>itSourceURLHash = [], itFinalURLHash = [], itDisplayURL = [], itOutputOffset = 0,
     itLength = 10, itSplitSize = 4, itETag = [], itLastModified = [], itRemoteMtimeUnix = 0,
     itCompletedBitmap = [], itComplete = False\<rparr>"

lemma demo_item_ok: "item_ok demo_item" "item_chunks demo_item = 3"
  by (simp_all add: item_ok_def demo_item_def plan_ok_def item_chunks_def n_chunks_def)

theorem marks_recorded_witness:
  "\<exists>it. res_bind (mark_item 2 demo_item) (mark_item 0) = Ret it \<and> set (recorded it) = {0, 2}"
proof -
  have "recorded demo_item = []"
    by (simp add: recorded_def demo_item_def chunk_quot_def go_div_def signed_divide_int_def
        i64_def decode_bitmap_def)
  then show ?thesis
    using marks_recorded [OF demo_item_ok(1), of "[2, 0]"] by (simp add: demo_item_ok) blast
qed

end
