(* ===== verification/Sidecar_Props.thy ===== *)
theory Sidecar_Props
  imports Sidecar
begin

text \<open>
  The sidecar over time: any sequence of the manager's operations, each with any outcome of its
  file operations, and of deaths of the process. What is on disk stays a document that a later
  run can load (\<open>manager_wf\<close>), and marks whose own write failed are on disk after the next
  write that succeeds.
\<close>

section \<open>Operations\<close>

text \<open>\<open>ScReopen\<close> is a new process that finds the files of the old one.\<close>

datatype sc_op =
    ScCreate gtime write_outcome string string "sc_item list"
  | ScLoad
  | ScMark gtime write_outcome int int
  | ScRemove bool
  | ScReopen

fun sc_apply :: "sc_op \<Rightarrow> manager \<Rightarrow> manager" where
  "sc_apply (ScCreate now w dest h items) m = snd (sc_create now w dest h items m)"
| "sc_apply ScLoad m = snd (sc_load m)"
| "sc_apply (ScMark now w i k) m = snd (sc_mark_complete now w i k m)"
| "sc_apply (ScRemove ok) m = snd (sc_remove ok m)"
| "sc_apply ScReopen m = m\<lparr>mgState := None\<rparr>"

text \<open>The items that the runner creates sidecars with are items of plans.\<close>

fun op_ok :: "sc_op \<Rightarrow> bool" where
  "op_ok (ScCreate now w dest h items) = list_all item_ok items"
| "op_ok _ = True"

section \<open>Well-formedness\<close>

definition state_wf :: "sc_state \<Rightarrow> bool" where
  "state_wf st \<longleftrightarrow> stVersion st = sc_version \<and> list_all item_ok (stItems st)"

fun file_wf :: "sc_file option \<Rightarrow> bool" where
  "file_wf None = True"
| "file_wf (Some (Doc st)) = state_wf st"
| "file_wf (Some Garbage) = False"

definition manager_wf :: "manager \<Rightarrow> bool" where
  "manager_wf m \<longleftrightarrow> file_wf (mgFile m) \<and> (\<forall>st. mgState m = Some st \<longrightarrow> state_wf st)"

lemma mark_item_wf:
  assumes "item_ok it" and "mark_item idx it = Ret it'"
  shows "item_ok it'"
proof -
  obtain bm where "it' = it\<lparr>itCompletedBitmap := encode_bitmap bm, itComplete := list_all id bm\<rparr>"
    using assms(2) by (auto simp: mark_item_def res_bind_Ret Let_def split: if_splits)
  then show ?thesis using assms(1) by (simp add: item_ok_def encode_bitmap_def decode_encode)
qed

lemma write_locked_wf:
  "manager_wf m \<Longrightarrow> state_wf st \<Longrightarrow> manager_wf (snd (write_locked w st m))"
  by (auto simp: manager_wf_def write_locked_def split: write_outcome.split)

lemma state_wf_mark:
  assumes "state_wf st" and "in_range i (stItems st)" and "mark_item k (stItems st ! nat i) = Ret it"
  shows "state_wf (st\<lparr>stItems := (stItems st)[nat i := it], stUpdatedAt := now\<rparr>)"
proof -
  have "item_ok (stItems st ! nat i)"
    using assms(1,2) by (auto simp: state_wf_def list_all_length)
  from mark_item_wf [OF this assms(3)] have "item_ok it" .
  then show ?thesis
    using assms(1) set_update_subset_insert [of "stItems st" "nat i" it]
    by (auto simp: state_wf_def list_all_iff)
qed

lemma sc_apply_wf:
  assumes wf: "manager_wf m" and ok: "op_ok op"
  shows "manager_wf (sc_apply op m)"
proof (cases op)
  case (ScCreate now w dest h items)
  let ?st = "\<lparr>stVersion = sc_version, stDestination = dest, stURLListHash = h,
    stCreatedAt = now, stUpdatedAt = now, stItems = items\<rparr>"
  have st: "state_wf ?st" using ok ScCreate by (simp add: state_wf_def)
  have "manager_wf (snd (write_locked w ?st m))" by (rule write_locked_wf [OF wf st])
  then show ?thesis
    using ScCreate st
    by (auto simp: sc_create_def manager_wf_def Let_def split: prod.split res.split)
next
  case ScLoad
  then show ?thesis
    using wf by (auto simp: sc_load_def manager_wf_def split: option.split sc_file.split)
next
  case (ScMark now w i k)
  show ?thesis
  proof (cases "\<exists>st it. mgState m = Some st \<and> in_range i (stItems st) \<and>
      mark_item k (stItems st ! nat i) = Ret it")
    case True
    then obtain st it where st: "mgState m = Some st" "in_range i (stItems st)"
      "mark_item k (stItems st ! nat i) = Ret it" by blast
    let ?st = "st\<lparr>stItems := (stItems st)[nat i := it], stUpdatedAt := now\<rparr>"
    have new: "state_wf ?st" using state_wf_mark [OF _ st(2,3)] st(1) wf by (simp add: manager_wf_def)
    then have "manager_wf (m\<lparr>mgState := Some ?st\<rparr>)" using wf by (simp add: manager_wf_def)
    from write_locked_wf [OF this new, of w] show ?thesis
      using ScMark st by (simp add: sc_mark_complete_def checkpoint_locked_def Let_def)
  next
    case False
    then have "sc_apply op m = m"
      using ScMark by (auto simp: sc_mark_complete_def split: option.split res.split)
    then show ?thesis using wf by simp
  qed
next
  case (ScRemove ok)
  then show ?thesis using wf by (auto simp: sc_remove_def manager_wf_def)
next
  case ScReopen
  then show ?thesis using wf by (simp add: manager_wf_def)
qed

interpretation sidecar_system:
  inductive_invariant manager_wf "\<lambda>m m'. \<exists>op. op_ok op \<and> m' = sc_apply op m" manager_wf
  by unfold_locales (auto intro: sc_apply_wf)

lemma sc_run_steps:
  "\<forall>op \<in> set ops. op_ok op \<Longrightarrow>
     (\<lambda>m m'. \<exists>op. op_ok op \<and> m' = sc_apply op m)\<^sup>*\<^sup>* m (fold sc_apply ops m)"
  by (induction ops arbitrary: m) (auto intro: converse_rtranclp_into_rtranclp)

section \<open>Marks whose write fails\<close>

text \<open>The marks of the workers of a job: the clock, the outcome of the write and the chunk. The
  loaded state of a running job has the one item \<open>it\<close>.\<close>

definition marks :: "(gtime \<times> write_outcome \<times> int) list \<Rightarrow> manager \<Rightarrow> manager" where
  "marks mks m = fold (\<lambda>(now, w, k). sc_apply (ScMark now w 0 k)) mks m"

definition holds_item :: "manager \<Rightarrow> sc_item \<Rightarrow> bool" where
  "holds_item m it \<longleftrightarrow> (\<exists>st. mgState m = Some st \<and> stItems st = [it])"

lemma mark_holds:
  assumes m: "holds_item m it" and ok: "item_ok it" and k: "0 \<le> k" "k < int (item_chunks it)"
  obtains it' where "holds_item (sc_apply (ScMark now w 0 k) m) it'" and "item_ok it'"
    and "item_chunks it' = item_chunks it"
    and "set (recorded it') = insert (nat k) (set (recorded it))"
    and "w = WriteOk \<Longrightarrow> \<exists>st. mgFile (sc_apply (ScMark now w 0 k) m) = Some (Doc st) \<and> stItems st = [it']"
proof -
  obtain st where st: "mgState m = Some st" "stItems st = [it]" using m by (auto simp: holds_item_def)
  obtain it' where it': "mark_item k it = Ret it'" "item_ok it'" "itSplitSize it' = itSplitSize it"
    "itLength it' = itLength it" "set (recorded it') = insert (nat k) (set (recorded it))"
    using mark_item_ok [OF ok k] by blast
  let ?st = "st\<lparr>stItems := [it'], stUpdatedAt := now\<rparr>"
  have ap: "sc_apply (ScMark now w 0 k) m = snd (write_locked w ?st (m\<lparr>mgState := Some ?st\<rparr>))"
    using st it'(1) by (simp add: sc_mark_complete_def in_range_def checkpoint_locked_def Let_def)
  show ?thesis
  proof (rule that [of it'])
    show "holds_item (sc_apply (ScMark now w 0 k) m) it'"
      unfolding ap by (auto simp: holds_item_def write_locked_def split: write_outcome.split)
    show "item_chunks it' = item_chunks it" using it' by (simp add: item_chunks_def)
    show "\<exists>st. mgFile (sc_apply (ScMark now w 0 k) m) = Some (Doc st) \<and> stItems st = [it']"
      if "w = WriteOk" unfolding ap using that by (simp add: write_locked_def)
  qed (use it' in simp_all)
qed

lemma marks_hold:
  assumes "holds_item m it" and "item_ok it"
    and "\<forall>(now, w, k) \<in> set mks. 0 \<le> k \<and> k < int (item_chunks it)"
  shows "\<exists>it'. holds_item (marks mks m) it' \<and> item_ok it' \<and> item_chunks it' = item_chunks it \<and>
    set (recorded it') = (\<lambda>(now, w, k). nat k) ` set mks \<union> set (recorded it)"
  using assms
proof (induction mks arbitrary: m it)
  case (Cons e mks)
  obtain now w k where e: "e = (now, w, k)" by (cases e)
  have k: "0 \<le> k" "k < int (item_chunks it)" using Cons.prems(3) e by simp_all
  obtain it1 where it1: "holds_item (sc_apply (ScMark now w 0 k) m) it1" "item_ok it1"
    "item_chunks it1 = item_chunks it" "set (recorded it1) = insert (nat k) (set (recorded it))"
    using mark_holds [OF Cons.prems(1,2) k] by metis
  then have "\<exists>it'. holds_item (marks mks (sc_apply (ScMark now w 0 k) m)) it' \<and> item_ok it' \<and>
      item_chunks it' = item_chunks it1 \<and>
      set (recorded it') = (\<lambda>(now, w, k). nat k) ` set mks \<union> set (recorded it1)"
    using Cons.prems(3) by (intro Cons.IH) auto
  then show ?case using e it1(3,4) by (auto simp: marks_def)
qed (auto simp: marks_def)

section \<open>Properties\<close>

text \<open>C17: The sidecar stays well-formed: whatever sequence of creations, loads, marks and removals
  the program performs, however each write ends (torn temporary file, failed rename, death of
  the process) and however often the process is restarted, the file at the sidecar's path is
  absent or a complete document of the supported version whose bitmaps decode, and loading it
  succeeds. A torn document never gets there.\<close>

theorem sidecar_wellformed:
  assumes "\<forall>op \<in> set ops. op_ok op" and "m = fold sc_apply ops (new_manager dest None None)"
  shows "manager_wf m \<and> (sc_exists m \<longrightarrow> (\<exists>st. fst (sc_load m) = Ret st \<and> state_wf st))"
proof -
  have "manager_wf (new_manager dest None None)" by (simp add: manager_wf_def new_manager_def)
  then have wf: "manager_wf m"
    unfolding assms(2) by (rule sidecar_system.steps_I [OF sc_run_steps [OF assms(1)]])
  then show ?thesis
    by (cases "mgFile m" rule: file_wf.cases)
      (auto simp: manager_wf_def sc_exists_def sc_load_def state_wf_def)
qed

definition demo_sc_ops :: "sc_op list" where
  "demo_sc_ops = [ScCreate 1 WriteOk ''f'' ''h'' [demo_item], ScMark 2 (TmpFails (Some Garbage)) 0 1,
     ScMark 3 (Dies (Some Garbage)) 0 2, ScReopen, ScLoad, ScMark 4 WriteOk 0 0]"

theorem sidecar_wellformed_witness:
  "\<exists>st. fst (sc_load (fold sc_apply demo_sc_ops (new_manager ''f'' None None))) = Ret st \<and> state_wf st"
proof -
  let ?m = "fold sc_apply demo_sc_ops (new_manager ''f'' None None)"
  have "\<forall>op \<in> set demo_sc_ops. op_ok op" by (simp add: demo_sc_ops_def demo_item_ok)
  moreover have "sc_exists ?m" by code_simp
  ultimately show ?thesis using sidecar_wellformed [OF _ refl, of demo_sc_ops "''f''"] by blast
qed

text \<open>C16: A checkpoint that fails loses nothing that a later one does not repair: after any marks, in
  any order and with any outcomes of their writes, one whose write succeeds leaves on disk
  exactly the chunks that were recorded before and all that were marked since.\<close>

theorem marks_persist:
  assumes "holds_item m it" and "item_ok it"
    and "\<forall>(now, w, k) \<in> set mks. 0 \<le> k \<and> k < int (item_chunks it)"
    and "0 \<le> k" and "k < int (item_chunks it)"
  shows "\<exists>st it'. mgFile (marks (mks @ [(now, WriteOk, k)]) m) = Some (Doc st) \<and> stItems st = [it'] \<and>
    set (recorded it') = insert (nat k) ((\<lambda>(now, w, k). nat k) ` set mks \<union> set (recorded it))"
proof -
  obtain it1 where it1: "holds_item (marks mks m) it1" "item_ok it1" "item_chunks it1 = item_chunks it"
    "set (recorded it1) = (\<lambda>(now, w, k). nat k) ` set mks \<union> set (recorded it)"
    using marks_hold [OF assms(1-3)] by blast
  have last: "marks (mks @ [(now, WriteOk, k)]) m = sc_apply (ScMark now WriteOk 0 k) (marks mks m)"
    by (simp add: marks_def)
  show ?thesis
    unfolding last using mark_holds [OF it1(1,2), of k now WriteOk] assms(4,5) it1(3,4) by metis
qed

definition demo_manager :: manager where
  "demo_manager = sc_apply (ScCreate 1 WriteOk ''f'' ''h'' [demo_item]) (new_manager ''f'' None None)"

theorem marks_persist_witness:
  "\<exists>st it. mgFile (marks [(2, TmpFails None, 2), (3, RenameFails, 0), (4, WriteOk, 1)] demo_manager) =
     Some (Doc st) \<and> stItems st = [it] \<and> set (recorded it) = {0, 1, 2}"
proof -
  have "holds_item demo_manager demo_item"
    by (simp add: holds_item_def demo_manager_def sc_create_def write_locked_def Let_def)
  moreover have "\<forall>(now, w, k) \<in> set [(2, TmpFails None, 2), (3 :: int, RenameFails, 0)].
      0 \<le> k \<and> k < int (item_chunks demo_item)"
    by (simp add: demo_item_ok)
  moreover have "recorded demo_item = []"
    by (simp add: recorded_def demo_item_def chunk_quot_def go_div_def signed_divide_int_def
        i64_def decode_bitmap_def)
  moreover have "insert (1 :: nat) {2, 0} = {0, 1, 2}" by auto
  ultimately show ?thesis
    using marks_persist [of demo_manager demo_item "[(2, TmpFails None, 2), (3, RenameFails, 0)]" 1 4]
    by (simp add: demo_item_ok)
qed

end
