(* ===== verification/File_Sink.thy ===== *)
theory File_Sink
  imports Sidecar
begin

text \<open>
  The file sink, \<open>internal/sink/file.go\<close>: positional writes of chunks into a sparse file
  followed by the update of the sidecar. A file is the list of its bytes; \<open>WriteAt\<close> past the
  end fills the hole with zeros. \<open>WriteChunk\<close> is the composition of its write and its mark,
  which are the two steps that calls of several goroutines interleave. \<open>range_ok\<close> says that a
  byte range of the file holds the object's bytes; \<open>file_sound\<close> that every chunk recorded in
  the sidecar, on disk or in memory, does, and both parts of \<open>WriteChunk\<close> keep it.
\<close>

section \<open>Files\<close>

definition write_at :: "bytes \<Rightarrow> int \<Rightarrow> bytes \<Rightarrow> bytes" where
  "write_at file off data =
     (let o' = nat off
      in take o' (file @ replicate (o' - length file) 0) @ data @ drop (o' + length data) file)"

datatype fs_err =
    ErrNegativeOffset int
  | ErrWriteAt int int
  | ErrShortWrite int int int
  | ErrSidecar int sc_err
  | ErrSync
  | ErrClose
  | ErrRemoveSidecar
  | ErrOpen string

text \<open>\<open>fsSidecar = None\<close> is a nil manager.\<close>

record file_sink =
  fsData :: bytes
  fsPath :: string
  fsSidecar :: "manager option"
  fsBaseOff :: int
  fsModTime :: gtime
  fsSynced :: bool
  fsOpen :: bool

text \<open>\<open>os.OpenFile\<close> with \<open>O_RDWR|O_CREATE\<close> keeps the content of an existing file; the
  first argument is whether the file system lets it happen.\<close>

definition new_file_sink ::
  "bool \<Rightarrow> bytes option \<Rightarrow> string \<Rightarrow> int \<Rightarrow> manager option \<Rightarrow> (fs_err, file_sink) res" where
  "new_file_sink ok existing path baseOff sm =
     (if \<not> ok then Err (ErrOpen path)
      else Ret \<lparr>fsData = (case existing of None \<Rightarrow> [] | Some d \<Rightarrow> d), fsPath = path,
                fsSidecar = sm, fsBaseOff = baseOff, fsModTime = zero_time,
                fsSynced = False, fsOpen = True\<rparr>)"

text \<open>\<open>fault = Some n\<close>: \<open>WriteAt\<close> fails after \<open>n\<close> bytes. A negative offset is refused.\<close>

definition write_part ::
  "nat option \<Rightarrow> chunk \<Rightarrow> bytes \<Rightarrow> file_sink \<Rightarrow> (fs_err, unit) res \<times> file_sink" where
  "write_part fault c data fs =
     (let off = i64 (fsBaseOff fs + cStart c)
      in if off < 0 then (Err (ErrNegativeOffset (cIndex c)), fs)
         else case fault of
           Some n \<Rightarrow>
             (Err (ErrWriteAt (cIndex c) off),
              fs\<lparr>fsData := (if take n data = [] then fsData fs
                            else write_at (fsData fs) off (take n data)), fsSynced := False\<rparr>)
         | None \<Rightarrow>
             let fs' = fs\<lparr>fsData := (if data = [] then fsData fs
                            else write_at (fsData fs) off data), fsSynced := False\<rparr>
             in if int (length data) \<noteq> cLength c
                then (Err (ErrShortWrite (cIndex c) (int (length data)) (cLength c)), fs')
                else (Ret (), fs'))"

definition mark_part ::
  "gtime \<Rightarrow> write_outcome \<Rightarrow> chunk \<Rightarrow> file_sink \<Rightarrow> (fs_err, unit) res \<times> file_sink" where
  "mark_part now w c fs =
     (case fsSidecar fs of
        None \<Rightarrow> (Ret (), fs)
      | Some m \<Rightarrow>
          (case sc_mark_complete now w 0 (cIndex c) m of
             (Ret _, m') \<Rightarrow> (Ret (), fs\<lparr>fsSidecar := Some m'\<rparr>)
           | (Err e, m') \<Rightarrow> (Err (ErrSidecar (cIndex c) e), fs\<lparr>fsSidecar := Some m'\<rparr>)
           | (Panic, m') \<Rightarrow> (Panic, fs\<lparr>fsSidecar := Some m'\<rparr>)))"

definition write_chunk ::
  "nat option \<Rightarrow> gtime \<Rightarrow> write_outcome \<Rightarrow> chunk \<Rightarrow> bytes \<Rightarrow> file_sink \<Rightarrow>
     (fs_err, unit) res \<times> file_sink" where
  "write_chunk fault now w c data fs =
     (case write_part fault c data fs of
        (Ret _, fs') \<Rightarrow> mark_part now w c fs'
      | (r, fs') \<Rightarrow> (r, fs'))"

text \<open>The outcomes of \<open>Sync\<close>, \<open>Chtimes\<close>, \<open>Close\<close> and \<open>Remove\<close>. A failed \<open>Chtimes\<close> and a
  sidecar that is already gone are ignored.\<close>

definition finalize ::
  "bool \<Rightarrow> bool \<Rightarrow> bool \<Rightarrow> bool \<Rightarrow> gtime \<Rightarrow> file_sink \<Rightarrow> (fs_err, unit) res \<times> file_sink" where
  "finalize syncOk chtimesOk closeOk removeOk modTime fs =
     (if \<not> syncOk then (Err ErrSync, fs)
      else
        let fs1 = fs\<lparr>fsSynced := True\<rparr>;
            fs2 = (if modTime \<noteq> zero_time \<and> chtimesOk then fs1\<lparr>fsModTime := modTime\<rparr> else fs1)
        in if \<not> closeOk then (Err ErrClose, fs2)
           else let fs3 = fs2\<lparr>fsOpen := False\<rparr>
                in case fsSidecar fs3 of
                     None \<Rightarrow> (Ret (), fs3)
                   | Some m \<Rightarrow>
                       (case sc_remove removeOk m of
                          (Ret _, m') \<Rightarrow> (Ret (), fs3\<lparr>fsSidecar := Some m'\<rparr>)
                        | (_, m') \<Rightarrow>
                            if mgFile m = None then (Ret (), fs3\<lparr>fsSidecar := Some m'\<rparr>)
                            else (Err ErrRemoveSidecar, fs3\<lparr>fsSidecar := Some m'\<rparr>)))"

definition file_path :: "file_sink \<Rightarrow> string" where
  "file_path fs = fsPath fs"

section \<open>Positional writes\<close>

text \<open>The bytes \<open>[a, b)\<close> of the object are at their place in the file.\<close>

definition range_ok :: "bytes \<Rightarrow> int \<Rightarrow> bytes \<Rightarrow> int \<Rightarrow> int \<Rightarrow> bool" where
  "range_ok obj base file a b \<longleftrightarrow>
     (\<forall>p. a \<le> p \<and> p < b \<longrightarrow>
        nat (base + p) < length file \<and> file ! nat (base + p) = obj ! nat p)"

lemma length_write_at:
  "0 \<le> off \<Longrightarrow> length (write_at file off data) = max (length file) (nat off + length data)"
  by (auto simp: write_at_def Let_def)

lemma nth_write_at:
  assumes "i < length (write_at file off data)" and "0 \<le> off"
  shows "write_at file off data ! i =
    (if nat off \<le> i \<and> i < nat off + length data then data ! (i - nat off)
     else if i < length file then file ! i else 0)"
  using assms by (auto simp: write_at_def Let_def nth_append min_def)

text \<open>Bytes that are right stay right when right bytes are written, whatever their range.\<close>

lemma range_ok_write_at:
  assumes ok: "range_ok obj base file a b" and nn: "0 \<le> base" "0 \<le> s" "0 \<le> a"
    and d: "\<forall>k < length data. data ! k = obj ! (nat s + k)"
  shows "range_ok obj base (write_at file (base + s) data) a b"
  unfolding range_ok_def
proof (intro allI impI)
  fix p assume p: "a \<le> p \<and> p < b"
  then have old: "nat (base + p) < length file" "file ! nat (base + p) = obj ! nat p"
    using ok by (auto simp: range_ok_def)
  then have len: "nat (base + p) < length (write_at file (base + s) data)"
    using nn by (simp add: length_write_at)
  moreover have "write_at file (base + s) data ! nat (base + p) = obj ! nat p"
  proof (cases "nat (base + s) \<le> nat (base + p) \<and> nat (base + p) < nat (base + s) + length data")
    case True
    then have "nat (base + p) - nat (base + s) = nat p - nat s" "nat s \<le> nat p"
      using nn p by auto
    moreover have "nat p - nat s < length data" using True calculation by linarith
    ultimately have "data ! (nat p - nat s) = obj ! nat p" using d by fastforce
    then show ?thesis using True len nn \<open>nat (base + p) - nat (base + s) = nat p - nat s\<close>
      by (simp add: nth_write_at)
  next
    case False
    have "0 \<le> base + s" using nn by simp
    from nth_write_at [OF len this] False old show ?thesis by presburger
  qed
  ultimately show "nat (base + p) < length (write_at file (base + s) data) \<and>
      write_at file (base + s) data ! nat (base + p) = obj ! nat p" ..
qed

lemma range_ok_written:
  assumes nn: "0 \<le> base" "0 \<le> s" and d: "\<forall>k < length data. data ! k = obj ! (nat s + k)"
  shows "range_ok obj base (write_at file (base + s) data) s (s + int (length data))"
  unfolding range_ok_def
proof (intro allI impI)
  fix p assume p: "s \<le> p \<and> p < s + int (length data)"
  have "nat (base + p) < nat (base + s) + length data"
    using nn p by auto
  then have len: "nat (base + p) < length (write_at file (base + s) data)"
    using nn by (simp add: length_write_at)
  have "nat (base + p) - nat (base + s) = nat p - nat s" "nat s \<le> nat p"
    "nat p - nat s < length data" "nat (base + s) \<le> nat (base + p)"
    "nat (base + p) < nat (base + s) + length data"
    using nn p by auto
  then show "nat (base + p) < length (write_at file (base + s) data) \<and>
      write_at file (base + s) data ! nat (base + p) = obj ! nat p"
    using len d nn by (simp add: nth_write_at)
qed

lemma range_ok_empty [simp]: "b \<le> a \<Longrightarrow> range_ok obj base file a b"
  by (auto simp: range_ok_def)

lemma range_ok_join:
  "range_ok obj base file a b \<Longrightarrow> range_ok obj base file b c \<Longrightarrow> range_ok obj base file a c"
  unfolding range_ok_def by (meson not_le)

lemma range_ok_tiled:
  assumes "tiled_from a cs b" and
    "\<forall>c \<in> set cs. range_ok obj base file (cStart c) (cStart c + cLength c)"
  shows "range_ok obj base file a b"
  using assms
proof (induction cs arbitrary: a)
  case (Cons c cs)
  then show ?case by (auto intro: range_ok_join)
qed simp

lemma range_ok_subslice:
  assumes "range_ok obj base file a (a + n)" and "0 \<le> base" and "0 \<le> a" and "0 < n"
    and "a + n \<le> int (length obj)"
  shows "subslice file (base + a) n = subslice obj a n"
proof (rule nth_equalityI)
  have "nat (base + (a + n - 1)) < length file"
    using assms by (auto simp: range_ok_def)
  then have flen: "nat (base + a) + nat n \<le> length file"
    using assms(2-4) by linarith
  have olen: "nat a + nat n \<le> length obj" using assms(3-5) by linarith
  show *: "length (subslice file (base + a) n) = length (subslice obj a n)"
    using flen olen by (simp add: subslice_def)
  fix i assume "i < length (subslice file (base + a) n)"
  then have i: "i < nat n" by (simp add: subslice_def)
  have "file ! nat (base + (a + int i)) = obj ! nat (a + int i)"
    using assms(1) i by (auto simp: range_ok_def)
  moreover have "nat (base + (a + int i)) = nat (base + a) + i" "nat (a + int i) = nat a + i"
    using assms(2,3) by linarith+
  ultimately show "subslice file (base + a) n ! i = subslice obj a n ! i"
    using i flen olen by (simp add: subslice_def)
qed

lemma range_ok_all:
  assumes "range_ok obj base file 0 (int (length obj))" and "0 \<le> base"
  shows "subslice file base (int (length obj)) = obj"
proof (cases "obj = []")
  case False
  then show ?thesis
    using range_ok_subslice [of obj base "file" 0 "int (length obj)"] assms
    by (simp add: subslice_all)
qed (simp add: subslice_def)

section \<open>What the sidecar records is in the file\<close>

text \<open>A chunk of the scheduler carries the index and the byte range of its plan.\<close>

definition of_plan :: "chunk list \<Rightarrow> chunk \<Rightarrow> bool" where
  "of_plan cs c \<longleftrightarrow> in_range (cIndex c) cs \<and>
     cStart c = cStart (cs ! nat (cIndex c)) \<and> cLength c = cLength (cs ! nat (cIndex c))"

definition chunk_safe :: "bytes \<Rightarrow> int \<Rightarrow> bytes \<Rightarrow> chunk \<Rightarrow> bool" where
  "chunk_safe obj base file c \<longleftrightarrow> range_ok obj base file (cStart c) (cStart c + cLength c)"

definition item_sound :: "bytes \<Rightarrow> chunk list \<Rightarrow> int \<Rightarrow> bytes \<Rightarrow> sc_item \<Rightarrow> bool" where
  "item_sound obj cs base file it \<longleftrightarrow>
     item_ok it \<and> item_chunks it = length cs \<and> itLength it = int (length obj) \<and>
     (\<forall>k \<in> set (recorded it). k < length cs \<longrightarrow> chunk_safe obj base file (cs ! k))"

fun state_sound :: "bytes \<Rightarrow> chunk list \<Rightarrow> int \<Rightarrow> bytes \<Rightarrow> sc_state \<Rightarrow> bool" where
  "state_sound obj cs base file st =
     (\<exists>it. stItems st = [it] \<and> item_sound obj cs base file it)"

fun doc_sound :: "bytes \<Rightarrow> chunk list \<Rightarrow> int \<Rightarrow> bytes \<Rightarrow> sc_file option \<Rightarrow> bool" where
  "doc_sound obj cs base file (Some (Doc st)) = state_sound obj cs base file st"
| "doc_sound obj cs base file _ = True"

definition manager_sound :: "bytes \<Rightarrow> chunk list \<Rightarrow> int \<Rightarrow> bytes \<Rightarrow> manager \<Rightarrow> bool" where
  "manager_sound obj cs base file m \<longleftrightarrow>
     doc_sound obj cs base file (mgFile m) \<and>
     (\<forall>st. mgState m = Some st \<longrightarrow> state_sound obj cs base file st)"

definition file_sound :: "bytes \<Rightarrow> chunk list \<Rightarrow> file_sink \<Rightarrow> bool" where
  "file_sound obj cs fs \<longleftrightarrow>
     0 \<le> fsBaseOff fs \<and> fsBaseOff fs + int (length obj) < 2 ^ 63 \<and>
     tiled_from 0 cs (int (length obj)) \<and>
     (\<forall>m. fsSidecar fs = Some m \<longrightarrow> manager_sound obj cs (fsBaseOff fs) (fsData fs) m)"

lemma item_sound_mono:
  "item_sound obj cs base file it \<Longrightarrow>
     (\<And>k. k < length cs \<Longrightarrow> chunk_safe obj base file (cs ! k) \<Longrightarrow>
        chunk_safe obj base file' (cs ! k)) \<Longrightarrow>
     item_sound obj cs base file' it"
  by (auto simp: item_sound_def)

lemma doc_sound_mono:
  "doc_sound obj cs base file d \<Longrightarrow>
     (\<And>k. k < length cs \<Longrightarrow> chunk_safe obj base file (cs ! k) \<Longrightarrow>
        chunk_safe obj base file' (cs ! k)) \<Longrightarrow>
     doc_sound obj cs base file' d"
  by (cases "(obj, cs, base, file, d)" rule: doc_sound.cases) (auto intro: item_sound_mono)

lemma file_sound_data:
  assumes "file_sound obj cs fs"
    and "\<And>k. k < length cs \<Longrightarrow> chunk_safe obj (fsBaseOff fs) (fsData fs) (cs ! k) \<Longrightarrow>
        chunk_safe obj (fsBaseOff fs) d (cs ! k)"
  shows "file_sound obj cs (fs\<lparr>fsData := d, fsSynced := b\<rparr>)"
  using assms unfolding file_sound_def manager_sound_def
  by (fastforce intro: doc_sound_mono item_sound_mono)

lemma chunk_bytes_nth:
  assumes "0 \<le> cStart c" and "0 \<le> cLength c" and "cStart c + cLength c \<le> int (length obj)"
  shows "\<forall>k < length (chunk_bytes obj c). chunk_bytes obj c ! k = obj ! (nat (cStart c) + k)"
    and "int (length (chunk_bytes obj c)) = cLength c"
  using assms by (auto simp: chunk_bytes_def subslice_def)

lemma plan_bounds:
  assumes "tiled_from 0 cs n" and "of_plan cs c"
  shows "0 \<le> cStart c" and "0 < cLength c" and "cStart c + cLength c \<le> n"
  using tiled_from_bounds [OF assms(1), of "cs ! nat (cIndex c)"] assms(2)
  by (auto simp: of_plan_def dest!: in_range_nat)

text \<open>The write of a chunk's own bytes, complete or cut short, leaves every safe chunk safe;
  a complete one makes its chunk safe.\<close>

lemma write_part_off:
  assumes "file_sound obj cs fs" and "of_plan cs c"
  shows "i64 (fsBaseOff fs + cStart c) = fsBaseOff fs + cStart c" and "0 \<le> fsBaseOff fs + cStart c"
proof -
  have "0 \<le> cStart c" "cStart c \<le> int (length obj)"
    using assms plan_bounds [of cs "int (length obj)" c] by (auto simp: file_sound_def)
  then show "i64 (fsBaseOff fs + cStart c) = fsBaseOff fs + cStart c"
    "0 \<le> fsBaseOff fs + cStart c"
    using assms(1) by (auto simp: file_sound_def intro: i64_id_nonneg)
qed

lemma write_part_sound:
  assumes snd: "file_sound obj cs fs" and c: "of_plan cs c"
  shows "file_sound obj cs (snd (write_part fault c (chunk_bytes obj c) fs))"
proof -
  let ?off = "fsBaseOff fs + cStart c"
  note off = write_part_off [OF snd c]
  have b: "0 \<le> cStart c" "0 < cLength c" "cStart c + cLength c \<le> int (length obj)"
    using snd plan_bounds [OF _ c, of "int (length obj)"] by (auto simp: file_sound_def)
  have nn: "0 \<le> fsBaseOff fs" using snd by (simp add: file_sound_def)
  have bytes: "\<And>n. \<forall>k < length (take n (chunk_bytes obj c)).
      take n (chunk_bytes obj c) ! k = obj ! (nat (cStart c) + k)"
    using chunk_bytes_nth [of c obj] b by auto
  have keep: "chunk_safe obj (fsBaseOff fs) (write_at (fsData fs) ?off (take n (chunk_bytes obj c))) (cs ! k)"
    if k: "k < length cs" "chunk_safe obj (fsBaseOff fs) (fsData fs) (cs ! k)" for k n
  proof -
    have "0 \<le> cStart (cs ! k)"
      using snd tiled_from_bounds [of 0 cs "int (length obj)" "cs ! k"] k(1)
      by (auto simp: file_sound_def)
    with k(2) show ?thesis
      unfolding chunk_safe_def using nn b(1) bytes by (intro range_ok_write_at) auto
  qed
  have whole: "take (length (chunk_bytes obj c)) (chunk_bytes obj c) = chunk_bytes obj c"
    by simp
  have "file_sound obj cs (fs\<lparr>fsData := write_at (fsData fs) ?off (take n (chunk_bytes obj c)),
      fsSynced := False\<rparr>)" for n
    using keep by (intro file_sound_data [OF snd]) auto
  from this [of "length (chunk_bytes obj c)"] this
  have "file_sound obj cs (fs\<lparr>fsData := write_at (fsData fs) ?off (chunk_bytes obj c),
      fsSynced := False\<rparr>)" and
    "\<And>n. file_sound obj cs (fs\<lparr>fsData := write_at (fsData fs) ?off (take n (chunk_bytes obj c)),
      fsSynced := False\<rparr>)"
    by simp_all
  moreover have "file_sound obj cs (fs\<lparr>fsData := fsData fs, fsSynced := False\<rparr>)"
    by (rule file_sound_data [OF snd])
  ultimately show ?thesis
    using off by (auto simp: write_part_def Let_def split: option.split)
qed

lemma write_part_safe:
  assumes snd: "file_sound obj cs fs" and c: "of_plan cs c"
    and w: "write_part fault c (chunk_bytes obj c) fs = (Ret u, fs')"
  shows "chunk_safe obj (fsBaseOff fs') (fsData fs') c"
proof -
  note off = write_part_off [OF snd c]
  have b: "0 \<le> cStart c" "0 < cLength c" "cStart c + cLength c \<le> int (length obj)"
    using snd plan_bounds [OF _ c, of "int (length obj)"] by (auto simp: file_sound_def)
  have nn: "0 \<le> fsBaseOff fs" using snd by (simp add: file_sound_def)
  note cb = chunk_bytes_nth [of c obj]
  have len: "int (length (chunk_bytes obj c)) = cLength c" using cb b by simp
  then have "chunk_bytes obj c \<noteq> []" using b by auto
  then have fs': "fsBaseOff fs' = fsBaseOff fs"
    "fsData fs' = write_at (fsData fs) (fsBaseOff fs + cStart c) (chunk_bytes obj c)"
    using w off len by (auto simp: write_part_def Let_def split: option.splits if_splits)
  have "range_ok obj (fsBaseOff fs) (write_at (fsData fs) (fsBaseOff fs + cStart c) (chunk_bytes obj c))
      (cStart c) (cStart c + int (length (chunk_bytes obj c)))"
    using nn b cb by (intro range_ok_written) auto
  then show ?thesis using fs' len by (simp add: chunk_safe_def)
qed

lemma write_part_keeps_safe:
  assumes "file_sound obj cs fs" and "of_plan cs c" and "0 \<le> cStart d"
    and "chunk_safe obj (fsBaseOff fs) (fsData fs) d"
    and "fs' = snd (write_part fault c (chunk_bytes obj c) fs)"
  shows "chunk_safe obj (fsBaseOff fs') (fsData fs') d"
proof -
  note off = write_part_off [OF assms(1,2)]
  have b: "0 \<le> cStart c" "0 < cLength c" "cStart c + cLength c \<le> int (length obj)"
    using assms(1) plan_bounds [OF _ assms(2), of "int (length obj)"]
    by (auto simp: file_sound_def)
  have nn: "0 \<le> fsBaseOff fs" using assms(1) by (simp add: file_sound_def)
  have bytes: "\<And>n. \<forall>k < length (take n (chunk_bytes obj c)).
      take n (chunk_bytes obj c) ! k = obj ! (nat (cStart c) + k)"
    using chunk_bytes_nth [of c obj] b by auto
  have "chunk_safe obj (fsBaseOff fs) (write_at (fsData fs) (fsBaseOff fs + cStart c)
      (take n (chunk_bytes obj c))) d" for n
    unfolding chunk_safe_def using assms(3,4) nn b(1) bytes
    by (intro range_ok_write_at) (auto simp: chunk_safe_def)
  from this [of "length (chunk_bytes obj c)"] this show ?thesis
    using assms(4,5) off by (auto simp: write_part_def Let_def split: option.splits)
qed

text \<open>Marking a safe chunk, whatever becomes of the sidecar's write.\<close>

lemma item_sound_mark:
  assumes snd: "item_sound obj cs base file it" and c: "of_plan cs c"
    and safe: "chunk_safe obj base file c"
  obtains it' where "mark_item (cIndex c) it = Ret it'" and "item_sound obj cs base file it'"
proof -
  have idx: "0 \<le> cIndex c" "cIndex c < int (item_chunks it)" and ok: "item_ok it"
    using snd c by (auto simp: item_sound_def of_plan_def in_range_def)
  from mark_item_ok [OF ok idx] obtain it' where it':
    "mark_item (cIndex c) it = Ret it'" "item_ok it'" "itSplitSize it' = itSplitSize it"
    "itLength it' = itLength it" "set (recorded it') = insert (nat (cIndex c)) (set (recorded it))"
    by auto
  moreover have "chunk_safe obj base file (cs ! nat (cIndex c))"
    using safe c by (simp add: chunk_safe_def of_plan_def)
  ultimately have "item_sound obj cs base file it'"
    using snd by (auto simp: item_sound_def item_chunks_def)
  with it'(1) show ?thesis by (rule that)
qed

lemma write_locked_sound:
  assumes "manager_sound obj cs base file m" and "state_sound obj cs base file st"
  shows "manager_sound obj cs base file (snd (write_locked w st m))"
  using assms by (auto simp: write_locked_def manager_sound_def split: write_outcome.splits)

lemma checkpoint_sound:
  assumes "manager_sound obj cs base file m"
  shows "manager_sound obj cs base file (snd (checkpoint_locked now w m))"
proof (cases "mgState m")
  case (Some st)
  then have "state_sound obj cs base file (st\<lparr>stUpdatedAt := now\<rparr>)"
    using assms by (simp add: manager_sound_def)
  moreover from this have
    "manager_sound obj cs base file (m\<lparr>mgState := Some (st\<lparr>stUpdatedAt := now\<rparr>)\<rparr>)"
    using assms by (simp add: manager_sound_def)
  ultimately show ?thesis
    using Some by (auto simp: checkpoint_locked_def Let_def intro: write_locked_sound)
qed (use assms in \<open>simp add: checkpoint_locked_def\<close>)

lemma mark_complete_sound:
  assumes m: "manager_sound obj cs base file m" and c: "of_plan cs c"
    and safe: "chunk_safe obj base file c"
  shows "manager_sound obj cs base file (snd (sc_mark_complete now w 0 (cIndex c) m))"
proof (cases "mgState m")
  case (Some st)
  then obtain it where it: "stItems st = [it]" "item_sound obj cs base file it"
    using m by (auto simp: manager_sound_def)
  from item_sound_mark [OF it(2) c safe] obtain it' where
    it': "mark_item (cIndex c) it = Ret it'" "item_sound obj cs base file it'" .
  then have "manager_sound obj cs base file (m\<lparr>mgState := Some (st\<lparr>stItems := [it']\<rparr>)\<rparr>)"
    using m by (simp add: manager_sound_def)
  from checkpoint_sound [OF this] show ?thesis
    using Some it it' by (simp add: sc_mark_complete_def in_range_def)
qed (use m in \<open>simp add: sc_mark_complete_def\<close>)

lemma mark_part_fields [simp]:
  "fsData (snd (mark_part now w c fs)) = fsData fs"
  "fsBaseOff (snd (mark_part now w c fs)) = fsBaseOff fs"
  by (auto simp: mark_part_def split: option.split prod.split res.split)

lemma mark_part_sidecar:
  "fsSidecar (snd (mark_part now w c fs)) =
     map_option (\<lambda>m. snd (sc_mark_complete now w 0 (cIndex c) m)) (fsSidecar fs)"
  by (auto simp: mark_part_def split: option.split prod.split res.split)

lemma mark_part_sound:
  assumes "file_sound obj cs fs" and "of_plan cs c"
    and "chunk_safe obj (fsBaseOff fs) (fsData fs) c"
  shows "file_sound obj cs (snd (mark_part now w c fs))"
  using assms by (auto simp: file_sound_def mark_part_sidecar intro: mark_complete_sound)

lemma write_part_fields [simp]:
  "fsBaseOff (snd (write_part fault c data fs)) = fsBaseOff fs"
  "fsSidecar (snd (write_part fault c data fs)) = fsSidecar fs"
  by (auto simp: write_part_def Let_def split: option.split)

end
