(* ===== verification/Byte_Reader.thy ===== *)
theory Byte_Reader
  imports Go_Base
begin

text \<open>
  \<open>io.Reader\<close>, the interface behind every response body, and the loop of \<open>io.ReadFull\<close> with
  which a worker fills the buffer of its chunk (\<open>internal/job/runner.go\<close>, \<open>workerLoop\<close>). A
  reader is a function from its state and the length of the buffer to the bytes it delivers,
  an error and its next state. The contract of the interface is the locale \<open>byte_reader\<close>; a
  reader that keeps delivering is a \<open>live_reader\<close>. Bodies whose bytes arrive in segments
  (\<open>body_read\<close>) and the counting wrapper \<open>progressReader\<close> satisfy both.
\<close>

section \<open>Readers\<close>

datatype read_err = REof | RUnexpectedEof | RFailed string

type_synonym 'r reader = "'r \<Rightarrow> nat \<Rightarrow> bytes \<times> read_err option \<times> 'r"

text \<open>\<open>io.ReadFull\<close>: read until the buffer is full or an error; \<open>None\<close> is a reader that keeps
  delivering nothing.\<close>

partial_function (option) read_full ::
  "'r reader \<Rightarrow> nat \<Rightarrow> bytes \<Rightarrow> 'r \<Rightarrow> (bytes \<times> read_err option \<times> 'r) option" where
  "read_full rd n acc r =
     (if length acc \<ge> n then Some (acc, None, r)
      else case rd r (n - length acc) of
        (d, e, r') \<Rightarrow>
          (case e of
             None \<Rightarrow> read_full rd n (acc @ d) r'
           | Some x \<Rightarrow>
               Some (acc @ d,
                 (if length (acc @ d) \<ge> n then None
                  else if acc @ d \<noteq> [] \<and> x = REof then Some RUnexpectedEof else Some x), r')))"

declare read_full.simps [code]

text \<open>The state after a read with an error, and a reader whose only error is its end.\<close>

definition read_failed :: "'r reader \<Rightarrow> ('r \<Rightarrow> bool) \<Rightarrow> 'r \<Rightarrow> bool" where
  "read_failed rd sane r' \<longleftrightarrow>
     (\<exists>r n d x. sane r \<and> int n \<le> 2 ^ 62 \<and> rd r n = (d, Some x, r'))"

definition only_eof :: "'r reader \<Rightarrow> ('r \<Rightarrow> bool) \<Rightarrow> bool" where
  "only_eof rd sane \<longleftrightarrow>
     (\<forall>r n d x r'. sane r \<longrightarrow> int n \<le> 2 ^ 62 \<longrightarrow> rd r n = (d, Some x, r') \<longrightarrow> x = REof)"

section \<open>The contract\<close>

text \<open>\<open>rest r\<close> is what the reader still has to deliver. Buffers have at most \<open>2^62\<close> bytes.\<close>

locale byte_reader =
  fixes rd :: "'r reader" and rest :: "'r \<Rightarrow> bytes" and sane :: "'r \<Rightarrow> bool"
  assumes read_bound: "sane r \<Longrightarrow> int n \<le> 2 ^ 62 \<Longrightarrow> rd r n = (d, e, r') \<Longrightarrow> length d \<le> n"
    and read_rest: "sane r \<Longrightarrow> int n \<le> 2 ^ 62 \<Longrightarrow> rd r n = (d, e, r') \<Longrightarrow>
      rest r = d @ rest r' \<and> sane r'"
begin

lemma read_full_prefix:
  assumes "read_full rd n acc r = Some (d, e, r')" and "sane r" and "int n \<le> 2 ^ 62"
    and "length acc \<le> n"
  shows "length d \<le> n \<and> (e = None \<longleftrightarrow> length d = n) \<and> sane r' \<and>
    acc @ rest r = d @ rest r' \<and>
    (e \<noteq> None \<longrightarrow> read_failed rd sane r')"
proof -
  let ?P = "\<lambda>rd' m a s res. rd' = rd \<longrightarrow> sane s \<longrightarrow> int m \<le> 2 ^ 62 \<longrightarrow> length a \<le> m \<longrightarrow>
    (case res of (x, e, s') \<Rightarrow> length x \<le> m \<and> (e = None \<longleftrightarrow> length x = m) \<and> sane s' \<and>
       a @ rest s = x @ rest s' \<and>
       (e \<noteq> None \<longrightarrow> read_failed rd sane s'))"
  have "?P rd n acc r (d, e, r')"
  proof (rule read_full.raw_induct [where P = ?P, OF _ assms(1)])
    fix f rd' m a s res
    assume IH: "\<And>rd' m a s res. f rd' m a s = Some res \<Longrightarrow> ?P rd' m a s res"
      and eq: "(if length a \<ge> m then Some (a, None, s)
        else case rd' s (m - length a) of
          (d, e, s') \<Rightarrow>
            (case e of
               None \<Rightarrow> f rd' m (a @ d) s'
             | Some x \<Rightarrow> Some (a @ d,
                   (if length (a @ d) \<ge> m then None
                    else if a @ d \<noteq> [] \<and> x = REof then Some RUnexpectedEof else Some x), s'))) = Some res"
    show "?P rd' m a s res"
    proof (intro impI)
      assume rd: "rd' = rd" and s: "sane s" and m: "int m \<le> 2 ^ 62" and a: "length a \<le> m"
      show "case res of (x, e, s') \<Rightarrow> length x \<le> m \<and> (e = None \<longleftrightarrow> length x = m) \<and> sane s' \<and>
          a @ rest s = x @ rest s' \<and>
          (e \<noteq> None \<longrightarrow> read_failed rd sane s')"
      proof (cases "length a \<ge> m")
        case True
        then show ?thesis using eq a s by auto
      next
        case False
        obtain d e s' where r: "rd s (m - length a) = (d, e, s')" by (cases "rd s (m - length a)") auto
        have n: "int (m - length a) \<le> 2 ^ 62" using m by linarith
        note law = read_bound [OF s n r] read_rest [OF s n r]
        show ?thesis
        proof (cases e)
          case None
          then have "f rd m (a @ d) s' = Some res" using eq False r rd by simp
          from IH [OF this] show ?thesis using law m False by (auto split: prod.splits)
        next
          case (Some x)
          then have "read_failed rd sane s'"
            using r s n unfolding read_failed_def by blast
          moreover have "res = (a @ d, (if length (a @ d) \<ge> m then None
              else if a @ d \<noteq> [] \<and> x = REof then Some RUnexpectedEof else Some x), s')"
            using Some eq False r rd by simp
          ultimately show ?thesis using law False by (auto split: if_splits)
        qed
      qed
    qed
  qed
  then show ?thesis using assms by auto
qed

lemma read_full_exact:
  assumes "read_full rd n [] r = Some (d, None, r')" and "sane r" and "int n \<le> 2 ^ 62"
  shows "length d = n \<and> d = take n (rest r)"
  using read_full_prefix [OF assms(1-3)] by (metis append_Nil append_eq_conv_conj list.size(3) zero_le)

end

text \<open>A reader that delivers at least one byte unless it reports an error, and the end of the
  data only at its end.\<close>

locale live_reader = byte_reader +
  assumes read_progress: "sane r \<Longrightarrow> 0 < n \<Longrightarrow> int n \<le> 2 ^ 62 \<Longrightarrow> rd r n = (d, None, r') \<Longrightarrow> d \<noteq> []"
    and read_eof: "sane r \<Longrightarrow> int n \<le> 2 ^ 62 \<Longrightarrow> rd r n = (d, Some REof, r') \<Longrightarrow> rest r' = []"
begin

lemma read_full_returns:
  assumes "sane r" and "int n \<le> 2 ^ 62"
  shows "\<exists>res. read_full rd n acc r = Some res"
  using assms(1)
proof (induction "n - length acc" arbitrary: acc r rule: less_induct)
  case less
  show ?case
  proof (cases "length acc \<ge> n")
    case True
    then show ?thesis by (simp add: read_full.simps)
  next
    case False
    obtain d e r' where r: "rd r (n - length acc) = (d, e, r')" by (cases "rd r (n - length acc)") auto
    have n: "0 < n - length acc" "int (n - length acc) \<le> 2 ^ 62" using False assms(2) by linarith+
    show ?thesis
    proof (cases e)
      case None
      then have "d \<noteq> []" using read_progress less.prems n r by blast
      then have "n - length (acc @ d) < n - length acc" using n by (cases d) auto
      then have "\<exists>res. read_full rd n (acc @ d) r' = Some res"
        using less.hyps read_rest [OF less.prems n(2) r] by blast
      then show ?thesis using None r False by (simp add: read_full.simps [of rd n acc])
    next
      case (Some x)
      then show ?thesis using r False by (simp add: read_full.simps [of rd n acc])
    qed
  qed
qed

end

context live_reader begin

text \<open>When the end of the data is the only error, an incomplete read has seen everything.\<close>

lemma read_full_all:
  assumes "read_full rd n [] r = Some (d, e, r')" and "sane r" and "int n \<le> 2 ^ 62" and "e \<noteq> None"
    and "only_eof rd sane"
  shows "d = rest r"
proof -
  have p: "rest r = d @ rest r'" "read_failed rd sane r'"
    using read_full_prefix [OF assms(1-3)] assms(4) by simp_all
  then have "rest r' = []" using assms(5) read_eof unfolding read_failed_def only_eof_def by blast
  then show ?thesis using p(1) by simp
qed

end

section \<open>Bodies that arrive in segments\<close>

text \<open>The bytes of a response as the network delivers them: a read returns what is left of the
  first segment, cut to the buffer. \<open>boFault\<close> is the error after the last segment, \<open>REof\<close>
  for a complete body.\<close>

record body =
  boSegments :: "bytes list"
  boFault :: read_err

definition body_read :: "body reader" where
  "body_read b n =
     (case filter (\<lambda>s. s \<noteq> []) (boSegments b) of
        [] \<Rightarrow> ([], Some (boFault b), b)
      | s # ss \<Rightarrow>
          (take n s, None, b\<lparr>boSegments := drop n s # ss\<rparr>))"

definition body_rest :: "body \<Rightarrow> bytes" where
  "body_rest b = concat (boSegments b)"

lemma concat_nonempty: "concat (filter (\<lambda>s. s \<noteq> []) ss) = concat ss"
  by (induction ss) auto

text \<open>The two outcomes of a read: the end, or some bytes of the first non-empty segment.\<close>

lemma body_read_cases:
  assumes "body_read b n = (d, e, b')"
  obtains (stop) "d = []" "e = Some (boFault b)" "b' = b" "body_rest b = []"
  | (segment) s ss where "s \<noteq> []" "d = take n s" "e = None" "body_rest b = s @ concat ss"
      "body_rest b' = drop n s @ concat ss" "boFault b' = boFault b"
proof (cases "filter (\<lambda>s. s \<noteq> []) (boSegments b)")
  case Nil
  then have "body_rest b = []" using concat_nonempty [of "boSegments b"] by (simp add: body_rest_def)
  with Nil assms show ?thesis by (intro stop) (auto simp: body_read_def)
next
  case (Cons s ss)
  then have "s \<in> set (filter (\<lambda>s. s \<noteq> []) (boSegments b))" by (metis list.set_intros(1))
  then have "s \<noteq> []" by simp
  moreover have "body_rest b = s @ concat ss"
    using concat_nonempty [of "boSegments b"] Cons by (simp add: body_rest_def)
  ultimately show ?thesis
    using Cons assms by (intro segment [of s ss]) (auto simp: body_read_def body_rest_def)
qed

lemma take_drop_append: "take n xs @ drop n xs @ ys = xs @ ys"
  by (metis append_assoc append_take_drop_id)

interpretation body: live_reader body_read body_rest "\<lambda>b. True"
proof unfold_locales
  show "length d \<le> n" if "body_read r n = (d, e, r')" for r n d e r'
    using that by (cases rule: body_read_cases) simp_all
  show "body_rest r = d @ body_rest r' \<and> True" if "body_read r n = (d, e, r')" for r n d e r'
    using that by (cases rule: body_read_cases) (simp_all add: take_drop_append)
next
  show "d \<noteq> []" if "0 < n" and "body_read r n = (d, None, r')" for r n d r'
    using that(2,1) by (cases rule: body_read_cases) simp_all
  show "body_rest r' = []" if "body_read r n = (d, Some REof, r')" for r n d r'
    using that by (cases rule: body_read_cases) simp_all
qed

text \<open>Complete bodies have no other error than their end.\<close>

interpretation complete_body: live_reader body_read body_rest "\<lambda>b. boFault b = REof"
proof unfold_locales
  fix r n d e r'
  assume "boFault r = REof" and "int n \<le> 2 ^ 62" and r: "body_read r n = (d, e, r')"
  then show "length d \<le> n" and "body_rest r = d @ body_rest r' \<and> boFault r' = REof"
    using body.read_bound [OF TrueI _ r] body.read_rest [OF TrueI _ r] body_read_cases [OF r] by metis+
qed (use body.read_progress body.read_eof in blast)+

lemma complete_body_only_eof: "only_eof body_read (\<lambda>b. boFault b = REof)"
  unfolding only_eof_def by (metis body_read_cases option.distinct(1) option.inject)

section \<open>The counting wrapper\<close>

text \<open>\<open>progressReader\<close> adds what it delivers to a 64-bit counter; it keeps the contract of
  whatever reader it wraps.\<close>

definition progress_read :: "'r reader \<Rightarrow> ('r \<times> int) reader" where
  "progress_read rd p n =
     (case rd (fst p) n of (d, e, r') \<Rightarrow> (d, e, (r', i64 (snd p + int (length d)))))"

lemma progress_read_inner:
  "progress_read rd p n = (d, e, p') \<Longrightarrow>
     rd (fst p) n = (d, e, fst p') \<and> snd p' = i64 (snd p + int (length d))"
  by (auto simp: progress_read_def split: prod.splits)

locale tracked_reader = live_reader

sublocale tracked_reader \<subseteq> counted: live_reader "progress_read rd" "\<lambda>p. rest (fst p)" "\<lambda>p. sane (fst p)"
  by unfold_locales
     (blast dest: progress_read_inner intro: read_bound,
      blast dest: progress_read_inner read_rest,
      blast dest: progress_read_inner read_progress,
      blast dest: progress_read_inner read_eof)

interpretation tracked_body: tracked_reader body_read body_rest "\<lambda>b. True"
  by unfold_locales

end
