(* ===== verification/Adapter.thy ===== *)
theory Adapter
  imports Go_Base
begin

text \<open>
  The types shared by the protocol adapters, \<open>internal/adapter/adapter.go\<close>: what a probe
  finds out about a remote object, and the settings of a request. The \<open>Adapter\<close> interface
  itself is the pair of functions that the HTTP adapter (\<open>Http_Adapter\<close>) provides and the
  job runner uses.
\<close>

record object_metadata =
  omOriginalURL :: string
  omFinalURL :: string
  omDisplayURL :: string
  omProtocol :: string
  omSize :: int
  omModTime :: gtime
  omETag :: string
  omLastModified :: string
  omRangeCapable :: bool
  omRestartCapable :: bool
  omFilename :: string

record request_options =
  roUserAgent :: string
  roReferer :: string
  roHeaders :: "(string \<times> string) list"
  roTimeout :: duration
  roConnectTimeout :: duration
  roReadTimeout :: duration
  roInsecureSkipVerify :: bool
  roRetryConnRefused :: bool
  roRetryOnHTTPError :: "int list"

record probe_result =
  prMeta :: object_metadata
  prETag :: string
  prLastModified :: string
  prSize :: int
  prRangeCapable :: bool

text \<open>The zero values of Go.\<close>

definition zero_metadata :: object_metadata where
  "zero_metadata = \<lparr>omOriginalURL = [], omFinalURL = [], omDisplayURL = [], omProtocol = [],
     omSize = 0, omModTime = zero_time, omETag = [], omLastModified = [],
     omRangeCapable = False, omRestartCapable = False, omFilename = []\<rparr>"

definition zero_probe :: probe_result where
  "zero_probe = \<lparr>prMeta = zero_metadata, prETag = [], prLastModified = [], prSize = 0,
     prRangeCapable = False\<rparr>"

end
