(* ===== verification/Http_Adapter.thy ===== *)
theory Http_Adapter
  imports Go_Strings Adapter
begin

text \<open>
  The HTTP adapter, \<open>internal/adapter/http/adapter.go\<close>: the requests it builds, how it reads
  the answers to a probe, a range request and a sequential request, and its parsing of header
  values and file names. \<open>net/http\<close>'s client is an argument: a function from a request to an
  error or a response, redirects already followed. A response carries the parts the code
  reads: status, headers, content length, body and the URL of its last request.
\<close>

section \<open>Requests and responses\<close>

text \<open>Headers are association lists with canonical keys; \<open>Header.Set\<close> canonicalises the key
  and replaces, \<open>Header.Get\<close> returns the empty string for a missing one.\<close>

fun canon_chars :: "bool \<Rightarrow> string \<Rightarrow> string" where
  "canon_chars up [] = []"
| "canon_chars up (c # s) =
     (if up \<and> CHR ''a'' \<le> c \<and> c \<le> CHR ''z'' then upper_char c
      else if \<not> up \<and> CHR ''A'' \<le> c \<and> c \<le> CHR ''Z'' then char_of (of_char c + 32 :: nat) else c)
     # canon_chars (c = CHR ''-'') s"

definition token_char :: "char \<Rightarrow> bool" where
  "token_char c \<longleftrightarrow> is_digit c \<or> (CHR ''a'' \<le> c \<and> c \<le> CHR ''z'') \<or> (CHR ''A'' \<le> c \<and> c \<le> CHR ''Z'') \<or>
     c \<in> set (CHR 0x27 # ''!#$%&*+-.^_`|~'')"

definition canonical_key :: "string \<Rightarrow> string" where
  "canonical_key k = (if k \<noteq> [] \<and> list_all token_char k then canon_chars True k else k)"

definition header_get :: "string \<Rightarrow> (string \<times> string) list \<Rightarrow> string" where
  "header_get k hs = (case map_of hs (canonical_key k) of None \<Rightarrow> [] | Some v \<Rightarrow> v)"

definition header_set :: "string \<Rightarrow> string \<Rightarrow> (string \<times> string) list \<Rightarrow> (string \<times> string) list" where
  "header_set k v hs = (canonical_key k, v) # filter (\<lambda>(k', _). k' \<noteq> canonical_key k) hs"

record http_request =
  rqURL :: string
  rqHeader :: "(string \<times> string) list"

text \<open>\<open>rsURL\<close>, \<open>rsScheme\<close> and \<open>rsPath\<close> are of the last request; \<open>rsDisplay\<close> is its URL
  printed without user information.\<close>

record http_response =
  rsStatus :: int
  rsHeader :: "(string \<times> string) list"
  rsContentLength :: int
  rsBody :: bytes
  rsURL :: string
  rsDisplay :: string
  rsScheme :: string
  rsPath :: string

datatype http_err =
    ErrNewRequest string
  | ErrTransport string
  | ErrHTTPStatus int
  | ErrUnexpectedStatus int
  | ErrContentRange string
  | ErrContentLength int int

text \<open>\<open>http.NewRequest\<close> fails on a URL that does not parse; the client can fail in transport.\<close>

datatype client_answer = BadURL string | NoAnswer string | Answer http_response

type_synonym http_client = "http_request \<Rightarrow> client_answer"

definition set_headers :: "request_options \<Rightarrow> (string \<times> string) list \<Rightarrow> (string \<times> string) list" where
  "set_headers opts hs =
     (let h1 = (if roUserAgent opts \<noteq> [] then header_set ''User-Agent'' (roUserAgent opts) hs else hs);
          h2 = (if roReferer opts \<noteq> [] then header_set ''Referer'' (roReferer opts) h1 else h1)
      in fold (\<lambda>(k, v) h. header_set k v h) (roHeaders opts) h2)"

section \<open>Header values\<close>

definition parse_content_range_total :: "string \<Rightarrow> int option" where
  "parse_content_range_total cr =
     (if cr = [] then None
      else case split_on (CHR ''/'') cr of
        [_, t] \<Rightarrow>
          (case parse_int (trim_space t) of
             None \<Rightarrow> None
           | Some n \<Rightarrow> if n \<le> 0 then None else Some n)
      | _ \<Rightarrow> None)"

definition validate_content_range :: "string \<Rightarrow> int \<Rightarrow> int \<Rightarrow> bool" where
  "validate_content_range cr start end' =
     (if cr = [] then False
      else case split_two (CHR ''/'') (trim_prefix cr ''bytes '') of
        None \<Rightarrow> False
      | Some (r, _) \<Rightarrow>
          (case split_two (CHR ''-'') r of
             None \<Rightarrow> False
           | Some (a, b) \<Rightarrow>
               (case (parse_int (trim_space a), parse_int (trim_space b)) of
                  (Some gotStart, Some gotEnd) \<Rightarrow> gotStart = start \<and> gotEnd = end'
                | _ \<Rightarrow> False)))"

definition is_strong_etag :: "string \<Rightarrow> bool" where
  "is_strong_etag e \<longleftrightarrow> e \<noteq> [] \<and> \<not> has_prefix e ''W/'' \<and> \<not> has_prefix e ''w/''"

section \<open>File names\<close>

definition sanitize_filename :: "string \<Rightarrow> string" where
  "sanitize_filename name =
     (let n = replace_char (CHR 0x00) [] (replace_char (CHR 0x5C) ''_'' (replace_char (CHR ''/'') ''_'' name))
      in if n = ''.'' \<or> n = ''..'' \<or> n = [] then ''index.html'' else n)"

definition extract_filename :: "http_response \<Rightarrow> string" where
  "extract_filename rs =
     (let cd = header_get ''Content-Disposition'' (rsHeader rs);
          from_cd = (case str_index cd ''filename='' of
              None \<Rightarrow> []
            | Some i \<Rightarrow> trim_set (drop (i + length ''filename='') cd) [CHR 0x22, CHR 0x27])
      in if from_cd \<noteq> [] then sanitize_filename from_cd
         else if rsPath rs = [] \<or> rsPath rs = ''/'' then ''index.html''
         else case last_index_char (rsPath rs) (CHR ''/'') of
           None \<Rightarrow> ''index.html''
         | Some i \<Rightarrow>
             let name = drop (i + 1) (rsPath rs)
             in if name \<noteq> [] then sanitize_filename name else ''index.html'')"

section \<open>Probe\<close>

text \<open>\<open>time.Parse\<close> of a layout and a value is an argument; the layouts are tried in this order.\<close>

definition http_time_formats :: "string list" where
  "http_time_formats =
     [''Mon, 02 Jan 2006 15:04:05 MST'', ''Mon, 02 Jan 2006 15:04:05 -0700'',
      ''Monday, 02-Jan-06 15:04:05 MST'', ''2006-01-02T15:04:05Z07:00'',
      ''Mon, 02 Jan 2006 15:04:05 MST'']"

fun first_format :: "(string \<Rightarrow> string \<Rightarrow> gtime option) \<Rightarrow> string list \<Rightarrow> string \<Rightarrow> gtime option" where
  "first_format timeParse [] s = None"
| "first_format timeParse (f # fs) s =
     (case timeParse f s of None \<Rightarrow> first_format timeParse fs s | Some t \<Rightarrow> Some t)"

definition parse_http_time :: "(string \<Rightarrow> string \<Rightarrow> gtime option) \<Rightarrow> string \<Rightarrow> gtime option" where
  "parse_http_time timeParse s = first_format timeParse http_time_formats s"

definition probe_request :: "string \<Rightarrow> request_options \<Rightarrow> http_request" where
  "probe_request url opts =
     \<lparr>rqURL = url,
      rqHeader = set_headers opts
        (header_set ''Accept-Encoding'' ''identity'' (header_set ''Range'' ''bytes=0-0'' []))\<rparr>"

definition read_probe :: "(string \<Rightarrow> string \<Rightarrow> gtime option) \<Rightarrow> http_response \<Rightarrow> (http_err, probe_result) res" where
  "read_probe timeParse rs =
     (if rsStatus rs \<ge> 400 then Err (ErrHTTPStatus (rsStatus rs))
      else
        let meta = zero_metadata\<lparr>omFinalURL := rsURL rs, omDisplayURL := rsDisplay rs,
                     omProtocol := rsScheme rs, omFilename := extract_filename rs\<rparr>
        in if rsStatus rs \<noteq> 206 then
             (if rsContentLength rs > 0
              then Ret (zero_probe\<lparr>prMeta := meta\<lparr>omSize := rsContentLength rs\<rparr>,
                                   prSize := rsContentLength rs\<rparr>)
              else Ret (zero_probe\<lparr>prMeta := meta\<lparr>omSize := -1\<rparr>\<rparr>))
           else case parse_content_range_total (header_get ''Content-Range'' (rsHeader rs)) of
             None \<Rightarrow> Ret (zero_probe\<lparr>prMeta := meta\<lparr>omSize := -1\<rparr>\<rparr>)
           | Some totalSize \<Rightarrow>
               let etag = header_get ''ETag'' (rsHeader rs);
                   lastMod = header_get ''Last-Modified'' (rsHeader rs);
                   strong = is_strong_etag etag;
                   byDate = (\<not> strong \<and> lastMod \<noteq> [] \<and> totalSize > 0);
                   mtime = (case parse_http_time timeParse lastMod of None \<Rightarrow> zero_time | Some t \<Rightarrow> t)
               in Ret \<lparr>prMeta = meta\<lparr>omSize := totalSize, omModTime := mtime,
                           omETag := (if strong then etag else []),
                           omLastModified := (if byDate then lastMod else []),
                           omRangeCapable := strong \<or> byDate\<rparr>,
                       prETag = (if strong then etag else []),
                       prLastModified = (if byDate then lastMod else []),
                       prSize = totalSize,
                       prRangeCapable = strong \<or> byDate\<rparr>)"

definition probe ::
  "http_client \<Rightarrow> (string \<Rightarrow> string \<Rightarrow> gtime option) \<Rightarrow> string \<Rightarrow> request_options \<Rightarrow> (http_err, probe_result) res"
where
  "probe client timeParse url opts =
     (case client (probe_request url opts) of
        BadURL e \<Rightarrow> Err (ErrNewRequest e)
      | NoAnswer e \<Rightarrow> Err (ErrTransport e)
      | Answer rs \<Rightarrow> read_probe timeParse rs)"

section \<open>Ranges and sequential requests\<close>

definition range_request :: "string \<Rightarrow> int \<Rightarrow> int \<Rightarrow> string \<Rightarrow> request_options \<Rightarrow> http_request" where
  "range_request url start len validator opts =
     (let end' = i64 (i64 (start + len) - 1);
          h = header_set ''Accept-Encoding'' ''identity''
                (header_set ''Range'' (''bytes='' @ fmt_int start @ ''-'' @ fmt_int end') []);
          h' = (if validator \<noteq> [] then header_set ''If-Range'' validator h else h)
      in \<lparr>rqURL = url, rqHeader = set_headers opts h'\<rparr>)"

text \<open>The reader of the body is the body; its declared length is the requested one.\<close>

definition open_range ::
  "http_client \<Rightarrow> string \<Rightarrow> int \<Rightarrow> int \<Rightarrow> string \<Rightarrow> request_options \<Rightarrow> (http_err, bytes \<times> int) res" where
  "open_range client url start len validator opts =
     (let end' = i64 (i64 (start + len) - 1)
      in case client (range_request url start len validator opts) of
           BadURL e \<Rightarrow> Err (ErrNewRequest e)
         | NoAnswer e \<Rightarrow> Err (ErrTransport e)
         | Answer rs \<Rightarrow>
             if rsStatus rs \<noteq> 206 then Err (ErrUnexpectedStatus (rsStatus rs))
             else
               let cr = header_get ''Content-Range'' (rsHeader rs)
               in if \<not> validate_content_range cr start end' then Err (ErrContentRange cr)
                  else if rsContentLength rs \<noteq> len
                  then Err (ErrContentLength (rsContentLength rs) len)
                  else Ret (rsBody rs, len))"

definition sequential_request :: "string \<Rightarrow> int \<Rightarrow> request_options \<Rightarrow> http_request" where
  "sequential_request url offset opts =
     \<lparr>rqURL = url,
      rqHeader = set_headers opts
        (header_set ''Accept-Encoding'' ''identity''
          (if offset > 0 then header_set ''Range'' (''bytes='' @ fmt_int offset @ ''-'') [] else []))\<rparr>"

definition open_sequential ::
  "http_client \<Rightarrow> string \<Rightarrow> int \<Rightarrow> request_options \<Rightarrow> (http_err, bytes) res" where
  "open_sequential client url offset opts =
     (case client (sequential_request url offset opts) of
        BadURL e \<Rightarrow> Err (ErrNewRequest e)
      | NoAnswer e \<Rightarrow> Err (ErrTransport e)
      | Answer rs \<Rightarrow>
          if rsStatus rs \<noteq> 200 \<and> rsStatus rs \<noteq> 206
          then Err (ErrUnexpectedStatus (rsStatus rs)) else Ret (rsBody rs))"

section \<open>Redirects\<close>

text \<open>\<open>CheckRedirect\<close>: the new request's header and whether its URL has user information; the
  previous requests are given by their headers and hosts, the last one last.\<close>

definition check_redirect ::
  "(string \<times> string) list \<Rightarrow> string \<Rightarrow> bool \<Rightarrow> ((string \<times> string) list \<times> string) list \<Rightarrow>
     (string, (string \<times> string) list \<times> bool) res" where
  "check_redirect header host hasUser via =
     (if length via \<ge> 20 then Err ''too many redirects''
      else if via = [] then Panic
      else
        let (prevHeader, prevHost) = last via;
            rng = header_get ''Range'' prevHeader;
            h1 = (if rng \<noteq> [] then header_set ''Range'' rng header else header);
            ae = header_get ''Accept-Encoding'' prevHeader;
            h2 = (if ae \<noteq> [] then header_set ''Accept-Encoding'' ae h1 else h1)
        in Ret (h2, hasUser \<and> prevHost = host))"

end
