(* ===== verification/Http_Props.thy ===== *)
theory Http_Props
  imports Http_Adapter Chunk_Plan
begin

text \<open>
  The properties of the HTTP adapter: a range reader that is handed out carries exactly the
  requested bytes whenever the server labels its partial answers truthfully; the requests
  carry the range and the validator, across redirects; a probe reports a range-capable object
  only with a positive size and a validator; file names taken from a response cannot leave the
  directory.
\<close>

section \<open>Headers\<close>

lemma canonical_Range: "canonical_key ''Range'' = ''Range''"
  by code_simp

lemma canonical_If_Range: "canonical_key ''If-Range'' = ''If-Range''"
  by code_simp

lemma canonical_Accept_Encoding: "canonical_key ''Accept-Encoding'' = ''Accept-Encoding''"
  by code_simp

lemma canonical_User_Agent: "canonical_key ''User-Agent'' = ''User-Agent''"
  by code_simp

lemma canonical_Referer: "canonical_key ''Referer'' = ''Referer''"
  by code_simp

lemma canonical_Content_Range: "canonical_key ''Content-Range'' = ''Content-Range''"
  by code_simp

lemmas canonical_keys = canonical_Range canonical_If_Range canonical_Accept_Encoding
  canonical_User_Agent canonical_Referer

lemma map_of_filter_key: "map_of (filter (\<lambda>(k', _). k' \<noteq> c) hs) k = (if k = c then None else map_of hs k)"
  by (induction hs) auto

lemma header_get_set:
  "header_get k (header_set k' v hs) =
     (if canonical_key k = canonical_key k' then v else header_get k hs)"
  by (simp add: header_get_def header_set_def map_of_filter_key)

lemma header_get_fold:
  assumes "\<forall>(k', v) \<in> set xs. canonical_key k' \<noteq> canonical_key k"
  shows "header_get k (fold (\<lambda>(k, v) h. header_set k v h) xs hs) = header_get k hs"
  using assms
proof (induction xs arbitrary: hs)
  case (Cons x xs)
  then show ?case by (cases x) (auto simp: header_get_set)
qed simp

text \<open>The user's headers touch neither of the two range headers.\<close>

definition plain_options :: "request_options \<Rightarrow> bool" where
  "plain_options opts \<longleftrightarrow>
     list_all (\<lambda>(k, v). canonical_key k \<noteq> ''Range'' \<and> canonical_key k \<noteq> ''If-Range'') (roHeaders opts)"

lemma header_get_options:
  assumes "plain_options opts" and "k = ''Range'' \<or> k = ''If-Range''"
  shows "header_get k (set_headers opts hs) = header_get k hs"
proof -
  have "\<forall>(k', v) \<in> set (roHeaders opts). canonical_key k' \<noteq> canonical_key k"
    using assms by (auto simp: plain_options_def list_all_iff canonical_keys)
  then show ?thesis
    using assms(2)
    by (auto simp: set_headers_def Let_def header_get_fold header_get_set canonical_keys)
qed

section \<open>Content-Range\<close>

definition content_range_text :: "int \<Rightarrow> int \<Rightarrow> string \<Rightarrow> string" where
  "content_range_text a b t = ''bytes '' @ fmt_int a @ ''-'' @ fmt_int b @ ''/'' @ t"

lemma validate_text:
  assumes "0 \<le> a" and "a < 2 ^ 63" and "0 \<le> b" and "b < 2 ^ 63"
  shows "validate_content_range (content_range_text a b t) s e \<longleftrightarrow> a = s \<and> b = e"
proof -
  have i: "in_i64 a" "in_i64 b" using assms by (simp_all add: in_i64_def)
  have "trim_prefix (content_range_text a b t) ''bytes '' =
      (fmt_int a @ CHR ''-'' # fmt_int b) @ CHR ''/'' # t"
    by (simp add: content_range_text_def trim_prefix_def has_prefix_def)
  moreover have "CHR ''/'' \<notin> set (fmt_int a @ CHR ''-'' # fmt_int b)"
    using assms fmt_nat_no_special by (simp add: fmt_int_nonneg)
  note split_two_append [OF this, of t]
  ultimately have "split_two (CHR ''/'') (trim_prefix (content_range_text a b t) ''bytes '') =
      Some (fmt_int a @ CHR ''-'' # fmt_int b, t)"
    by (simp only:)
  moreover have "split_two (CHR ''-'') (fmt_int a @ CHR ''-'' # fmt_int b) = Some (fmt_int a, fmt_int b)"
    using assms fmt_nat_no_special by (intro split_two_append) (simp add: fmt_int_nonneg)
  moreover have "trim_space (fmt_int a) = fmt_int a" "trim_space (fmt_int b) = fmt_int b"
    using assms by (simp_all add: fmt_int_nonneg trim_fmt_nat)
  ultimately show ?thesis
    using decimal.read_show [OF i(1)] decimal.read_show [OF i(2)]
    by (simp add: validate_content_range_def) (simp add: content_range_text_def)
qed

lemma total_text:
  assumes "0 \<le> a" and "0 \<le> b" and "0 < n" and "n < 2 ^ 63"
  shows "parse_content_range_total (content_range_text a b (fmt_int n)) = Some n"
proof -
  have i: "in_i64 n" using assms by (simp add: in_i64_def)
  have "content_range_text a b (fmt_int n) = (''bytes '' @ fmt_int a @ ''-'' @ fmt_int b) @ CHR ''/'' # fmt_int n"
    by (simp add: content_range_text_def)
  moreover have sl: "CHR ''/'' \<notin> set (''bytes '' @ fmt_int a @ ''-'' @ fmt_int b)" "CHR ''/'' \<notin> set (fmt_int n)"
    using assms fmt_nat_no_special by (simp_all add: fmt_int_nonneg)
  note split_on_append [OF sl(1), of "fmt_int n"] split_on_none [OF sl(2)]
  ultimately have "split_on (CHR ''/'') (content_range_text a b (fmt_int n)) =
      [''bytes '' @ fmt_int a @ ''-'' @ fmt_int b, fmt_int n]"
    by (simp only:)
  moreover have "trim_space (fmt_int n) = fmt_int n"
    using assms by (simp add: fmt_int_nonneg trim_fmt_nat)
  ultimately show ?thesis
    using decimal.read_show [OF i] assms
    by (simp add: parse_content_range_total_def) (simp add: content_range_text_def)
qed

section \<open>Properties\<close>

text \<open>A server that labels its partial answers truthfully (RFC 9110, 15.3.7): a response with
  status 206 has a \<open>Content-Range\<close> and carries the bytes that it names.\<close>

definition truthful :: "bytes \<Rightarrow> http_client \<Rightarrow> bool" where
  "truthful obj client \<longleftrightarrow>
     (\<forall>rq rs. client rq = Answer rs \<and> rsStatus rs = 206 \<longrightarrow>
        (\<exists>a b t. 0 \<le> a \<and> a \<le> b \<and> b < 2 ^ 63 \<and>
           header_get ''Content-Range'' (rsHeader rs) = content_range_text a b t \<and>
           rsBody rs = subslice obj a (b - a + 1)))"

lemma open_range_body:
  assumes "truthful obj client" and "plan_ok s n" and "plan s n = Some cs" and "c \<in> set cs"
    and "open_range client url (cStart c) (cLength c) validator opts = Ret (body, m)"
  shows "body = chunk_bytes obj c \<and> m = cLength c"
proof -
  have c: "0 \<le> cStart c" "0 < cLength c" "cStart c + cLength c \<le> n"
    using plan_layout.inside [OF assms(2,3,4)] by auto
  have "n < 2 ^ 63" using assms(2) by (simp add: plan_ok_def)
  then have e: "i64 (i64 (cStart c + cLength c) - 1) = cStart c + cLength c - 1"
    using c by (simp add: i64_diff_left i64_id_nonneg)
  obtain rs where rs: "client (range_request url (cStart c) (cLength c) validator opts) = Answer rs"
    "rsStatus rs = 206" "body = rsBody rs" "m = cLength c"
    "validate_content_range (header_get ''Content-Range'' (rsHeader rs)) (cStart c) (cStart c + cLength c - 1)"
    using assms(5) e by (auto simp: open_range_def Let_def split: client_answer.splits if_splits)
  obtain a b t where ab: "0 \<le> a" "a \<le> b" "b < 2 ^ 63" "rsBody rs = subslice obj a (b - a + 1)"
    "header_get ''Content-Range'' (rsHeader rs) = content_range_text a b t"
    using assms(1) rs(1,2) unfolding truthful_def by blast
  have "a = cStart c \<and> b = cStart c + cLength c - 1"
    using rs(5) validate_text [of a b t] ab by simp
  then show ?thesis using ab rs by (simp add: chunk_bytes_def)
qed


definition demo_server :: http_client where
  "demo_server rq =
     (if header_get ''Range'' (rqHeader rq) = ''bytes=2-3''
      then Answer \<lparr>rsStatus = 206, rsHeader = [(''Content-Range'', content_range_text 2 3 ''5'')],
             rsContentLength = 2, rsBody = [30, 40], rsURL = [], rsDisplay = [], rsScheme = [],
             rsPath = []\<rparr>
      else NoAnswer [])"

definition demo_options :: request_options where
  "demo_options = \<lparr>roUserAgent = ''ua'', roReferer = [], roHeaders = [(''x-y'', ''z'')], roTimeout = 0,
     roConnectTimeout = 0, roReadTimeout = 0, roInsecureSkipVerify = False,
     roRetryConnRefused = False, roRetryOnHTTPError = []\<rparr>"


text \<open>C22: unless the user's own headers replace them, a range request carries the range of the
  chunk and, when there is one, the validator in \<open>If-Range\<close>; each redirect keeps the range and
  drops the credentials of the URL when the host changes.\<close>

theorem range_headers_kept:
  assumes "plain_options opts" and "0 \<le> start" and "0 < n" and "start + n < 2 ^ 63"
  shows "header_get ''Range'' (rqHeader (range_request url start n validator opts)) =
      ''bytes='' @ fmt_int start @ ''-'' @ fmt_int (start + n - 1) \<and>
    header_get ''If-Range'' (rqHeader (range_request url start n validator opts)) = validator \<and>
    (length via < 19 \<longrightarrow>
       check_redirect h host user (via @ [(rqHeader (range_request url start n validator opts), prevHost)]) =
         Ret (h', user') \<longrightarrow>
       header_get ''Range'' h' = ''bytes='' @ fmt_int start @ ''-'' @ fmt_int (start + n - 1) \<and>
       (user' \<longrightarrow> user \<and> prevHost = host))"
proof -
  have "i64 (i64 (start + n) - 1) = start + n - 1"
    using assms by (simp add: i64_diff_left i64_id_nonneg)
  then have r: "header_get ''Range'' (rqHeader (range_request url start n validator opts)) =
      ''bytes='' @ fmt_int start @ ''-'' @ fmt_int (start + n - 1)"
    using assms by (simp add: range_request_def Let_def header_get_options header_get_set canonical_keys)
  moreover have "header_get ''If-Range'' (rqHeader (range_request url start n validator opts)) = validator"
    using assms
    by (simp add: range_request_def Let_def header_get_options header_get_set canonical_keys)
       (simp add: header_get_def)
  ultimately show ?thesis
    by (auto simp: check_redirect_def Let_def header_get_set canonical_keys split: if_splits)
qed

theorem range_headers_kept_witness:
  "header_get ''Range'' (rqHeader (range_request ''u'' 8 4 ''e'' demo_options)) = ''bytes=8-11'' \<and>
   header_get ''If-Range'' (rqHeader (range_request ''u'' 8 4 ''e'' demo_options)) = ''e''"
proof -
  have p: "plain_options demo_options" by code_simp
  have "fmt_int 8 = ''8''" "fmt_int 11 = ''11''" by code_simp+
  then show ?thesis
    using range_headers_kept [OF p, of 8 4 "''u''" "''e''"] by simp
qed

text \<open>C23: a probe that reports a range-capable object comes from a partial answer with a
  positive 64-bit total and a validator, which is a strong entity tag or else a date; the
  total of a well-formed \<open>Content-Range\<close> is read exactly.\<close>

theorem probe_range_capable:
  assumes "probe client timeParse url opts = Ret r"
    and "client (probe_request url opts) = Answer rs"
  shows "rsStatus rs < 400 \<and>
    (prRangeCapable r \<longrightarrow> rsStatus rs = 206 \<and> 0 < prSize r \<and> in_i64 (prSize r) \<and>
       (is_strong_etag (prETag r) \<or> prETag r = [] \<and> prLastModified r \<noteq> [])) \<and>
    (0 < n \<and> n < 2 ^ 63 \<and> rsStatus rs = 206 \<and>
       header_get ''Content-Range'' (rsHeader rs) = content_range_text 0 0 (fmt_int n) \<longrightarrow>
       prSize r = n)"
proof -
  have st: "rsStatus rs < 400" and r: "read_probe timeParse rs = Ret r"
    using assms by (auto simp: probe_def read_probe_def split: if_splits)
  have i: "in_i64 k \<and> 0 < k" if "parse_content_range_total cr = Some k" for cr k
    using that by (auto simp: parse_content_range_total_def parse_int_def Let_def
        split: if_splits list.splits option.splits prod.splits)
  have "prRangeCapable r \<Longrightarrow> rsStatus rs = 206 \<and> 0 < prSize r \<and> in_i64 (prSize r) \<and>
       (is_strong_etag (prETag r) \<or> prETag r = [] \<and> prLastModified r \<noteq> [])"
    using r i by (auto simp: read_probe_def zero_probe_def Let_def split: if_splits option.splits)
  moreover have "prSize r = n" if "0 < n" "n < 2 ^ 63" "rsStatus rs = 206"
    "header_get ''Content-Range'' (rsHeader rs) = content_range_text 0 0 (fmt_int n)"
    using r that total_text [of 0 0 n] st by (auto simp: read_probe_def Let_def)
  ultimately show ?thesis using st by blast
qed

definition demo_answer :: http_response where
  "demo_answer = \<lparr>rsStatus = 206, rsHeader = [(''Content-Range'', ''bytes 0-0/42''), (''Etag'', CHR 0x22 # ''x'' @ [CHR 0x22])],
     rsContentLength = 1, rsBody = [1], rsURL = ''http://h/a'', rsDisplay = ''http://h/a'', rsScheme = ''http'',
     rsPath = ''/a''\<rparr>"

theorem probe_range_capable_witness:
  "\<exists>r. probe (\<lambda>rq. Answer demo_answer) (\<lambda>f s. None) ''http://h/a'' demo_options = Ret r \<and> prSize r = 42"
proof -
  let ?c = "\<lambda>rq. Answer demo_answer"
  obtain r where r: "probe ?c (\<lambda>f s. None) ''http://h/a'' demo_options = Ret r"
  proof -
    have "\<not> 400 \<le> rsStatus demo_answer" by (simp add: demo_answer_def)
    then have "\<exists>r. read_probe (\<lambda>f s. None) demo_answer = Ret r"
      by (simp add: read_probe_def Let_def split: option.split)
    then show ?thesis using that by (auto simp: probe_def)
  qed
  have "header_get ''Content-Range'' (rsHeader demo_answer) = content_range_text 0 0 (fmt_int 42)"
    by code_simp
  then show ?thesis
    using probe_range_capable [OF r, of demo_answer 42] r by (auto simp: demo_answer_def)
qed

text \<open>C24: a file name taken from a response, from its \<open>Content-Disposition\<close> or from its path,
  is not empty, is neither \<open>.\<close> nor \<open>..\<close>, and contains no slash, backslash or NUL.\<close>

theorem filename_safe:
  "extract_filename rs \<noteq> [] \<and> extract_filename rs \<noteq> ''.'' \<and> extract_filename rs \<noteq> ''..'' \<and>
   set (extract_filename rs) \<inter> {CHR ''/'', CHR 0x5C, CHR 0x00} = {}"
proof -
  have rep: "c \<notin> set (replace_char c r s)" if "c \<notin> set r" for c r s
    using that by (auto simp: replace_char_def)
  have sub: "set (replace_char c r s) \<subseteq> set r \<union> set s" for c r s
    by (auto simp: replace_char_def split: if_splits)
  have san: "sanitize_filename n \<noteq> [] \<and> sanitize_filename n \<noteq> ''.'' \<and> sanitize_filename n \<noteq> ''..'' \<and>
      set (sanitize_filename n) \<inter> {CHR ''/'', CHR 0x5C, CHR 0x00} = {}" for n
  proof -
    let ?a = "replace_char (CHR ''/'') ''_'' n"
    let ?b = "replace_char (CHR 0x5C) ''_'' ?a"
    let ?c = "replace_char (CHR 0x00) [] ?b"
    have "CHR ''/'' \<notin> set ?c" "CHR 0x5C \<notin> set ?c" "CHR 0x00 \<notin> set ?c"
      using rep [of "CHR ''/''" "''_''" n] rep [of "CHR 0x5C" "''_''" ?a] rep [of "CHR 0x00" "[]" ?b]
        sub [of "CHR 0x5C" "''_''" ?a] sub [of "CHR 0x00" "[]" ?b]
      by (auto dest: subsetD)
    then show ?thesis by (simp add: sanitize_filename_def Let_def)
  qed
  then show ?thesis
    by (auto simp: extract_filename_def Let_def split: option.split)
qed

end
