(* ===== verification/Openssl_Conn.thy ===== *)
theory Openssl_Conn
  imports Go_Strings
begin

text \<open>
  The TLS connections of the \<open>openssl\<close> build, \<open>internal/adapter/http/openssl/openssl_impl.go\<close>. The
  C library is an argument: each call contributes its results, the value it returns and the
  code that \<open>SSL_get_error\<close> gives for it, as a list in the order of the attempts; the helper
  functions of the file's C preamble are modelled with what they set. \<open>None\<close> is a call that is
  still retrying when the list ends. \<open>Dial\<close> keeps account of what it acquired and released;
  the lock-protected methods of a connection that several goroutines share are the step
  relation \<open>conn_step\<close>.
\<close>

section \<open>Results of the library\<close>

datatype ssl_code =
    SslZeroReturn
  | SslWantRead
  | SslWantWrite
  | SslSyscall
  | SslProtocol
  | SslOther nat

type_synonym ssl_result = "int \<times> ssl_code"

datatype tls_err =
    TlsDial string
  | TlsDupFD string
  | TlsSetBlocking
  | TlsNoCtx
  | TlsNoSsl
  | TlsConnectEOF
  | TlsConnectSyscall
  | TlsConnectSSL string
  | TlsEOF
  | TlsReadSyscall int
  | TlsReadSSL string
  | TlsWriteClosed
  | TlsWriteSyscall
  | TlsWriteSSL string

text \<open>\<open>sslError\<close>: the text in a buffer of 256 bytes up to the first null byte.\<close>

definition ssl_error_text :: "int \<Rightarrow> string \<Rightarrow> string" where
  "ssl_error_text code buf =
     (if code = 0 then ''unknown error'' else takeWhile (\<lambda>c. c \<noteq> CHR 0x00) buf)"

section \<open>Dial\<close>

datatype verify_mode = VerifyNone | VerifyPeer

text \<open>What is held at a point of \<open>Dial\<close>: the socket of \<open>net.Dial\<close>, its duplicate, the context and
  the SSL object, with the verification mode and the server name that the handshake uses.\<close>

record tls_resources =
  trRaw :: bool
  trDup :: bool
  trCtx :: bool
  trSsl :: bool
  trVerify :: "verify_mode option"
  trSNI :: string

definition no_resources :: tls_resources where
  "no_resources = \<lparr>trRaw = False, trDup = False, trCtx = False, trSsl = False,
     trVerify = None, trSNI = []\<rparr>"

definition holds_nothing :: "tls_resources \<Rightarrow> bool" where
  "holds_nothing r \<longleftrightarrow> \<not> trRaw r \<and> \<not> trDup r \<and> \<not> trCtx r \<and> \<not> trSsl r"

text \<open>\<open>new_ssl_ctx\<close> and \<open>new_ssl\<close> of the preamble: the context does not verify, and an SSL object
  takes over the mode of its context.\<close>

definition new_ssl_ctx :: "bool \<Rightarrow> tls_resources \<Rightarrow> tls_resources option" where
  "new_ssl_ctx ok r = (if ok then Some (r\<lparr>trCtx := True, trVerify := Some VerifyNone\<rparr>) else None)"

definition new_ssl :: "bool \<Rightarrow> tls_resources \<Rightarrow> tls_resources option" where
  "new_ssl ok r = (if ok then Some (r\<lparr>trSsl := True, trSNI := []\<rparr>) else None)"

text \<open>\<open>dupFD\<close>: whether the connection gives access to its descriptor, and the errors of
  \<open>SyscallConn\<close>, \<open>Control\<close> and \<open>dup\<close>.\<close>

record dup_env =
  duSyscallConn :: bool
  duConnErr :: "string option"
  duControlErr :: "string option"
  duDup :: "string + int"

definition dup_fd :: "dup_env \<Rightarrow> string + int" where
  "dup_fd d =
     (if \<not> duSyscallConn d then Inl ''openssl: cannot get raw fd''
      else case duConnErr d of
        Some e \<Rightarrow> Inl (''openssl: SyscallConn: '' @ e)
      | None \<Rightarrow> (case duControlErr d of Some e \<Rightarrow> Inl e | None \<Rightarrow> duDup d))"

text \<open>\<open>socketFD\<close> panics where \<open>dupFD\<close> returns an error; \<open>fd\<close> is the descriptor that
  \<open>Control\<close> passes.\<close>

definition socket_fd :: "dup_env \<Rightarrow> int \<Rightarrow> int option" where
  "socket_fd d fd =
     (if \<not> duSyscallConn d then None
      else case duConnErr d of
        Some e \<Rightarrow> None
      | None \<Rightarrow> (case duControlErr d of Some e \<Rightarrow> None | None \<Rightarrow> Some fd))"

record dial_env =
  deDialErr :: "string option"
  deDupEnv :: dup_env
  deSetBlocking :: int
  deCtxOk :: bool
  deSslOk :: bool
  deConnect :: "ssl_result list"
  deErrCode :: int
  deErrText :: string

text \<open>The \<open>retry\<close> loop: \<open>Some None\<close> is a completed handshake.\<close>

fun connect_loop :: "string \<Rightarrow> ssl_result list \<Rightarrow> tls_err option option" where
  "connect_loop txt [] = None"
| "connect_loop txt ((ret, code) # rs) =
     (if ret = 1 then Some None
      else case code of
        SslSyscall \<Rightarrow> Some (Some (if ret = 0 then TlsConnectEOF else TlsConnectSyscall))
      | SslProtocol \<Rightarrow> Some (Some (TlsConnectSSL txt))
      | _ \<Rightarrow> connect_loop txt rs)"

text \<open>The result of \<open>Dial\<close> and what is still held then.\<close>

definition openssl_dial ::
  "dial_env \<Rightarrow> string \<Rightarrow> bool \<Rightarrow> ((tls_err + int) \<times> tls_resources) option" where
  "openssl_dial env serverName insecure =
     (case deDialErr env of
        Some e \<Rightarrow> Some (Inl (TlsDial e), no_resources)
      | None \<Rightarrow>
          let r1 = no_resources\<lparr>trRaw := True\<rparr> in
          case dup_fd (deDupEnv env) of
            Inl e \<Rightarrow> Some (Inl (TlsDupFD e), r1\<lparr>trRaw := False\<rparr>)
          | Inr fd \<Rightarrow>
              let r2 = r1\<lparr>trDup := True\<rparr> in
              if deSetBlocking env \<noteq> 0
              then Some (Inl TlsSetBlocking, r2\<lparr>trDup := False, trRaw := False\<rparr>)
              else case new_ssl_ctx (deCtxOk env) r2 of
                None \<Rightarrow> Some (Inl TlsNoCtx, r2\<lparr>trDup := False, trRaw := False\<rparr>)
              | Some r3 \<Rightarrow>
                  (case new_ssl (deSslOk env) r3 of
                     None \<Rightarrow> Some (Inl TlsNoSsl, r3\<lparr>trCtx := False, trDup := False, trRaw := False\<rparr>)
                   | Some r4 \<Rightarrow>
                       let r5 = (if serverName \<noteq> [] then r4\<lparr>trSNI := serverName\<rparr> else r4);
                           r6 = (if insecure then r5\<lparr>trVerify := Some VerifyNone\<rparr> else r5)
                       in case connect_loop (ssl_error_text (deErrCode env) (deErrText env)) (deConnect env) of
                            None \<Rightarrow> None
                          | Some (Some e) \<Rightarrow>
                              Some (Inl e, r6\<lparr>trSsl := False, trCtx := False, trDup := False, trRaw := False\<rparr>)
                          | Some None \<Rightarrow> Some (Inr fd, r6\<lparr>trRaw := False\<rparr>)))"

section \<open>Read, Write and Close\<close>

text \<open>\<open>live\<close> is \<open>c.ssl != nil\<close>, \<open>n\<close> the length of the buffer: the address of the first byte of an
  empty buffer panics.\<close>

fun ssl_read_loop :: "int \<Rightarrow> string \<Rightarrow> ssl_result list \<Rightarrow> (tls_err, int) res option" where
  "ssl_read_loop errno txt [] = None"
| "ssl_read_loop errno txt ((n, code) # rs) =
     (if n > 0 then Some (Ret n)
      else case code of
        SslZeroReturn \<Rightarrow> Some (Err TlsEOF)
      | SslSyscall \<Rightarrow> Some (Err (if n = 0 then TlsEOF else TlsReadSyscall errno))
      | SslProtocol \<Rightarrow> Some (Err (TlsReadSSL txt))
      | _ \<Rightarrow> ssl_read_loop errno txt rs)"

definition tls_read :: "bool \<Rightarrow> nat \<Rightarrow> int \<Rightarrow> string \<Rightarrow> ssl_result list \<Rightarrow> (tls_err, int) res option" where
  "tls_read live n errno txt rs =
     (if \<not> live then Some (Err TlsEOF) else if n = 0 then Some Panic else ssl_read_loop errno txt rs)"

fun ssl_write_loop :: "string \<Rightarrow> ssl_result list \<Rightarrow> (tls_err, int) res option" where
  "ssl_write_loop txt [] = None"
| "ssl_write_loop txt ((n, code) # rs) =
     (if n > 0 then Some (Ret n)
      else case code of
        SslSyscall \<Rightarrow> Some (Err TlsWriteSyscall)
      | SslProtocol \<Rightarrow> Some (Err (TlsWriteSSL txt))
      | SslZeroReturn \<Rightarrow> Some (Err TlsEOF)
      | _ \<Rightarrow> ssl_write_loop txt rs)"

definition tls_write :: "bool \<Rightarrow> nat \<Rightarrow> string \<Rightarrow> ssl_result list \<Rightarrow> (tls_err, int) res option" where
  "tls_write live n txt rs =
     (if \<not> live then Some (Err TlsWriteClosed)
      else if n = 0 then Some Panic else ssl_write_loop txt rs)"

text \<open>\<open>Close\<close> frees the SSL object and closes the descriptor; the context stays.\<close>

definition tls_close :: "tls_resources \<Rightarrow> tls_resources" where
  "tls_close r = (if trSsl r then r\<lparr>trSsl := False, trDup := False\<rparr> else r)"

text \<open>\<open>fdConn\<close>: both addresses are the one it was made with, and a deadline changes nothing.\<close>

record fd_conn =
  fcFd :: int
  fcAddr :: string

definition fd_local_addr :: "fd_conn \<Rightarrow> string" where
  "fd_local_addr c = fcAddr c"

definition fd_remote_addr :: "fd_conn \<Rightarrow> string" where
  "fd_remote_addr c = fcAddr c"

definition fd_set_deadline :: "gtime \<Rightarrow> fd_conn \<Rightarrow> fd_conn" where
  "fd_set_deadline t c = c"

text \<open>A connection passes these methods on to its \<open>fdConn\<close>; the three deadlines are one.\<close>

record tls_conn =
  tcConn :: fd_conn
  tcSsl :: bool

definition conn_local_addr :: "tls_conn \<Rightarrow> string" where
  "conn_local_addr c = fd_local_addr (tcConn c)"

definition conn_remote_addr :: "tls_conn \<Rightarrow> string" where
  "conn_remote_addr c = fd_remote_addr (tcConn c)"

definition conn_set_deadline :: "gtime \<Rightarrow> tls_conn \<Rightarrow> tls_conn" where
  "conn_set_deadline t c = c\<lparr>tcConn := fd_set_deadline t (tcConn c)\<rparr>"

section \<open>Goroutines on one connection\<close>

text \<open>A reading, a writing and a closing goroutine of \<open>net/http\<close>. \<open>csSsl\<close> is \<open>c.ssl != nil\<close>,
  \<open>csFreed\<close> that \<open>SSL_free\<close> has run; \<open>csReadMu\<close> and \<open>csWriteMu\<close> are the locked mutexes. The
  steps are the stretches between two accesses to what the goroutines share.\<close>

datatype io_pc = Idle | Locked | InCall

datatype close_pc = CIdle | CLocked | CShutdown | CFreed | CUnset

record conn_state =
  csSsl :: bool
  csFreed :: bool
  csReadMu :: bool
  csWriteMu :: bool
  csFdOpen :: bool
  csReader :: io_pc
  csWriter :: io_pc
  csCloser :: close_pc

definition conn_start :: "conn_state \<Rightarrow> bool" where
  "conn_start s \<longleftrightarrow> s = \<lparr>csSsl = True, csFreed = False, csReadMu = False, csWriteMu = False,
     csFdOpen = True, csReader = Idle, csWriter = Idle, csCloser = CIdle\<rparr>"

inductive conn_step :: "conn_state \<Rightarrow> conn_state \<Rightarrow> bool" where
  read_lock: "csReader s = Idle \<Longrightarrow> \<not> csReadMu s \<Longrightarrow>
     conn_step s (s\<lparr>csReader := Locked, csReadMu := True\<rparr>)"
| read_nil: "csReader s = Locked \<Longrightarrow> \<not> csSsl s \<Longrightarrow>
     conn_step s (s\<lparr>csReader := Idle, csReadMu := False\<rparr>)"
| read_call: "csReader s = Locked \<Longrightarrow> csSsl s \<Longrightarrow> conn_step s (s\<lparr>csReader := InCall\<rparr>)"
| read_return: "csReader s = InCall \<Longrightarrow> conn_step s (s\<lparr>csReader := Idle, csReadMu := False\<rparr>)"
| write_lock: "csWriter s = Idle \<Longrightarrow> \<not> csWriteMu s \<Longrightarrow>
     conn_step s (s\<lparr>csWriter := Locked, csWriteMu := True\<rparr>)"
| write_nil: "csWriter s = Locked \<Longrightarrow> \<not> csSsl s \<Longrightarrow>
     conn_step s (s\<lparr>csWriter := Idle, csWriteMu := False\<rparr>)"
| write_call: "csWriter s = Locked \<Longrightarrow> csSsl s \<Longrightarrow> conn_step s (s\<lparr>csWriter := InCall\<rparr>)"
| write_return: "csWriter s = InCall \<Longrightarrow> conn_step s (s\<lparr>csWriter := Idle, csWriteMu := False\<rparr>)"
| close_lock: "csCloser s = CIdle \<Longrightarrow> \<not> csReadMu s \<Longrightarrow>
     conn_step s (s\<lparr>csCloser := CLocked, csReadMu := True\<rparr>)"
| close_nil: "csCloser s = CLocked \<Longrightarrow> \<not> csSsl s \<Longrightarrow>
     conn_step s (s\<lparr>csCloser := CIdle, csReadMu := False\<rparr>)"
| close_shutdown: "csCloser s = CLocked \<Longrightarrow> csSsl s \<Longrightarrow> conn_step s (s\<lparr>csCloser := CShutdown\<rparr>)"
| close_free: "csCloser s = CShutdown \<Longrightarrow> conn_step s (s\<lparr>csCloser := CFreed, csFreed := True\<rparr>)"
| close_unset: "csCloser s = CFreed \<Longrightarrow> conn_step s (s\<lparr>csCloser := CUnset, csSsl := False\<rparr>)"
| close_fd: "csCloser s = CUnset \<Longrightarrow>
     conn_step s (s\<lparr>csCloser := CIdle, csReadMu := False, csFdOpen := False\<rparr>)"

end
