(* ===== verification/Http_Transport.thy ===== *)
theory Http_Transport
  imports Openssl_Conn Http_Adapter
begin

text \<open>
  The transport that \<open>New\<close> of \<open>internal/adapter/http/adapter.go\<close> configures for \<open>net/http\<close>: the
  limits and time-outs of its connections, the socket options of the dialer and how TLS
  connections are made, by \<open>crypto/tls\<close> or, in the \<open>openssl\<close> build, by \<open>Openssl_Conn\<close>. The
  redirect policy of the same client is \<open>check_redirect\<close> of \<open>Http_Adapter\<close>.
\<close>

text \<open>\<open>htTLSConfig\<close> is \<open>TLSClientConfig\<close>, of which the code sets \<open>InsecureSkipVerify\<close>; with
  \<open>htOpenssl = Some insecure\<close> the transport dials TLS through the \<open>openssl\<close> package.\<close>

record http_transport =
  htTLSConfig :: "bool option"
  htDisableCompression :: bool
  htMaxConnsPerHost :: int
  htMaxIdleConnsPerHost :: int
  htIdleConnTimeout :: duration
  htTLSHandshakeTimeout :: duration
  htDialTimeout :: duration
  htKeepAlive :: duration
  htForceHTTP2 :: bool
  htOpenssl :: "bool option"

datatype 't round_tripper = NetHTTP http_transport | Injected 't

record 't http_config =
  hcTransport :: "'t round_tripper"
  hcTimeout :: duration

definition with_transport :: "'t \<Rightarrow> 't http_config \<Rightarrow> 't http_config" where
  "with_transport rt c = c\<lparr>hcTransport := Injected rt\<rparr>"

text \<open>\<open>available\<close> is \<open>openssl.IsAvailable\<close>; \<open>readTimeout\<close> is not used.\<close>

definition http_new ::
  "bool \<Rightarrow> bool \<Rightarrow> duration \<Rightarrow> duration \<Rightarrow> duration \<Rightarrow> ('t http_config \<Rightarrow> 't http_config) list \<Rightarrow>
     't http_config" where
  "http_new available insecure timeout connectTimeout readTimeout opts =
     (let t0 = \<lparr>htTLSConfig = Some insecure, htDisableCompression = True, htMaxConnsPerHost = 0,
                htMaxIdleConnsPerHost = 100, htIdleConnTimeout = seconds 90,
                htTLSHandshakeTimeout = seconds 10, htDialTimeout = connectTimeout,
                htKeepAlive = seconds 30, htForceHTTP2 = False, htOpenssl = None\<rparr>;
          t1 = (if available then t0\<lparr>htOpenssl := Some insecure, htTLSConfig := None\<rparr> else t0)
      in fold (\<lambda>o' c. o' c) opts \<lparr>hcTransport = NetHTTP t1, hcTimeout = timeout\<rparr>)"

text \<open>The dialer's \<open>Control\<close>: the errors of \<open>RawConn.Control\<close> and of the two socket options; the
  second is not tried when the first fails.\<close>

definition sock_control :: "string option \<Rightarrow> string option \<Rightarrow> string option \<Rightarrow> string option" where
  "sock_control controlErr rcvErr sndErr =
     (let setErr = (case rcvErr of None \<Rightarrow> sndErr | Some e \<Rightarrow> Some e)
      in case controlErr of Some e \<Rightarrow> Some e | None \<Rightarrow> setErr)"

text \<open>\<open>DialTLSContext\<close>; \<open>net.SplitHostPort\<close> is an argument.\<close>

definition dial_tls ::
  "(string \<Rightarrow> (string \<times> string) option) \<Rightarrow> dial_env \<Rightarrow> bool \<Rightarrow> string \<Rightarrow>
     ((tls_err + int) \<times> tls_resources) option" where
  "dial_tls splitHostPort env insecure addr =
     (let host = (case splitHostPort addr of None \<Rightarrow> addr | Some (h, p) \<Rightarrow> h)
      in openssl_dial env host insecure)"

text \<open>How a TLS connection of a transport checks the peer's certificate: \<open>crypto/tls\<close> does unless
  \<open>InsecureSkipVerify\<close> is set, the handshake of the \<open>openssl\<close> build as its SSL object says.\<close>

definition conn_verifies ::
  "(string \<Rightarrow> (string \<times> string) option) \<Rightarrow> dial_env \<Rightarrow> string \<Rightarrow> http_transport \<Rightarrow> bool option" where
  "conn_verifies splitHostPort env addr t =
     (case htOpenssl t of
        None \<Rightarrow> map_option Not (htTLSConfig t)
      | Some insecure \<Rightarrow>
          (case dial_tls splitHostPort env insecure addr of
             Some (Inr fd, r) \<Rightarrow> Some (trVerify r = Some VerifyPeer)
           | _ \<Rightarrow> None))"

end
