(* ===== verification/Transport_Props.thy ===== *)
theory Transport_Props
  imports Http_Transport
begin

text \<open>
  The properties of the TLS connections: what \<open>Dial\<close> holds on each of its paths, when its loops
  and those of \<open>Read\<close> and \<open>Write\<close> return and with what, the lifetime of the SSL object under
  concurrent use, and which connections check certificates.
\<close>

section \<open>Dial\<close>

text \<open>C36: When \<open>Dial\<close> fails, at whatever step, everything it acquired is released; when it
  succeeds it holds the duplicated descriptor, the context and the SSL object, with the server
  name it was given, and the socket of the Go runtime is closed.\<close>

theorem openssl_dial_releases:
  assumes "openssl_dial env serverName insecure = Some (r, held)"
  shows "case r of
      Inl e \<Rightarrow> holds_nothing held
    | Inr fd \<Rightarrow> \<not> trRaw held \<and> trDup held \<and> trCtx held \<and> trSsl held \<and> trSNI held = serverName"
  using assms
  by (auto simp: openssl_dial_def new_ssl_ctx_def new_ssl_def holds_nothing_def no_resources_def Let_def
      split: option.splits sum.splits if_splits)

definition demo_dial :: "ssl_result list \<Rightarrow> dial_env" where
  "demo_dial rs = \<lparr>deDialErr = None, deDupEnv = \<lparr>duSyscallConn = True, duConnErr = None,
     duControlErr = None, duDup = Inr 7\<rparr>, deSetBlocking = 0, deCtxOk = True, deSslOk = True,
     deConnect = rs, deErrCode = 1, deErrText = ''bad'' @ [CHR 0x00]\<rparr>"

theorem openssl_dial_releases_witness:
  "\<exists>r. openssl_dial (demo_dial [(-1, SslWantRead), (-1, SslProtocol)]) ''h'' False =
       Some (Inl (TlsConnectSSL ''bad''), r) \<and> holds_nothing r"
proof -
  obtain r where r: "openssl_dial (demo_dial [(-1, SslWantRead), (-1, SslProtocol)]) ''h'' False =
      Some (Inl (TlsConnectSSL ''bad''), r)"
    by (simp add: openssl_dial_def demo_dial_def dup_fd_def new_ssl_ctx_def new_ssl_def
        ssl_error_text_def Let_def)
  from openssl_dial_releases [OF r] r show ?thesis by simp
qed

text \<open>C38: the certificate of the peer is never checked in the \<open>openssl\<close> build: every connection
  that \<open>Dial\<close> establishes was negotiated in the mode \<open>VerifyNone\<close>, the parameter \<open>insecure\<close>
  makes no difference at all, and so a transport that was configured to verify does not.\<close>

theorem openssl_never_verifies:
  "openssl_dial env serverName True = openssl_dial env serverName False \<and>
   (\<forall>insecure fd held. openssl_dial env serverName insecure = Some (Inr fd, held) \<longrightarrow>
      trVerify held = Some VerifyNone) \<and>
   (\<forall>splitHostPort addr t. hcTransport (http_new True False timeout ct rt []) = NetHTTP t \<longrightarrow>
      conn_verifies splitHostPort env addr t \<in> {None, Some False}) \<and>
   (\<forall>splitHostPort addr t. hcTransport (http_new False insecure timeout ct rt []) = NetHTTP t \<longrightarrow>
      conn_verifies splitHostPort env addr t = Some (\<not> insecure))"
proof -
  have none: "trVerify held = Some VerifyNone"
    if "openssl_dial env name insecure = Some (Inr fd, held)" for name insecure fd held
    using that
    by (auto simp: openssl_dial_def new_ssl_ctx_def new_ssl_def Let_def
        split: option.splits sum.splits if_splits)
  have same: "openssl_dial env name True = openssl_dial env name False" for name
    by (auto simp: openssl_dial_def new_ssl_ctx_def new_ssl_def no_resources_def Let_def
        split: option.split sum.split)
  have "conn_verifies splitHostPort env addr t \<in> {None, Some False}"
    if "hcTransport (http_new True False timeout ct rt []) = NetHTTP t" for splitHostPort addr t
    using that none
    by (auto simp: http_new_def conn_verifies_def dial_tls_def Let_def
        split: option.splits sum.splits)
  moreover have "conn_verifies splitHostPort env addr t = Some (\<not> insecure)"
    if "hcTransport (http_new False insecure timeout ct rt []) = NetHTTP t" for splitHostPort addr t
    using that by (auto simp: http_new_def conn_verifies_def Let_def)
  ultimately show ?thesis using none same by blast
qed

theorem openssl_never_verifies_witness:
  "\<exists>held. openssl_dial (demo_dial [(-1, SslWantRead), (1, SslOther 0)]) ''h'' False = Some (Inr 7, held) \<and>
     trVerify held = Some VerifyNone"
proof -
  obtain held where d: "openssl_dial (demo_dial [(-1, SslWantRead), (1, SslOther 0)]) ''h'' False =
      Some (Inr 7, held)"
    by (simp add: openssl_dial_def demo_dial_def dup_fd_def new_ssl_ctx_def new_ssl_def Let_def)
  from openssl_never_verifies [of "demo_dial [(-1, SslWantRead), (1, SslOther 0)]" "''h''"] d
  show ?thesis by blast
qed

section \<open>The retry loops\<close>

text \<open>Which results end a loop, and the result they stand for.\<close>

definition retried :: "ssl_code list \<Rightarrow> (int \<Rightarrow> bool) \<Rightarrow> ssl_result \<Rightarrow> bool" where
  "retried codes ok r \<longleftrightarrow> \<not> ok (fst r) \<and> snd r \<notin> set codes"

abbreviation read_retried :: "ssl_result \<Rightarrow> bool" where
  "read_retried \<equiv> retried [SslZeroReturn, SslSyscall, SslProtocol] (\<lambda>n. n > 0)"

abbreviation connect_retried :: "ssl_result \<Rightarrow> bool" where
  "connect_retried \<equiv> retried [SslSyscall, SslProtocol] (\<lambda>n. n = 1)"

lemma connect_loop_dropWhile:
  "connect_loop txt rs = connect_loop txt (dropWhile connect_retried rs)"
proof (induction rs)
  case (Cons r rs)
  then show ?case by (cases r; cases "snd r") (auto simp: retried_def)
qed simp

lemma ssl_read_loop_dropWhile:
  "ssl_read_loop errno txt rs = ssl_read_loop errno txt (dropWhile read_retried rs)"
proof (induction rs)
  case (Cons r rs)
  then show ?case by (cases r; cases "snd r") (auto simp: retried_def)
qed simp

lemma ssl_write_loop_dropWhile:
  "ssl_write_loop txt rs = ssl_write_loop txt (dropWhile read_retried rs)"
proof (induction rs)
  case (Cons r rs)
  then show ?case by (cases r; cases "snd r") (auto simp: retried_def)
qed simp

lemma dropWhile_retried_Cons:
  "dropWhile P rs = r # ys \<Longrightarrow> \<not> P r"
  by (metis hd_dropWhile list.distinct(1) list.sel(1))


section \<open>The SSL object under concurrent use\<close>

definition closing :: "conn_state \<Rightarrow> bool" where
  "closing s \<longleftrightarrow> csCloser s \<noteq> CIdle"

definition conn_inv :: "conn_state \<Rightarrow> bool" where
  "conn_inv s \<longleftrightarrow>
     (csReader s \<noteq> Idle \<longrightarrow> csReadMu s \<and> \<not> closing s) \<and> (closing s \<longrightarrow> csReadMu s) \<and>
     (csFreed s \<longrightarrow> \<not> csSsl s \<or> csCloser s = CFreed) \<and>
     (csReader s = InCall \<longrightarrow> csSsl s) \<and>
     (csCloser s = CShutdown \<longrightarrow> csSsl s \<and> \<not> csFreed s) \<and>
     (csCloser s = CUnset \<longrightarrow> \<not> csSsl s)"

lemma conn_step_inv [inv_keep]: "conn_step s t \<Longrightarrow> conn_inv s \<Longrightarrow> conn_inv t"
  unfolding conn_inv_def closing_def 
  by (induction rule: conn_step.induct; simp (no_asm))
     (metis io_pc.distinct close_pc.distinct)+

interpretation conn_system: inductive_invariant conn_start conn_step conn_inv
proof unfold_locales
  show "conn_inv s" if "conn_start s" for s
    using that by (simp add: conn_start_def conn_inv_def closing_def)
qed (rule conn_step_inv)

text \<open>C37: Under every interleaving of one reading, one writing and one closing goroutine, no call of
  \<open>SSL_read\<close> runs on a freed object and the object is freed at most once; \<open>Close\<close> does not
  exclude a \<open>Write\<close>, and there is a run in which \<open>SSL_write\<close> is called on the object that
  \<open>Close\<close> has freed.\<close>

theorem ssl_object_lifetime:
  "(\<forall>s. reach conn_start conn_step s \<longrightarrow>
      \<not> (csReader s = InCall \<and> csFreed s) \<and> \<not> (csCloser s = CShutdown \<and> csFreed s)) \<and>
   (\<exists>s. reach conn_start conn_step s \<and> csWriter s = InCall \<and> csFreed s)"
proof (intro conjI allI impI)
  fix s assume "reach conn_start conn_step s"
  then have inv: "conn_inv s" by (rule conn_system.reach_I)
  show "\<not> (csReader s = InCall \<and> csFreed s)" using inv by (auto simp: conn_inv_def closing_def)
  show "\<not> (csCloser s = CShutdown \<and> csFreed s)" using inv by (simp add: conn_inv_def)
next
  define s0 where "s0 = \<lparr>csSsl = True, csFreed = False, csReadMu = False, csWriteMu = False,
     csFdOpen = True, csReader = Idle, csWriter = Idle, csCloser = CIdle\<rparr>"
  define s1 where "s1 = s0\<lparr>csWriter := Locked, csWriteMu := True\<rparr>"
  define s2 where "s2 = s1\<lparr>csWriter := InCall\<rparr>"
  define s3 where "s3 = s2\<lparr>csCloser := CLocked, csReadMu := True\<rparr>"
  define s4 where "s4 = s3\<lparr>csCloser := CShutdown\<rparr>"
  define s5 where "s5 = s4\<lparr>csCloser := CFreed, csFreed := True\<rparr>"
  note defs = s5_def s4_def s3_def s2_def s1_def s0_def
  have "reach conn_start conn_step s0" by (rule reach_init) (simp add: conn_start_def s0_def)
  then have "reach conn_start conn_step s1"
    by (rule reach_step) (unfold s1_def, rule write_lock, simp_all add: s0_def)
  then have "reach conn_start conn_step s2"
    by (rule reach_step) (unfold s2_def, rule write_call, simp_all add: s1_def s0_def)
  then have "reach conn_start conn_step s3"
    by (rule reach_step) (unfold s3_def, rule close_lock, simp_all add: s2_def s1_def s0_def)
  then have "reach conn_start conn_step s4"
    by (rule reach_step) (unfold s4_def, rule close_shutdown, simp_all add: s3_def s2_def s1_def s0_def)
  then have "reach conn_start conn_step s5"
    by (rule reach_step) (unfold s5_def, rule close_free, simp add: s4_def)
  moreover have "csWriter s5 = InCall \<and> csFreed s5" by (simp add: defs)
  ultimately show "\<exists>s. reach conn_start conn_step s \<and> csWriter s = InCall \<and> csFreed s" by blast
qed

theorem ssl_object_lifetime_witness:
  "\<not> csFreed \<lparr>csSsl = True, csFreed = False, csReadMu = True, csWriteMu = False, csFdOpen = True,
     csReader = InCall, csWriter = Idle, csCloser = CIdle\<rparr>"
proof -
  define s0 where "s0 = \<lparr>csSsl = True, csFreed = False, csReadMu = False, csWriteMu = False,
     csFdOpen = True, csReader = Idle, csWriter = Idle, csCloser = CIdle\<rparr>"
  define s1 where "s1 = s0\<lparr>csReader := Locked, csReadMu := True\<rparr>"
  define s2 where "s2 = s1\<lparr>csReader := InCall\<rparr>"
  have "reach conn_start conn_step s0" by (rule reach_init) (simp add: conn_start_def s0_def)
  then have "reach conn_start conn_step s1"
    by (rule reach_step) (unfold s1_def, rule read_lock, simp_all add: s0_def)
  then have "reach conn_start conn_step s2"
    by (rule reach_step) (unfold s2_def, rule read_call, simp_all add: s1_def s0_def)
  then have "\<not> (csReader s2 = InCall \<and> csFreed s2)" using ssl_object_lifetime by blast
  then show ?thesis by (simp add: s2_def s1_def s0_def)
qed

text \<open>After a successful \<open>Dial\<close> and a \<open>Close\<close> the context is still allocated.\<close>

lemma close_keeps_context:
  assumes "openssl_dial env serverName insecure = Some (Inr fd, held)"
  shows "trCtx (tls_close held) \<and> \<not> trSsl (tls_close held) \<and> \<not> trDup (tls_close held) \<and>
    tls_close (tls_close held) = tls_close held"
  using assms
  by (auto simp: openssl_dial_def new_ssl_ctx_def new_ssl_def tls_close_def Let_def
      split: option.splits sum.splits if_splits)

end
