(* ===== verification/Ftp_Adapter.thy ===== *)
theory Ftp_Adapter
  imports Byte_Reader Go_Strings Adapter
begin

text \<open>
  The FTP and FTPS adapter, \<open>internal/adapter/ftp/adapter.go\<close>: addresses, login, the probe, and
  the readers of a range and of a whole file. \<open>net/url\<close>'s parser and printer and the client
  library (\<open>github.com/jlaffaye/ftp\<close>) are arguments; the operations return, beside their
  result, how many control connections they leave open. The range reader cuts the data
  connection, a \<open>byte_reader\<close>, to the length of its chunk.
\<close>

section \<open>Addresses\<close>

text \<open>\<open>url.URL\<close>, as far as the code reads it: \<open>uUser\<close> is the user with an optional password.\<close>

record url =
  uScheme :: string
  uHostname :: string
  uPort :: string
  uPath :: string
  uRawQuery :: string
  uUser :: "(string \<times> string option) option"

datatype ftp_err =
    FtpParseURL string
  | FtpMissingHost
  | FtpMissingPath
  | FtpDial string
  | FtpLogin string
  | FtpRetrFrom int string
  | FtpRetr string

record ftp_adapter =
  faInsecureSkipVerify :: bool
  faTimeout :: duration
  faConnectTimeout :: duration

definition ftp_new :: "bool \<Rightarrow> duration \<Rightarrow> duration \<Rightarrow> ftp_adapter" where
  "ftp_new insecure timeout connectTimeout =
     \<lparr>faInsecureSkipVerify = insecure, faTimeout = timeout, faConnectTimeout = connectTimeout\<rparr>"

definition is_implicit_ftps :: "url \<Rightarrow> bool" where
  "is_implicit_ftps u \<longleftrightarrow> str_index (uRawQuery u) ''implicit=1'' \<noteq> None"

definition resolve_addr :: "url \<Rightarrow> ftp_err + string \<times> string \<times> string" where
  "resolve_addr u =
     (if uHostname u = [] then Inl FtpMissingHost
      else
        let port = (if uPort u = []
                    then if uScheme u = ''ftps'' \<and> is_implicit_ftps u then ''990'' else ''21''
                    else uPort u)
        in if uPath u = [] \<or> uPath u = ''/'' then Inl FtpMissingPath
           else Inr (uHostname u, port, uPath u))"

definition ftp_sanitize_url :: "(url \<Rightarrow> string) \<Rightarrow> url \<Rightarrow> string" where
  "ftp_sanitize_url to_string u = to_string (u\<lparr>uUser := None\<rparr>)"

definition ftp_extract_filename :: "string \<Rightarrow> string" where
  "ftp_extract_filename path =
     (if path = [] \<or> path = ''/'' then ''index.html''
      else case last_index_char path (CHR ''/'') of
        Some i \<Rightarrow>
          let name = drop (i + 1) path in if name \<noteq> [] then name else drop (i + 1) path
      | None \<Rightarrow> ''index.html'')"

definition ftp_parse_int :: "string \<Rightarrow> int option" where
  "ftp_parse_int s = parse_int (trim_space s)"

section \<open>The client library\<close>

text \<open>\<open>flDial addr tls timeout\<close>: \<open>tls\<close> is \<open>InsecureSkipVerify\<close> and \<open>ServerName\<close> of the TLS
  configuration; \<open>'c\<close> is a control connection, \<open>'r\<close> a data connection. The methods of a
  connection return their error as the library does, beside a value.\<close>

record ('c, 'r) ftp_lib =
  flDial :: "string \<Rightarrow> (bool \<times> string) option \<Rightarrow> duration \<Rightarrow> string + 'c"
  flLogin :: "'c \<Rightarrow> string \<Rightarrow> string \<Rightarrow> string option"
  flFileSize :: "'c \<Rightarrow> string \<Rightarrow> int \<times> string option"
  flGetTime :: "'c \<Rightarrow> string \<Rightarrow> gtime \<times> string option"
  flRetrFrom :: "'c \<Rightarrow> string \<Rightarrow> int \<Rightarrow> string + 'r"
  flRetr :: "'c \<Rightarrow> string \<Rightarrow> string + 'r"

definition u64 :: "int \<Rightarrow> int" where
  "u64 x = x mod 2 ^ 64"

text \<open>The second component counts the control connections left open: a failed login quits.\<close>

definition ftp_dial ::
  "('c, 'r) ftp_lib \<Rightarrow> ftp_adapter \<Rightarrow> url \<Rightarrow> string \<Rightarrow> string \<Rightarrow> (ftp_err + 'c) \<times> int" where
  "ftp_dial lib a u host port =
     (let addr = host @ '':'' @ port;
          tls = (if uScheme u = ''ftps'' then Some (faInsecureSkipVerify a, host) else None)
      in case flDial lib addr tls (faConnectTimeout a) of
           Inl e \<Rightarrow> (Inl (FtpDial e), 0)
         | Inr conn \<Rightarrow>
             let (user, pass) = (case uUser u of
                     None \<Rightarrow> (''anonymous'', ''pget@'')
                   | Some (n, None) \<Rightarrow> (n, ''pget@'')
                   | Some (n, Some p) \<Rightarrow> (n, p))
             in case flLogin lib conn user pass of
                  Some e \<Rightarrow> (Inl (FtpLogin e), 1 - 1)
                | None \<Rightarrow> (Inr conn, 1))"

text \<open>The common opening of the three operations.\<close>

definition ftp_connect ::
  "('c, 'r) ftp_lib \<Rightarrow> (string \<Rightarrow> string + url) \<Rightarrow> ftp_adapter \<Rightarrow> string \<Rightarrow>
     (ftp_err + url \<times> string \<times> 'c) \<times> int" where
  "ftp_connect lib parse a urlStr =
     (case parse urlStr of
        Inl e \<Rightarrow> (Inl (FtpParseURL e), 0)
      | Inr u \<Rightarrow>
          (case resolve_addr u of
             Inl e \<Rightarrow> (Inl e, 0)
           | Inr (host, port, path) \<Rightarrow>
               (case ftp_dial lib a u host port of
                  (Inl e, n) \<Rightarrow> (Inl e, n)
                | (Inr conn, n) \<Rightarrow> (Inr (u, path, conn), n))))"

section \<open>Probe\<close>

definition ftp_probe ::
  "('c, 'r) ftp_lib \<Rightarrow> (string \<Rightarrow> string + url) \<Rightarrow> (url \<Rightarrow> string) \<Rightarrow> ftp_adapter \<Rightarrow> string \<Rightarrow>
     (ftp_err + probe_result) \<times> int" where
  "ftp_probe lib parse to_string a urlStr =
     (case ftp_connect lib parse a urlStr of
        (Inl e, n) \<Rightarrow> (Inl e, n)
      | (Inr (u, path, conn), n) \<Rightarrow>
          let meta = zero_metadata\<lparr>omFinalURL := urlStr, omDisplayURL := ftp_sanitize_url to_string u,
                       omProtocol := uScheme u\<rparr>;
              (fsize, ferr) = flFileSize lib conn path;
              r1 = (if ferr \<noteq> None then zero_probe\<lparr>prMeta := meta\<lparr>omSize := -1\<rparr>, prRangeCapable := False\<rparr>
                    else zero_probe\<lparr>prMeta := meta\<lparr>omSize := fsize\<rparr>, prSize := fsize\<rparr>);
              (mtime, terr) = flGetTime lib conn path;
              r2 = (if terr = None then r1\<lparr>prMeta := (prMeta r1)\<lparr>omModTime := mtime\<rparr>\<rparr> else r1);
              r3 = (if fsize > 0
                    then r2\<lparr>prRangeCapable := True,
                            prMeta := (prMeta r2)\<lparr>omRangeCapable := True, omRestartCapable := True\<rparr>\<rparr>
                    else r2)
          in (Inr (r3\<lparr>prMeta := (prMeta r3)\<lparr>omFilename := ftp_extract_filename path\<rparr>\<rparr>), n - 1))"

section \<open>Ranges\<close>

text \<open>The last two fields count the calls of \<open>resp.Close\<close> and \<open>conn.Quit\<close>.\<close>

record 'r ftp_range_reader =
  rrResp :: 'r
  rrLength :: int
  rrRead :: int
  rrCloses :: nat
  rrQuits :: nat

definition ftp_open_range ::
  "('c, 'r) ftp_lib \<Rightarrow> (string \<Rightarrow> string + url) \<Rightarrow> ftp_adapter \<Rightarrow> string \<Rightarrow> int \<Rightarrow> int \<Rightarrow>
     (ftp_err + 'r ftp_range_reader) \<times> int" where
  "ftp_open_range lib parse a urlStr start len =
     (case ftp_connect lib parse a urlStr of
        (Inl e, n) \<Rightarrow> (Inl e, n)
      | (Inr (u, path, conn), n) \<Rightarrow>
          (case flRetrFrom lib conn path (u64 start) of
             Inl e \<Rightarrow> (Inl (FtpRetrFrom start e), n - 1)
           | Inr resp \<Rightarrow>
               (Inr \<lparr>rrResp = resp, rrLength = len, rrRead = 0, rrCloses = 0, rrQuits = 0\<rparr>, n)))"

definition ftp_read :: "'r reader \<Rightarrow> 'r ftp_range_reader reader" where
  "ftp_read rd r n =
     (if rrRead r \<ge> rrLength r then ([], Some REof, r)
      else
        let limit = (if i64 (rrRead r + int n) > rrLength r then rrLength r - rrRead r else int n);
            (d, e, resp') = rd (rrResp r) (nat limit);
            r1 = r\<lparr>rrResp := resp', rrRead := rrRead r + int (length d)\<rparr>
        in if rrRead r1 \<ge> rrLength r1
           then (d, (if e = None \<or> e = Some REof then Some REof else e),
                 r1\<lparr>rrCloses := rrCloses r1 + 1, rrQuits := rrQuits r1 + 1\<rparr>)
           else (d, e, r1))"

definition ftp_close :: "'r ftp_range_reader \<Rightarrow> 'r ftp_range_reader" where
  "ftp_close r = r\<lparr>rrCloses := rrCloses r + 1, rrQuits := rrQuits r + 1\<rparr>"

definition ftp_content_length :: "'r ftp_range_reader \<Rightarrow> int" where
  "ftp_content_length r = rrLength r"

section \<open>Sequential\<close>

definition ftp_open_sequential ::
  "('c, 'r) ftp_lib \<Rightarrow> (string \<Rightarrow> string + url) \<Rightarrow> ftp_adapter \<Rightarrow> string \<Rightarrow> int \<Rightarrow> (ftp_err + 'r) \<times> int" where
  "ftp_open_sequential lib parse a urlStr offset =
     (case ftp_connect lib parse a urlStr of
        (Inl e, n) \<Rightarrow> (Inl e, n)
      | (Inr (u, path, conn), n) \<Rightarrow>
          (case (if offset > 0 then flRetrFrom lib conn path (u64 offset) else flRetr lib conn path) of
             Inl e \<Rightarrow> (Inl (FtpRetr e), n - 1)
           | Inr resp \<Rightarrow> (Inr resp, n)))"

text \<open>\<open>ftpSequentialReader\<close> reads the data connection to its end; closing it closes the response
  and quits the control connection, which the last two fields count.\<close>

record 'r ftp_seq_reader =
  fqResp :: 'r
  fqCloses :: nat
  fqQuits :: nat

definition ftp_seq_read :: "'r reader \<Rightarrow> 'r ftp_seq_reader reader" where
  "ftp_seq_read rd r n = (case rd (fqResp r) n of (d, e, resp') \<Rightarrow> (d, e, r\<lparr>fqResp := resp'\<rparr>))"

definition ftp_seq_close :: "'r ftp_seq_reader \<Rightarrow> 'r ftp_seq_reader" where
  "ftp_seq_close r = r\<lparr>fqCloses := fqCloses r + 1, fqQuits := fqQuits r + 1\<rparr>"

section \<open>The range reader is a reader of the first bytes\<close>

definition ftp_rest :: "('r \<Rightarrow> bytes) \<Rightarrow> 'r ftp_range_reader \<Rightarrow> bytes" where
  "ftp_rest rest r = take (nat (rrLength r - rrRead r)) (rest (rrResp r))"

definition ftp_sane :: "('r \<Rightarrow> bool) \<Rightarrow> 'r ftp_range_reader \<Rightarrow> bool" where
  "ftp_sane sane r \<longleftrightarrow> sane (rrResp r) \<and> 0 \<le> rrRead r \<and> rrLength r \<le> 2 ^ 62"

text \<open>The two outcomes of a read: nothing is left to deliver, or the data connection was read
  with a buffer that does not exceed what is left.\<close>

lemma ftp_read_cases:
  assumes "ftp_read rd r n = (d, e, r')" and "ftp_sane sane r" and "int n \<le> 2 ^ 62"
  obtains (over) "rrLength r \<le> rrRead r" "d = []" "e = Some REof" "r' = r"
  | (part) e0 m where "rd (rrResp r) m = (d, e0, rrResp r')" "m = min n (nat (rrLength r - rrRead r))"
      "rrRead r < rrLength r" "rrRead r' = rrRead r + int (length d)" "rrLength r' = rrLength r"
      "e = (if rrRead r' \<ge> rrLength r \<and> e0 = None then Some REof else e0)"
proof (cases "rrLength r \<le> rrRead r")
  case True
  then show ?thesis using assms(1) by (intro over) (auto simp: ftp_read_def)
next
  case False
  let ?limit = "if i64 (rrRead r + int n) > rrLength r then rrLength r - rrRead r else int n"
  obtain e0 q where q: "rd (rrResp r) (nat ?limit) = (d, e0, q)" "rrResp r' = q"
    "rrRead r' = rrRead r + int (length d)" "rrLength r' = rrLength r"
    "e = (if rrRead r' \<ge> rrLength r \<and> (e0 = None \<or> e0 = Some REof) then Some REof else e0)"
    using assms(1) False by (auto simp: ftp_read_def Let_def split: prod.splits if_splits)
  have "i64 (rrRead r + int n) = rrRead r + int n"
    using assms(2,3) False by (intro i64_id_nonneg) (auto simp: ftp_sane_def)
  then have "nat ?limit = min n (nat (rrLength r - rrRead r))"
    using False by auto
  then show ?thesis
    using q False by (intro part [of "nat ?limit" e0]) auto
qed

locale ftp_data = live_reader

sublocale ftp_data \<subseteq> ranged: live_reader "ftp_read rd" "ftp_rest rest" "ftp_sane sane"
proof unfold_locales
  fix r n d e r'
  assume s: "ftp_sane sane r" and n: "int n \<le> 2 ^ 62" and r: "ftp_read rd r n = (d, e, r')"
  show "length d \<le> n"
    using r s n
  proof (cases rule: ftp_read_cases)
    case (part e0 m)
    then show ?thesis
      using read_bound [of "rrResp r" m d e0 "rrResp r'"] s n by (simp add: ftp_sane_def)
  qed simp
  show "ftp_rest rest r = d @ ftp_rest rest r' \<and> ftp_sane sane r'"
    using r s n
  proof (cases rule: ftp_read_cases)
    case (part e0 m)
    have m: "int m \<le> 2 ^ 62" "sane (rrResp r)" using part(2) n s by (simp_all add: ftp_sane_def)
    have law: "length d \<le> m" "rest (rrResp r) = d @ rest (rrResp r')" "sane (rrResp r')"
      using read_bound [OF m(2,1) part(1)] read_rest [OF m(2,1) part(1)] by simp_all
    then have "length d \<le> nat (rrLength r - rrRead r)" using part(2) by simp
    then have "nat (rrLength r - rrRead r) = length d + nat (rrLength r' - rrRead r')"
      using part(3,4,5) by simp
    then show ?thesis using law part(4,5) s by (simp add: ftp_rest_def ftp_sane_def)
  qed (use s in simp)
next
  fix r n d r'
  assume s: "ftp_sane sane r" and n: "int n \<le> 2 ^ 62"
  show "d \<noteq> []" if "0 < n" and r: "ftp_read rd r n = (d, None, r')"
    using r s n
  proof (cases rule: ftp_read_cases)
    case (part e0 m)
    then have "e0 = None" by (auto split: if_splits)
    then show ?thesis using part read_progress [of "rrResp r" m d "rrResp r'"] s n that(1)
      by (simp add: ftp_sane_def)
  qed simp
  show "ftp_rest rest r' = []" if r: "ftp_read rd r n = (d, Some REof, r')"
    using r s n
  proof (cases rule: ftp_read_cases)
    case (part e0 m)
    then have "rrLength r \<le> rrRead r' \<or> e0 = Some REof" by (auto split: if_splits)
    moreover have "int m \<le> 2 ^ 62" "sane (rrResp r)" using part(2) n s by (simp_all add: ftp_sane_def)
    then have "e0 = Some REof \<Longrightarrow> rest (rrResp r') = []"
      using read_eof [of "rrResp r" m d "rrResp r'"] part(1) by blast
    ultimately show ?thesis using part(5) by (auto simp: ftp_rest_def)
  qed (simp add: ftp_rest_def)
qed

interpretation ftp_body: ftp_data body_read body_rest "\<lambda>b. True"
  by unfold_locales

end
