(* ===== verification/Ftp_Props.thy ===== *)
theory Ftp_Props
  imports Ftp_Adapter
begin

text \<open>
  The properties of the FTP adapter: the bytes of a range, that no control connection is lost,
  and what a probe reports.
\<close>

section \<open>The bytes of a range\<close>

lemma ftp_open_range_reader:
  assumes "ftp_open_range lib parse a urlStr start len = (Inr r, n)"
  shows "\<exists>u path conn resp. ftp_connect lib parse a urlStr = (Inr (u, path, conn), n) \<and>
    flRetrFrom lib conn path (u64 start) = Inr resp \<and>
    r = \<lparr>rrResp = resp, rrLength = len, rrRead = 0, rrCloses = 0, rrQuits = 0\<rparr>"
  using assms by (auto simp: ftp_open_range_def split: sum.splits prod.splits)

text \<open>The server \<open>lib\<close> serves \<open>obj\<close>: a transfer that starts at an offset delivers what lies
  behind it.\<close>

definition serves :: "('c, 'r) ftp_lib \<Rightarrow> ('r \<Rightarrow> bytes) \<Rightarrow> ('r \<Rightarrow> bool) \<Rightarrow> bytes \<Rightarrow> bool" where
  "serves lib rest sane obj \<longleftrightarrow>
     (\<forall>conn path off r. flRetrFrom lib conn path off = Inr r \<longrightarrow>
        sane r \<and> rest r = drop (nat off) obj)"

context ftp_data begin

lemma ranged_only_eof: "only_eof rd sane \<Longrightarrow> only_eof (ftp_read rd) (ftp_sane sane)"
  unfolding only_eof_def
proof (intro allI impI)
  fix r n d x r'
  assume eof: "\<forall>r n d x r'. sane r \<longrightarrow> int n \<le> 2 ^ 62 \<longrightarrow> rd r n = (d, Some x, r') \<longrightarrow> x = REof"
    and s: "ftp_sane sane r" and n: "int n \<le> 2 ^ 62" and r: "ftp_read rd r n = (d, Some x, r')"
  show "x = REof"
    using r s n
  proof (cases rule: ftp_read_cases)
    case (part e0 m)
    then have "sane (rrResp r)" "int m \<le> 2 ^ 62" using s n part(2) by (simp_all add: ftp_sane_def)
    then show ?thesis using eof part(1,6) by (metis option.inject)
  qed simp
qed

lemma ranged_complete:
  assumes "ftp_sane sane r" and "rrRead r = 0" and "0 \<le> rrLength r" and "rrLength r \<le> 2 ^ 62"
  shows "\<exists>d e r'. read_full (ftp_read rd) (nat (rrLength r)) [] r = Some (d, e, r') \<and>
    d = take (length d) (ftp_rest rest r) \<and> (e = None \<longrightarrow> d = ftp_rest rest r) \<and>
    (only_eof rd sane \<and> rrLength r \<le> int (length (rest (rrResp r))) \<longrightarrow> e = None)"
proof -
  let ?n = "nat (rrLength r)"
  have n: "int ?n \<le> 2 ^ 62" using assms(3,4) by simp
  obtain d e r' where f: "read_full (ftp_read rd) ?n [] r = Some (d, e, r')"
    using ranged.read_full_returns [OF assms(1) n, of "[]"] by auto
  have p: "length d \<le> ?n" "e = None \<longleftrightarrow> length d = ?n" "ftp_rest rest r = d @ ftp_rest rest r'"
    using ranged.read_full_prefix [OF f assms(1) n] by simp_all
  have len: "length (ftp_rest rest r) = min (length (rest (rrResp r))) ?n"
    using assms(2) by (simp add: ftp_rest_def)
  have "e = None" if eof: "only_eof rd sane" and le: "rrLength r \<le> int (length (rest (rrResp r)))"
  proof (rule ccontr)
    assume ne: "e \<noteq> None"
    have "length d = ?n"
      using ranged.read_full_all [OF f assms(1) n ne ranged_only_eof [OF eof]] len le by simp
    with p(2) ne show False by simp
  qed
  moreover have "d = ftp_rest rest r" if "e = None"
  proof -
    have "length (ftp_rest rest r') = 0"
      using p(2) arg_cong [OF p(3), of length] that len by (simp add: min_def split: if_splits)
    then show ?thesis using p(3) by simp
  qed
  moreover have "d = take (length d) (ftp_rest rest r)" using p(3) by simp
  ultimately show ?thesis using f by blast
qed

end

text \<open>C28: Reading the range reader of a chunk into the chunk's buffer returns. What it delivers is
  a prefix of the chunk; without an error it is the chunk; and an error is one of the data
  connection: when that has no other error than its end, a chunk inside the object arrives
  complete.\<close>

theorem ftp_range_exact:
  assumes "live_reader rd rest sane" and "serves lib rest sane obj"
    and "ftp_open_range lib parse a urlStr start len = (Inr r, n)"
    and "0 \<le> start" and "start < 2 ^ 63" and "0 \<le> len" and "len \<le> 2 ^ 62"
  shows "\<exists>d e r'. read_full (ftp_read rd) (nat len) [] r = Some (d, e, r') \<and>
    d = take (length d) (subslice obj start len) \<and> (e = None \<longrightarrow> d = subslice obj start len) \<and>
    (only_eof rd sane \<and> start + len \<le> int (length obj) \<longrightarrow> e = None)"
proof -
  have data: "ftp_data rd rest sane" using assms(1) by (simp add: ftp_data_def)
  have st: "u64 start = start" using assms(4,5) by (simp add: u64_def)
  obtain resp where r: "r = \<lparr>rrResp = resp, rrLength = len, rrRead = 0, rrCloses = 0, rrQuits = 0\<rparr>"
    "sane resp" "rest resp = drop (nat start) obj"
    using ftp_open_range_reader [OF assms(3)] assms(2) unfolding st serves_def by blast
  have rest: "ftp_rest rest r = subslice obj start len" and len: "rrLength r = len"
    by (simp_all add: ftp_rest_def r subslice_def)
  have sane: "ftp_sane sane r" "rrRead r = 0" "0 \<le> rrLength r" "rrLength r \<le> 2 ^ 62"
    using r assms(6,7) by (simp_all add: ftp_sane_def)
  have inside: "len \<le> int (length (rest (rrResp r)))" if "start + len \<le> int (length obj)"
    using that r assms(4,6) by (simp add: of_nat_diff)
  show ?thesis
    using ftp_data.ranged_complete [OF data sane] inside unfolding rest len by blast
qed

text \<open>A server with one file, of which each transfer arrives in segments of two bytes.\<close>

fun two_by_two :: "bytes \<Rightarrow> bytes list" where
  "two_by_two (x # y # bs) = [x, y] # two_by_two bs"
| "two_by_two bs = [bs]"

lemma concat_two_by_two: "concat (two_by_two bs) = bs"
  by (induction bs rule: two_by_two.induct) simp_all

definition demo_ftp :: "bytes \<Rightarrow> (unit, body) ftp_lib" where
  "demo_ftp obj =
     \<lparr>flDial = \<lambda>addr tls t. Inr (), flLogin = \<lambda>c u p. None,
      flFileSize = \<lambda>c p. (int (length obj), None), flGetTime = \<lambda>c p. (5, None),
      flRetrFrom = \<lambda>c p off. Inr \<lparr>boSegments = two_by_two (drop (nat off) obj), boFault = REof\<rparr>,
      flRetr = \<lambda>c p. Inr \<lparr>boSegments = two_by_two obj, boFault = REof\<rparr>\<rparr>"

definition demo_url :: url where
  "demo_url = \<lparr>uScheme = ''ftp'', uHostname = ''h'', uPort = [], uPath = ''/f'', uRawQuery = [], uUser = None\<rparr>"

lemma demo_serves: "serves (demo_ftp obj) body_rest (\<lambda>b. boFault b = REof) obj"
  by (auto simp: serves_def demo_ftp_def body_rest_def concat_two_by_two)

theorem ftp_range_exact_witness:
  "\<exists>r n d e r'. ftp_open_range (demo_ftp [1, 2, 3, 4, 5, 6]) (\<lambda>s. Inr demo_url) (ftp_new False 0 0) ''u'' 1 3 =
       (Inr r, n) \<and>
     read_full (ftp_read body_read) 3 [] r = Some (d, e, r') \<and> d = [2, 3, 4]"
proof -
  let ?lib = "demo_ftp [1, 2, 3, 4, 5, 6]"
  have "\<exists>r n. ftp_open_range ?lib (\<lambda>s. Inr demo_url) (ftp_new False 0 0) ''u'' 1 3 = (Inr r, n)"
    by (simp add: ftp_open_range_def ftp_connect_def resolve_addr_def ftp_dial_def demo_ftp_def demo_url_def)
  then obtain r n where r: "ftp_open_range ?lib (\<lambda>s. Inr demo_url) (ftp_new False 0 0) ''u'' 1 3 = (Inr r, n)"
    by blast
  have live: "live_reader body_read body_rest (\<lambda>b. boFault b = REof)"
    by (rule complete_body.live_reader_axioms)
  from ftp_range_exact [OF live demo_serves r]
  obtain d e r' where "read_full (ftp_read body_read) 3 [] r = Some (d, e, r')" "e = None"
    "d = subslice [1, 2, 3, 4, 5, 6] 1 3" using complete_body_only_eof by auto
  then show ?thesis using r by (auto simp: subslice_def)
qed

section \<open>Connections\<close>

lemma ftp_dial_open:
  "snd (ftp_dial lib a u host port) = (case fst (ftp_dial lib a u host port) of Inl e \<Rightarrow> 0 | Inr c \<Rightarrow> 1)"
  by (simp add: ftp_dial_def Let_def split: sum.split option.split prod.split)

lemma ftp_dial_addr:
  assumes "ftp_dial lib a u host port = (Inr conn, n)"
  shows "flDial lib (host @ '':'' @ port)
    (if uScheme u = ''ftps'' then Some (faInsecureSkipVerify a, host) else None)
    (faConnectTimeout a) = Inr conn"
  using assms by (simp add: ftp_dial_def Let_def split: sum.splits option.splits prod.splits if_splits)

lemma ftp_connect_Inr:
  assumes "ftp_connect lib parse a urlStr = (Inr (u, path, conn), n)"
  obtains port where "parse urlStr = Inr u" and "resolve_addr u = Inr (uHostname u, port, path)"
    and "path = uPath u" and "ftp_dial lib a u (uHostname u) port = (Inr conn, n)" and "n = 1"
    and "port = (if uPort u \<noteq> [] then uPort u
           else if uScheme u = ''ftps'' \<and> is_implicit_ftps u then ''990'' else ''21'')"
proof -
  obtain v where v: "parse urlStr = Inr v"
    using assms by (cases "parse urlStr") (simp_all add: ftp_connect_def)
  obtain host port q where r: "resolve_addr v = Inr (host, port, q)"
    using assms v by (cases "resolve_addr v") (auto simp: ftp_connect_def)
  obtain c m where d: "ftp_dial lib a v host port = (c, m)" by fastforce
  have "c = Inr conn" "m = n" "v = u" "q = path"
    using assms v r d by (cases c; simp add: ftp_connect_def)+
  moreover have "host = uHostname v" "q = uPath v" "port = (if uPort v \<noteq> [] then uPort v
      else if uScheme v = ''ftps'' \<and> is_implicit_ftps v then ''990'' else ''21'')"
    using r by (auto simp: resolve_addr_def Let_def split: if_splits)
  moreover have "m = (case c of Inl e \<Rightarrow> 0 | Inr c \<Rightarrow> 1)"
    using ftp_dial_open [of lib a v host port] d by simp
  ultimately show ?thesis using v r d by (intro that [of port]) simp_all
qed

lemma ftp_connect_open:
  "snd (ftp_connect lib parse a urlStr) = (case fst (ftp_connect lib parse a urlStr) of Inl e \<Rightarrow> 0 | Inr c \<Rightarrow> 1)"
proof -
  have "m = 0" if "ftp_dial lib a u host port = (Inl e, m)" for u host port e m
    using ftp_dial_open [of lib a u host port] that by simp
  moreover have "m = 1" if "ftp_dial lib a u host port = (Inr c, m)" for u host port c m
    using ftp_dial_open [of lib a u host port] that by simp
  ultimately show ?thesis by (simp add: ftp_connect_def split: sum.split prod.split)
qed

text \<open>C29: No operation loses a control connection: a probe and every failed opening leave none
  open, a successful opening leaves exactly the one that its reader owns and has not yet quit.\<close>

theorem ftp_no_leak:
  "snd (ftp_probe lib parse to_string a urlStr) = 0 \<and>
   (case ftp_open_range lib parse a urlStr start len of
      (Inl e, n) \<Rightarrow> n = 0 | (Inr r, n) \<Rightarrow> n = 1 \<and> rrQuits r = 0) \<and>
   (case ftp_open_sequential lib parse a urlStr offset of (Inl e, n) \<Rightarrow> n = 0 | (Inr r, n) \<Rightarrow> n = 1)"
proof (cases "ftp_connect lib parse a urlStr")
  case (Pair c n)
  have "n = (case c of Inl e \<Rightarrow> 0 | Inr c \<Rightarrow> 1)"
    using ftp_connect_open [of lib parse a urlStr] Pair by simp
  then show ?thesis
    using Pair
    by (simp add: ftp_probe_def ftp_open_range_def ftp_open_sequential_def Let_def split_def
        split: sum.splits)
qed

text \<open>A reader that was read to the end of its chunk has quit; closing it quits once more.\<close>

lemma ftp_close_quits_again:
  assumes "ftp_read rd r n = (d, e, r')" and "rrRead r < rrLength r" and "rrLength r \<le> rrRead r'"
  shows "rrQuits (ftp_close r') = rrQuits r + 2"
  using assms by (auto simp: ftp_read_def ftp_close_def Let_def split: prod.splits if_splits)

section \<open>The probe\<close>

text \<open>A probe that returns reports the size of \<open>SIZE\<close> and range capability for a positive
  size only, and no range capability and size \<open>-1\<close> when \<open>SIZE\<close> fails without a size. The
  address it dialled is host and port of the URL, with the default port of the scheme, and it
  logged in as the URL says or anonymously.\<close>

theorem ftp_probe_reports:
  assumes "ftp_probe lib parse to_string a urlStr = (Inr r, n)"
    and "\<forall>conn path. snd (flFileSize lib conn path) \<noteq> None \<longrightarrow> fst (flFileSize lib conn path) = 0"
  shows "\<exists>u conn. parse urlStr = Inr u \<and>
    flDial lib (uHostname u @ '':'' @
        (if uPort u \<noteq> [] then uPort u
         else if uScheme u = ''ftps'' \<and> is_implicit_ftps u then ''990'' else ''21''))
      (if uScheme u = ''ftps'' then Some (faInsecureSkipVerify a, uHostname u) else None)
      (faConnectTimeout a) = Inr conn \<and>
    (prRangeCapable r \<longleftrightarrow> prSize r > 0) \<and>
    (case flFileSize lib conn (uPath u) of
       (sz, None) \<Rightarrow> prSize r = sz \<and> omSize (prMeta r) = sz
     | (_, Some e) \<Rightarrow> prSize r = 0 \<and> omSize (prMeta r) = -1) \<and>
    omDisplayURL (prMeta r) = to_string (u\<lparr>uUser := None\<rparr>)"
proof -
  obtain u path conn m where c: "ftp_connect lib parse a urlStr = (Inr (u, path, conn), m)"
    using assms(1) by (auto simp: ftp_probe_def split: sum.splits prod.splits)
  obtain port where p: "parse urlStr = Inr u" "path = uPath u"
    "ftp_dial lib a u (uHostname u) port = (Inr conn, m)"
    "port = (if uPort u \<noteq> [] then uPort u
       else if uScheme u = ''ftps'' \<and> is_implicit_ftps u then ''990'' else ''21'')"
    using c by (rule ftp_connect_Inr)
  obtain sz ferr mt terr where q: "flFileSize lib conn path = (sz, ferr)"
    "flGetTime lib conn path = (mt, terr)" by fastforce
  have "ferr \<noteq> None \<Longrightarrow> sz = 0" using assms(2) q(1) by (metis fst_conv snd_conv)
  then have "(prRangeCapable r \<longleftrightarrow> prSize r > 0) \<and>
    (case flFileSize lib conn (uPath u) of
       (sz, None) \<Rightarrow> prSize r = sz \<and> omSize (prMeta r) = sz
     | (_, Some e) \<Rightarrow> prSize r = 0 \<and> omSize (prMeta r) = -1) \<and>
    omDisplayURL (prMeta r) = to_string (u\<lparr>uUser := None\<rparr>)"
    using assms(1) c q p(2)
    by (cases ferr; cases terr; cases "0 < sz")
       (auto simp: ftp_probe_def ftp_sanitize_url_def zero_probe_def Let_def)
  note reported = this
  show ?thesis
    by (rule exI [of _ u], rule exI [of _ conn])
       (intro conjI reported p(1) ftp_dial_addr [OF p(3), unfolded p(4)])
qed

theorem ftp_probe_reports_witness:
  "\<exists>r. ftp_probe (demo_ftp [1, 2, 3]) (\<lambda>s. Inr demo_url) uHostname (ftp_new False 0 0) ''u'' = (Inr r, 0) \<and>
     prRangeCapable r \<and> prSize r = 3"
proof -
  have "(case ftp_probe (demo_ftp [1, 2, 3]) (\<lambda>s. Inr demo_url) uHostname (ftp_new False 0 0) ''u'' of
      (Inr r, n) \<Rightarrow> n = 0 \<and> prSize r = 3 | _ \<Rightarrow> False)" by code_simp
  then obtain r where r: "ftp_probe (demo_ftp [1, 2, 3]) (\<lambda>s. Inr demo_url) uHostname (ftp_new False 0 0) ''u'' =
      (Inr r, 0)" "prSize r = 3" by (auto split: prod.splits sum.splits)
  have "\<forall>conn path. snd (flFileSize (demo_ftp [1, 2, 3]) conn path) \<noteq> None \<longrightarrow>
      fst (flFileSize (demo_ftp [1, 2, 3]) conn path) = 0" by (simp add: demo_ftp_def)
  from ftp_probe_reports [OF r(1) this] r show ?thesis by auto
qed

end
