(* ===== verification/Cli_Plan.thy ===== *)
theory Cli_Plan
  imports Go_Base
begin

text \<open>
  The execution plan, \<open>internal/cli/plan.go\<close>: the modes and the record that the command-line
  parser produces and the job runner reads. \<open>ExtraHeaders\<close> is an association list with
  distinct keys.
\<close>

datatype output_mode = OutputFile | OutputSingle | OutputStdout

datatype continue_mode = ContinueNone | ContinueAuto

datatype timestamp_mode = TimestampNone | TimestampCheck

datatype log_mode = LogStderr | LogFile | LogAppend

datatype background_mode = BackgroundNone | BackgroundChild

record execution_plan =
  epURLs :: "string list"
  epOutputFile :: string
  epOutputMode :: output_mode
  epQuiet :: bool
  epVerbose :: bool
  epNoVerbose :: bool
  epServerResp :: bool
  epLogMode :: log_mode
  epLogFile :: string
  epContinueMode :: continue_mode
  epNoClobber :: bool
  epTimestampMode :: timestamp_mode
  epContentDisposition :: bool
  epNoUseServerTimestamps :: bool
  epSpider :: bool
  epInputFile :: string
  epConnections :: int
  epSplitSize :: int
  epBufferSize :: int
  epNoParallel :: bool
  epMaxTries :: int
  epTimeout :: duration
  epConnectTimeout :: duration
  epReadTimeout :: duration
  epRetryConnRefused :: bool
  epRetryOnHTTPError :: "int list"
  epUserAgent :: string
  epReferer :: string
  epExtraHeaders :: "(string \<times> string) list"
  epInsecureSkipVerify :: bool
  epFTPSImplicit :: bool
  epProgressType :: string
  epBackground :: background_mode

text \<open>The constants of \<open>internal/cli/parser.go\<close> and the plan that \<open>Parse\<close> starts from; the
  other fields are Go's zero values.\<close>

definition default_connections :: int where "default_connections = 8"
definition default_split_size :: int where "default_split_size = 8 * 2 ^ 20"
definition default_buffer_size :: int where "default_buffer_size = 128 * 2 ^ 20"
definition default_max_tries :: int where "default_max_tries = 20"

definition default_plan :: execution_plan where
  "default_plan =
     \<lparr>epURLs = [], epOutputFile = [], epOutputMode = OutputFile, epQuiet = False,
      epVerbose = False, epNoVerbose = False, epServerResp = False, epLogMode = LogStderr,
      epLogFile = [], epContinueMode = ContinueNone, epNoClobber = False,
      epTimestampMode = TimestampNone, epContentDisposition = False,
      epNoUseServerTimestamps = False, epSpider = False, epInputFile = [],
      epConnections = default_connections, epSplitSize = default_split_size,
      epBufferSize = default_buffer_size, epNoParallel = False,
      epMaxTries = default_max_tries, epTimeout = 0, epConnectTimeout = 0, epReadTimeout = 0,
      epRetryConnRefused = False, epRetryOnHTTPError = [], epUserAgent = [], epReferer = [],
      epExtraHeaders = [], epInsecureSkipVerify = False, epFTPSImplicit = False,
      epProgressType = ''bar'', epBackground = BackgroundNone\<rparr>"

end
