(* ===== verification/Cli_Parser.thy ===== *)
theory Cli_Parser
  imports Go_Strings Cli_Plan
begin

text \<open>
  The command-line parser, \<open>internal/cli/parser.go\<close>: the option table, long and short options
  with their arguments, the setters, the input file and the final validation. The index into
  the arguments, which an option advances when it consumes the next one, is the list of the
  remaining arguments. \<open>os.Exit(0)\<close> of \<open>--version\<close> and \<open>--help\<close> is an outcome of its own;
  \<open>parseSeconds\<close>, which \<open>Cli_Seconds\<close> models, and the reading of the input file are arguments.
\<close>

section \<open>The option table\<close>

text \<open>\<open>oShort\<close> is 0 for an option without a short form, \<open>oArg\<close> empty without an argument.\<close>

record cli_option =
  oLong :: string
  oShort :: char
  oArg :: string

definition opt :: "string \<Rightarrow> char \<Rightarrow> string \<Rightarrow> cli_option" where
  "opt l s a = \<lparr>oLong = l, oShort = s, oArg = a\<rparr>"

definition no_short :: char where
  "no_short = CHR 0x00"

definition cli_options :: "cli_option list" where
  "cli_options =
     [opt ''version'' CHR ''V'' [], opt ''help'' CHR ''h'' [], opt ''quiet'' CHR ''q'' [],
      opt ''verbose'' CHR ''v'' [], opt ''no-verbose'' no_short [],
      opt ''server-response'' CHR ''S'' [], opt ''output-file'' CHR ''o'' ''FILE'',
      opt ''append-output'' CHR ''a'' ''FILE'', opt ''output-document'' CHR ''O'' ''FILE'',
      opt ''continue'' CHR ''c'' [], opt ''no-clobber'' no_short [],
      opt ''timestamping'' CHR ''N'' [], opt ''background'' CHR ''b'' [],
      opt ''input-file'' CHR ''i'' ''FILE'', opt ''tries'' CHR ''t'' ''NUMBER'',
      opt ''timeout'' CHR ''T'' ''SECONDS'', opt ''connect-timeout'' no_short ''SECONDS'',
      opt ''read-timeout'' no_short ''SECONDS'', opt ''retry-connrefused'' no_short [],
      opt ''retry-on-http-error'' no_short ''CODES'', opt ''content-disposition'' no_short [],
      opt ''no-use-server-timestamps'' no_short [], opt ''spider'' no_short [],
      opt ''progress'' no_short ''TYPE'', opt ''header'' no_short ''STRING'',
      opt ''user-agent'' no_short ''STRING'', opt ''referer'' no_short ''URL'',
      opt ''no-check-certificate'' no_short [], opt ''ftps-implicit'' no_short [],
      opt ''connections'' no_short ''NUMBER'', opt ''split-size'' no_short ''SIZE'',
      opt ''buffer-size'' no_short ''SIZE'', opt ''no-parallel'' no_short []]"

definition opt_by_name :: "string \<Rightarrow> cli_option option" where
  "opt_by_name name = find (\<lambda>o'. oLong o' = name) cli_options"

definition opt_by_short :: "char \<Rightarrow> cli_option option" where
  "opt_by_short c = find (\<lambda>o'. oShort o' = c) cli_options"

datatype cli_stop =
    ExitZero
  | ErrUnrecognized string
  | ErrLongNeedsArg string
  | ErrInvalidShort string
  | ErrShortNeedsArg char
  | ErrTries string
  | ErrTimeout string
  | ErrHTTPCode string
  | ErrConnections string
  | ErrSplitSize string
  | ErrBufferSize string
  | ErrInputFile string
  | ErrBackgroundStdout
  | ErrHeaderFormat string
  | ErrBufferTooSmall int int
  | ErrContinueStdout

section \<open>Sizes and numbers\<close>

definition size_multiplier :: "string \<Rightarrow> int" where
  "size_multiplier s =
     (if has_suffix s ''K'' \<or> has_suffix s ''KB'' then 1024
      else if has_suffix s ''M'' \<or> has_suffix s ''MB'' \<or> has_suffix s ''MIB'' then 1024 * 1024
      else if has_suffix s ''G'' \<or> has_suffix s ''GB'' \<or> has_suffix s ''GIB'' then 1024 * 1024 * 1024
      else 1)"

definition parse_size :: "string \<Rightarrow> int option" where
  "parse_size s0 =
     (let s = to_upper (trim_space s0)
      in map_option (\<lambda>n. i64 (n * size_multiplier s)) (parse_int (takeWhile is_digit s)))"

definition is_negative_number :: "string \<Rightarrow> bool" where
  "is_negative_number s \<longleftrightarrow> length s \<ge> 2 \<and> hd s = CHR ''-'' \<and> list_all is_digit (tl s)"

fun parse_codes :: "string list \<Rightarrow> (cli_stop, int list) res" where
  "parse_codes [] = Ret []"
| "parse_codes (c # cs) =
     (case parse_int (trim_space c) of
        None \<Rightarrow> Err (ErrHTTPCode (trim_space c))
      | Some n \<Rightarrow> res_bind (parse_codes cs) (\<lambda>ns. Ret (n # ns)))"

section \<open>Setting options\<close>

record parser =
  paPlan :: execution_plan
  paHeaders :: "string list"

definition set_plan :: "(execution_plan \<Rightarrow> execution_plan) \<Rightarrow> parser \<Rightarrow> (cli_stop, parser) res" where
  "set_plan f p = Ret (p\<lparr>paPlan := f (paPlan p)\<rparr>)"

text \<open>The \<open>switch\<close> of \<open>setOption\<close>, in two halves: the options without and with an argument.\<close>

definition set_flag :: "string \<Rightarrow> parser \<Rightarrow> (cli_stop, parser) res" where
  "set_flag name p =
     (if name = ''version'' \<or> name = ''help'' then Err ExitZero
      else if name = ''quiet'' then set_plan (epQuiet_update (\<lambda>_. True)) p
      else if name = ''verbose'' then set_plan (epVerbose_update (\<lambda>_. True)) p
      else if name = ''no-verbose'' then set_plan (epNoVerbose_update (\<lambda>_. True)) p
      else if name = ''server-response'' then set_plan (epServerResp_update (\<lambda>_. True)) p
      else if name = ''continue'' then set_plan (epContinueMode_update (\<lambda>_. ContinueAuto)) p
      else if name = ''no-clobber'' then set_plan (epNoClobber_update (\<lambda>_. True)) p
      else if name = ''timestamping'' then set_plan (epTimestampMode_update (\<lambda>_. TimestampCheck)) p
      else if name = ''background'' then set_plan (epBackground_update (\<lambda>_. BackgroundChild)) p
      else if name = ''retry-connrefused'' then set_plan (epRetryConnRefused_update (\<lambda>_. True)) p
      else if name = ''content-disposition'' then set_plan (epContentDisposition_update (\<lambda>_. True)) p
      else if name = ''no-use-server-timestamps''
      then set_plan (epNoUseServerTimestamps_update (\<lambda>_. True)) p
      else if name = ''spider'' then set_plan (epSpider_update (\<lambda>_. True)) p
      else if name = ''no-check-certificate'' then set_plan (epInsecureSkipVerify_update (\<lambda>_. True)) p
      else if name = ''ftps-implicit'' then set_plan (epFTPSImplicit_update (\<lambda>_. True)) p
      else if name = ''no-parallel'' then set_plan (epNoParallel_update (\<lambda>_. True)) p
      else Ret p)"

definition set_option ::
  "(string \<Rightarrow> duration option) \<Rightarrow> cli_option \<Rightarrow> string \<Rightarrow> parser \<Rightarrow> (cli_stop, parser) res" where
  "set_option secs o' v p =
     (let name = oLong o' in
      if name = ''output-file''
      then set_plan (\<lambda>e. e\<lparr>epLogMode := LogFile, epLogFile := v\<rparr>) p
      else if name = ''append-output''
      then set_plan (\<lambda>e. e\<lparr>epLogMode := LogAppend, epLogFile := v\<rparr>) p
      else if name = ''output-document''
      then set_plan (\<lambda>e. e\<lparr>epOutputFile := v,
             epOutputMode := (if v = ''-'' then OutputStdout else OutputSingle)\<rparr>) p
      else if name = ''input-file'' then set_plan (\<lambda>e. e\<lparr>epInputFile := v\<rparr>) p
      else if name = ''tries''
      then (case parse_int v of
              Some n \<Rightarrow> if n < 1 then Err (ErrTries v) else set_plan (\<lambda>e. e\<lparr>epMaxTries := n\<rparr>) p
            | None \<Rightarrow> Err (ErrTries v))
      else if name = ''timeout''
      then (case secs v of Some d \<Rightarrow> set_plan (\<lambda>e. e\<lparr>epTimeout := d\<rparr>) p | None \<Rightarrow> Err (ErrTimeout v))
      else if name = ''connect-timeout''
      then (case secs v of Some d \<Rightarrow> set_plan (\<lambda>e. e\<lparr>epConnectTimeout := d\<rparr>) p | None \<Rightarrow> Err (ErrTimeout v))
      else if name = ''read-timeout''
      then (case secs v of Some d \<Rightarrow> set_plan (\<lambda>e. e\<lparr>epReadTimeout := d\<rparr>) p | None \<Rightarrow> Err (ErrTimeout v))
      else if name = ''retry-on-http-error''
      then res_bind (parse_codes (split_on (CHR '','') v))
             (\<lambda>ns. set_plan (\<lambda>e. e\<lparr>epRetryOnHTTPError := epRetryOnHTTPError e @ ns\<rparr>) p)
      else if name = ''progress'' then set_plan (\<lambda>e. e\<lparr>epProgressType := v\<rparr>) p
      else if name = ''header'' then Ret (p\<lparr>paHeaders := paHeaders p @ [v]\<rparr>)
      else if name = ''user-agent'' then set_plan (\<lambda>e. e\<lparr>epUserAgent := v\<rparr>) p
      else if name = ''referer'' then set_plan (\<lambda>e. e\<lparr>epReferer := v\<rparr>) p
      else if name = ''connections''
      then (case parse_int v of
              Some n \<Rightarrow> if n < 1 then Err (ErrConnections v) else set_plan (\<lambda>e. e\<lparr>epConnections := n\<rparr>) p
            | None \<Rightarrow> Err (ErrConnections v))
      else if name = ''split-size''
      then (case parse_size v of
              Some n \<Rightarrow> set_plan (\<lambda>e. e\<lparr>epSplitSize := n\<rparr>) p | None \<Rightarrow> Err (ErrSplitSize v))
      else if name = ''buffer-size''
      then (case parse_size v of
              Some n \<Rightarrow> set_plan (\<lambda>e. e\<lparr>epBufferSize := n\<rparr>) p | None \<Rightarrow> Err (ErrBufferSize v))
      else set_flag name p)"

section \<open>Parsing options\<close>

text \<open>Each returns the parser and how many of the following arguments it consumed.\<close>

definition parse_long_option ::
  "(string \<Rightarrow> duration option) \<Rightarrow> string \<Rightarrow> string list \<Rightarrow> parser \<Rightarrow> (cli_stop, parser \<times> nat) res" where
  "parse_long_option secs arg rest p =
     (let (name, v) = (case split_two (CHR ''='') (drop 2 arg) of
             None \<Rightarrow> (drop 2 arg, []) | Some nv \<Rightarrow> nv)
      in case opt_by_name name of
           None \<Rightarrow> Err (ErrUnrecognized name)
         | Some o' \<Rightarrow>
             if v = [] \<and> oArg o' \<noteq> [] then
               (case rest of
                  [] \<Rightarrow> Err (ErrLongNeedsArg name)
                | w # _ \<Rightarrow> res_bind (set_option secs o' w p) (\<lambda>p'. Ret (p', 1)))
             else res_bind (set_option secs o' v p) (\<lambda>p'. Ret (p', 0)))"

text \<open>\<open>utf8.DecodeRuneInString\<close>: the length of a well-formed sequence of more than one byte at
  the start of a text; 0 for what decodes to \<open>RuneError\<close>.\<close>

definition byte_in :: "nat \<Rightarrow> nat \<Rightarrow> char \<Rightarrow> bool" where
  "byte_in a b c \<longleftrightarrow> a \<le> of_char c \<and> of_char c \<le> b"

definition multibyte :: "string \<Rightarrow> nat" where
  "multibyte s =
     (case s of
        c # d # r \<Rightarrow>
          if byte_in 0xC2 0xDF c \<and> byte_in 0x80 0xBF d then 2
          else (case r of
            [] \<Rightarrow> 0
          | e # r' \<Rightarrow>
              if take 3 s = [CHR 0xEF, CHR 0xBF, CHR 0xBD] then 0
              else if byte_in 0x80 0xBF e \<and>
                (byte_in 0xE0 0xE0 c \<and> byte_in 0xA0 0xBF d \<or>
                 byte_in 0xED 0xED c \<and> byte_in 0x80 0x9F d \<or>
                 byte_in 0xE1 0xEF c \<and> \<not> byte_in 0xED 0xED c \<and> byte_in 0x80 0xBF d) then 3
              else (case r' of
                [] \<Rightarrow> 0
              | f # _ \<Rightarrow>
                  if byte_in 0x80 0xBF e \<and> byte_in 0x80 0xBF f \<and>
                    (byte_in 0xF0 0xF0 c \<and> byte_in 0x90 0xBF d \<or>
                     byte_in 0xF4 0xF4 c \<and> byte_in 0x80 0x8F d \<or>
                     byte_in 0xF1 0xF3 c \<and> byte_in 0x80 0xBF d) then 4
                  else 0))
      | _ \<Rightarrow> 0)"

fun short_loop ::
  "(string \<Rightarrow> duration option) \<Rightarrow> string \<Rightarrow> string list \<Rightarrow> parser \<Rightarrow> (cli_stop, parser \<times> nat) res" where
  "short_loop secs [] rest p = Ret (p, 0)"
| "short_loop secs (c # cs) rest p =
     (if byte_in 0x80 0xFF c then
        (if multibyte (c # cs) = 0 then short_loop secs cs rest p
         else Err (ErrInvalidShort (take (multibyte (c # cs)) (c # cs))))
      else case opt_by_short c of
        None \<Rightarrow> Err (ErrInvalidShort [c])
      | Some o' \<Rightarrow>
          if oArg o' = [] then res_bind (set_option secs o' [] p) (short_loop secs cs rest)
          else if cs \<noteq> [] then res_bind (set_option secs o' cs p) (\<lambda>p'. Ret (p', 0))
          else (case rest of
                  [] \<Rightarrow> Err (ErrShortNeedsArg c)
                | w # _ \<Rightarrow> res_bind (set_option secs o' w p) (\<lambda>p'. Ret (p', 1))))"

definition set_named ::
  "(string \<Rightarrow> duration option) \<Rightarrow> string \<Rightarrow> parser \<Rightarrow> (cli_stop, parser) res" where
  "set_named secs name p =
     (case opt_by_name name of None \<Rightarrow> Err (ErrUnrecognized name) | Some o' \<Rightarrow> set_option secs o' [] p)"

definition parse_short_options ::
  "(string \<Rightarrow> duration option) \<Rightarrow> string \<Rightarrow> string list \<Rightarrow> parser \<Rightarrow> (cli_stop, parser \<times> nat) res" where
  "parse_short_options secs flags rest p =
     (if flags = ''nc''
      then res_bind (set_named secs ''no-clobber'' p)
             (\<lambda>p1. res_bind (set_named secs ''continue'' p1) (\<lambda>p2. Ret (p2, 0)))
      else if flags = ''nv'' then res_bind (set_named secs ''no-verbose'' p) (\<lambda>p1. Ret (p1, 0))
      else short_loop secs flags rest p)"

text \<open>The loop over the arguments; after \<open>--\<close> everything is positional.\<close>

function parse_options ::
  "(string \<Rightarrow> duration option) \<Rightarrow> string list \<Rightarrow> parser \<Rightarrow> (cli_stop, parser \<times> string list) res" where
  "parse_options secs [] p = Ret (p, [])"
| "parse_options secs (arg # rest) p =
     (let positional = res_bind (parse_options secs rest p) (\<lambda>(p', pos). Ret (p', arg # pos))
      in if arg = ''--'' then Ret (p, rest)
         else if arg = ''-'' then positional
         else if has_prefix arg ''--'' then
           res_bind (parse_long_option secs arg rest p)
             (\<lambda>(p', k). parse_options secs (drop k rest) p')
         else if has_prefix arg ''-'' \<and> length arg > 1 then
           (if is_negative_number arg then positional
            else res_bind (parse_short_options secs (drop 1 arg) rest p)
                   (\<lambda>(p', k). parse_options secs (drop k rest) p'))
         else positional)"
  by pat_completeness auto

termination
  by (relation "measure (\<lambda>(secs, args, p). length args)") auto

section \<open>Validation and Parse\<close>

text \<open>\<open>p.plan.ExtraHeaders[k] = v\<close> for every header, in order.\<close>

fun add_headers :: "string list \<Rightarrow> (string \<times> string) list \<Rightarrow> (cli_stop, (string \<times> string) list) res" where
  "add_headers [] m = Ret m"
| "add_headers (h # hs) m =
     (case split_two (CHR '':'') h of
        None \<Rightarrow> Err (ErrHeaderFormat h)
      | Some (k, v) \<Rightarrow>
          add_headers hs ((trim_space k, trim_space v) # filter (\<lambda>(k', _). k' \<noteq> trim_space k) m))"

definition validate :: "parser \<Rightarrow> (cli_stop, execution_plan) res" where
  "validate p =
     (let e = paPlan p in
      if epBackground e = BackgroundChild \<and> epOutputMode e = OutputStdout then Err ErrBackgroundStdout
      else res_bind (add_headers (paHeaders p) []) (\<lambda>hs.
        let e1 = e\<lparr>epExtraHeaders := hs\<rparr> in
        if epBufferSize e1 < epSplitSize e1
        then Err (ErrBufferTooSmall (epBufferSize e1) (epSplitSize e1))
        else
          let e2 = (if epNoParallel e1 then e1\<lparr>epConnections := 1\<rparr> else e1)
          in if epOutputMode e2 = OutputStdout \<and> epContinueMode e2 = ContinueAuto
             then Err ErrContinueStdout else Ret e2))"

definition input_urls :: "string \<Rightarrow> string list" where
  "input_urls content =
     filter (\<lambda>l. l \<noteq> [] \<and> \<not> has_prefix l ''#'') (map trim_space (split_on (CHR 0x0A) content))"

definition cli_parse ::
  "(string \<Rightarrow> duration option) \<Rightarrow> (string \<Rightarrow> string option) \<Rightarrow> string list \<Rightarrow>
     (cli_stop, execution_plan) res" where
  "cli_parse secs readFile args =
     res_bind (parse_options secs args \<lparr>paPlan = default_plan, paHeaders = []\<rparr>) (\<lambda>(p, remaining).
       let e = (paPlan p)\<lparr>epURLs := filter (\<lambda>a. a \<noteq> ''-'') remaining\<rparr>
       in if epInputFile e = [] then validate (p\<lparr>paPlan := e\<rparr>)
          else case readFile (epInputFile e) of
            None \<Rightarrow> Err (ErrInputFile (epInputFile e))
          | Some content \<Rightarrow>
              validate (p\<lparr>paPlan := e\<lparr>epURLs := epURLs e @ input_urls content\<rparr>\<rparr>))"

end
