(* ===== verification/Cli_Props.thy ===== *)
theory Cli_Props
  imports Cli_Parser Chunk_Plan
begin

text \<open>
  The properties of the command-line parser: what holds of every plan it returns, how
  positional arguments and sizes are read, and closed runs for the inputs on which it accepts
  a value that the planner cannot use or takes a URL for an option's argument.
\<close>

section \<open>Every setter keeps the counts positive\<close>

definition counts_ok :: "parser \<Rightarrow> bool" where
  "counts_ok p \<longleftrightarrow> 1 \<le> epConnections (paPlan p) \<and> 1 \<le> epMaxTries (paPlan p)"

lemma set_flag_counts: "set_flag name p = Ret q \<Longrightarrow> counts_ok p \<Longrightarrow> counts_ok q"
  by (auto simp: set_flag_def set_plan_def counts_ok_def split: if_splits)

lemma set_option_counts: "set_option secs o' v p = Ret q \<Longrightarrow> counts_ok p \<Longrightarrow> counts_ok q"
  using set_flag_counts [of "oLong o'" p q]
  by (auto simp: set_option_def set_plan_def counts_ok_def Let_def res_bind_Ret
      split: if_splits option.splits)

lemma parse_long_counts:
  "parse_long_option secs arg rest p = Ret (q, k) \<Longrightarrow> counts_ok p \<Longrightarrow> counts_ok q"
  by (auto simp: parse_long_option_def Let_def res_bind_Ret dest: set_option_counts
      split: option.splits if_splits prod.splits list.splits)

lemma short_loop_counts:
  "short_loop secs flags rest p = Ret (q, k) \<Longrightarrow> counts_ok p \<Longrightarrow> counts_ok q"
  by (induction flags arbitrary: p)
     (auto simp: res_bind_Ret dest: set_option_counts split: option.splits if_splits list.splits)

lemma parse_short_counts:
  "parse_short_options secs flags rest p = Ret (q, k) \<Longrightarrow> counts_ok p \<Longrightarrow> counts_ok q"
  by (auto simp: parse_short_options_def set_named_def res_bind_Ret
      dest: set_option_counts short_loop_counts split: option.splits if_splits)

lemma parse_options_counts:
  "parse_options secs args p = Ret (q, pos) \<Longrightarrow> counts_ok p \<Longrightarrow> counts_ok q"
proof (induction secs args p arbitrary: q pos rule: parse_options.induct)
  case (2 secs arg rest p)
  show ?case
  proof (cases "arg = ''--''")
    case False
    then show ?thesis
      using 2 by (auto simp: Let_def res_bind_Ret dest: parse_long_counts parse_short_counts
          split: if_splits)
  qed (use 2 in simp)
qed simp

section \<open>Positional arguments\<close>

lemma validate_fields:
  assumes "validate p = Ret e"
  shows "epURLs e = epURLs (paPlan p)" and "epSplitSize e = epSplitSize (paPlan p)"
    and "epSplitSize e \<le> epBufferSize e"
    and "epNoParallel e \<Longrightarrow> epConnections e = 1"
    and "\<not> epNoParallel e \<Longrightarrow> epConnections e = epConnections (paPlan p)"
    and "epMaxTries e = epMaxTries (paPlan p)"
    and "epOutputMode e = OutputStdout \<Longrightarrow> epContinueMode e = ContinueNone \<and> epBackground e = BackgroundNone"
  using assms
  by (auto simp: validate_def Let_def res_bind_Ret split: if_splits)
     (metis continue_mode.exhaust background_mode.exhaust)+

section \<open>Sizes\<close>

lemma has_suffix_rev: "has_suffix s v \<longleftrightarrow> take (length v) (rev s) = rev v"
proof -
  have "length v \<le> length s" if "drop (length s - length v) s = v"
    using arg_cong [OF that, of length] by simp
  then show ?thesis by (auto simp: has_suffix_def take_rev)
qed

lemma upper_digit: "is_digit c \<Longrightarrow> upper_char c = c"
  by (auto simp: upper_char_def is_digit_def less_eq_char_def)

text \<open>The units and what they stand for.\<close>

definition size_units :: "(string \<times> int) list" where
  "size_units =
     [([], 1), (''K'', 1024), (''k'', 1024), (''KB'', 1024), (''kb'', 1024), (''M'', 1048576), (''m'', 1048576),
      (''MB'', 1048576), (''MiB'', 1048576), (''G'', 1073741824), (''g'', 1073741824), (''GB'', 1073741824),
      (''GiB'', 1073741824)]"

lemma digits_text:
  assumes "0 \<le> n"
  obtains d r where "rev (fmt_int n) = d # r" and "is_digit d" and "list_all is_digit (fmt_int n)"
    and "fmt_int n \<noteq> []"
proof -
  have f: "fmt_int n \<noteq> []" "list_all is_digit (fmt_int n)"
    using fmt_nat_digits [of "nat n"] assms by (simp_all add: fmt_int_nonneg)
  then obtain d r where dr: "rev (fmt_int n) = d # r" by (cases "rev (fmt_int n)") auto
  then have "d \<in> set (fmt_int n)" by (metis list.set_intros(1) set_rev)
  then have "is_digit d" using f by (simp add: list_all_iff)
  with dr f show ?thesis using that by blast
qed

lemma digit_no_letter:
  "is_digit d \<Longrightarrow> d \<noteq> CHR ''K'' \<and> d \<noteq> CHR ''M'' \<and> d \<noteq> CHR ''G'' \<and> d \<noteq> CHR ''B'' \<and> d \<noteq> CHR ''I''"
  by (auto simp: is_digit_def less_eq_char_def)

lemma unit_multiplier:
  assumes "(u, m) \<in> set size_units" and "rev ds = d # r" and "is_digit d"
  shows "size_multiplier (ds @ to_upper u) = m"
proof -
  have "to_upper [] = []" "to_upper ''K'' = ''K''" "to_upper ''k'' = ''K''" "to_upper ''KB'' = ''KB''"
    "to_upper ''kb'' = ''KB''" "to_upper ''M'' = ''M''" "to_upper ''m'' = ''M''" "to_upper ''MB'' = ''MB''"
    "to_upper ''MiB'' = ''MIB''" "to_upper ''G'' = ''G''" "to_upper ''g'' = ''G''" "to_upper ''GB'' = ''GB''"
    "to_upper ''GiB'' = ''GIB''" by code_simp+
  then show ?thesis
    using assms(1) assms(2) digit_no_letter [OF assms(3)]
    by (auto simp: size_units_def size_multiplier_def has_suffix_rev)
qed

lemma unit_letters:
  assumes "(u, m) \<in> set size_units"
  shows "set u \<inter> space_bytes = {}" and "to_upper u = [] \<or> \<not> is_digit (hd (to_upper u))"
proof -
  have "list_all (\<lambda>(u, m). list_all (\<lambda>c. \<not> list_ex (\<lambda>sp. c \<in> set sp) go_spaces) u \<and>
      (to_upper u = [] \<or> \<not> is_digit (hd (to_upper u)))) size_units"
    by code_simp
  with assms show "set u \<inter> space_bytes = {}" "to_upper u = [] \<or> \<not> is_digit (hd (to_upper u))"
    by (auto simp: list_all_iff list_ex_iff space_bytes_def)
qed

section \<open>Properties\<close>

text \<open>C25: every plan that \<open>Parse\<close> returns has at least one connection and one try, a buffer at
  least as large as a chunk, one connection when parallel retrieval is off, and neither
  continues nor detaches with output to stdout.\<close>

theorem parsed_plan_valid:
  assumes "cli_parse secs readFile args = Ret e"
  shows "1 \<le> epConnections e \<and> 1 \<le> epMaxTries e \<and> epSplitSize e \<le> epBufferSize e \<and>
    (epNoParallel e \<longrightarrow> epConnections e = 1) \<and>
    (epOutputMode e = OutputStdout \<longrightarrow>
       epContinueMode e = ContinueNone \<and> epBackground e = BackgroundNone)"
proof -
  have c0: "counts_ok \<lparr>paPlan = default_plan, paHeaders = []\<rparr>"
    by (simp add: counts_ok_def default_plan_def default_connections_def default_max_tries_def)
  obtain p pos q where p: "parse_options secs args \<lparr>paPlan = default_plan, paHeaders = []\<rparr> = Ret (p, pos)"
    and q: "validate q = Ret e" "epConnections (paPlan q) = epConnections (paPlan p)"
      "epMaxTries (paPlan q) = epMaxTries (paPlan p)"
    using assms by (auto simp: cli_parse_def res_bind_Ret Let_def split: if_splits option.splits)
  have "counts_ok p" by (rule parse_options_counts [OF p c0])
  then show ?thesis
    using validate_fields [OF q(1)] q(2,3) by (cases "epNoParallel e") (auto simp: counts_ok_def)
qed

theorem parsed_plan_valid_witness:
  "\<exists>e. cli_parse (\<lambda>s. None) (\<lambda>f. None) [''--connections'', ''4'', ''-t3'', ''u''] = Ret e \<and>
     1 \<le> epConnections e \<and> epURLs e = [''u'']"
proof -
  have "(case cli_parse (\<lambda>s. None) (\<lambda>f. None) [''--connections'', ''4'', ''-t3'', ''u''] of
      Ret e \<Rightarrow> epURLs e = [''u''] | _ \<Rightarrow> False)" by code_simp
  then obtain e where e: "cli_parse (\<lambda>s. None) (\<lambda>f. None) [''--connections'', ''4'', ''-t3'', ''u''] = Ret e"
    "epURLs e = [''u'']" by (auto split: res.splits)
  from parsed_plan_valid [OF e(1)] e show ?thesis by blast
qed

text \<open>arguments that do not begin with a dash, and all arguments after \<open>--\<close> other than a
  single dash, are the URLs of the plan, in order, and change nothing else.\<close>

theorem urls_in_order:
  assumes "list_all (\<lambda>a. \<not> has_prefix a ''-'') urls"
  shows "cli_parse secs readFile (urls @ ''--'' # rest) =
    Ret (default_plan\<lparr>epURLs := urls @ filter (\<lambda>a. a \<noteq> ''-'') rest\<rparr>)"
proof -
  have one: "\<not> has_prefix a ''--'' \<and> a \<noteq> ''--'' \<and> a \<noteq> ''-''" if "\<not> has_prefix a ''-''" for a
    using that by (cases a) (auto simp: has_prefix_def)
  have "parse_options secs (urls @ ''--'' # rest) p = Ret (p, urls @ rest)" for p
    using assms
  proof (induction urls)
    case (Cons a us)
    then show ?case using one [of a] by simp
  qed simp
  moreover have "filter (\<lambda>a. a \<noteq> ''-'') urls = urls"
    using assms one by (auto simp: list_all_iff intro!: filter_True)
  ultimately show ?thesis
    by (simp add: cli_parse_def validate_def Let_def default_plan_def default_buffer_size_def
        default_split_size_def)
qed

theorem urls_in_order_witness:
  "cli_parse (\<lambda>s. None) (\<lambda>f. None) [''a'', ''--'', ''-b'', ''-''] =
     Ret (default_plan\<lparr>epURLs := [''a'', ''-b'']\<rparr>)"
  using urls_in_order [of "[''a'']" "\<lambda>s. None" "\<lambda>f. None" "[''-b'', ''-'']"]
  by (simp add: has_prefix_def)

text \<open>a decimal number with one of the documented units is read as that many bytes, as long
  as the product fits 64 bits.\<close>

theorem parse_size_units:
  assumes "(u, m) \<in> set size_units" and "0 \<le> n" and "n * m < 2 ^ 63" and "n < 2 ^ 63"
  shows "parse_size (fmt_int n @ u) = Some (n * m)"
proof -
  obtain d r where d: "rev (fmt_int n) = d # r" "is_digit d" "list_all is_digit (fmt_int n)"
    "fmt_int n \<noteq> []" by (rule digits_text [OF assms(2)])
  have m: "0 \<le> m" using assms(1) by (auto simp: size_units_def)
  have up: "to_upper (fmt_int n @ u) = fmt_int n @ to_upper u"
    using d(3) by (auto simp: to_upper_def list_all_iff upper_digit intro!: map_idI)
  have "set (fmt_int n @ u) \<inter> space_bytes = {}"
    using d(3) digit_not_space_byte unit_letters(1) [OF assms(1)] by (auto simp: list_all_iff)
  then have t: "trim_space (fmt_int n @ u) = fmt_int n @ u" by (rule trim_space_id)
  have "takeWhile is_digit (fmt_int n @ to_upper u) = fmt_int n @ takeWhile is_digit (to_upper u)"
    using d(3) by (intro takeWhile_append2) (auto simp: list_all_iff)
  also have "takeWhile is_digit (to_upper u) = []"
    using unit_letters(2) [OF assms(1)] by (cases "to_upper u") auto
  finally have w: "takeWhile is_digit (fmt_int n @ to_upper u) = fmt_int n" by simp
  have "parse_int (fmt_int n) = Some n"
    using assms(2,4) by (intro decimal.read_show) (simp add: in_i64_def)
  then show ?thesis
    using unit_multiplier [OF assms(1) d(1,2)] assms(2,3) m
    by (simp add: parse_size_def t up w i64_id_nonneg)
qed

theorem parse_size_units_witness:
  "parse_size ''16MiB'' = Some 16777216"
proof -
  have "fmt_int 16 = ''16''" by code_simp
  then show ?thesis using parse_size_units [of "''MiB''" 1048576 16] by (simp add: size_units_def)
qed

text \<open>a split size of zero passes the parser and its validation, and the plan of every
  non-empty object then panics.\<close>

theorem zero_split_accepted:
  assumes "\<not> has_prefix url ''-''"
  shows "\<exists>e. cli_parse secs readFile [''--split-size=0'', url] = Ret e \<and> epURLs e = [url] \<and>
    (\<forall>n. plan (epSplitSize e) n = (if n \<le> 0 then Some [] else None))"
proof -
  have sz: "parse_size ''0'' = Some 0" by code_simp
  have st: "set_option secs (opt ''split-size'' no_short ''SIZE'') ''0'' p =
      Ret (p\<lparr>paPlan := (paPlan p)\<lparr>epSplitSize := 0\<rparr>\<rparr>)" for p
    by (simp add: set_option_def opt_def sz set_plan_def)
  have "opt_by_name ''split-size'' = Some (opt ''split-size'' no_short ''SIZE'')"
    by (simp add: opt_by_name_def cli_options_def opt_def)
  then have "parse_long_option secs ''--split-size=0'' rest p =
      Ret (p\<lparr>paPlan := (paPlan p)\<lparr>epSplitSize := 0\<rparr>\<rparr>, 0)" for rest p
    using st by (simp add: parse_long_option_def)
  moreover have "url \<noteq> ''--''" "url \<noteq> ''-''" "\<not> has_prefix url ''--''"
    using assms by (cases url; auto simp: has_prefix_def)+
  ultimately have "cli_parse secs readFile [''--split-size=0'', url] =
      Ret (default_plan\<lparr>epSplitSize := 0, epURLs := [url]\<rparr>)"
    using assms
    by (simp add: cli_parse_def validate_def Let_def default_plan_def default_buffer_size_def
        has_prefix_def)
  then show ?thesis by (simp add: plan_zero_split_panics)
qed

theorem zero_split_accepted_witness:
  "\<exists>e. cli_parse (\<lambda>s. None) (\<lambda>f. None) [''--split-size=0'', ''http://h/f''] = Ret e \<and>
     plan (epSplitSize e) 10 = None"
  using zero_split_accepted [of "''http://h/f''" "\<lambda>s. None" "\<lambda>f. None"]
  by (auto simp: has_prefix_def)

text \<open>An option given an empty value takes the next argument as its value, here the URL; and
  the combined form \<open>-nc\<close>, unlike \<open>--no-clobber\<close>, also asks to continue. A size unit that the
  parser does not know is dropped silently.\<close>

lemma empty_value_takes_url:
  "cli_parse secs readFile [''--user-agent='', url] = Ret (default_plan\<lparr>epUserAgent := url\<rparr>)"
proof -
  have "opt_by_name ''user-agent'' = Some (opt ''user-agent'' no_short ''STRING'')"
    by (simp add: opt_by_name_def cli_options_def opt_def)
  then have "parse_long_option secs ''--user-agent='' [url] p =
      Ret (p\<lparr>paPlan := (paPlan p)\<lparr>epUserAgent := url\<rparr>\<rparr>, 1)" for p
    by (simp add: parse_long_option_def set_option_def opt_def set_plan_def)
  then show ?thesis
    by (simp add: cli_parse_def validate_def Let_def default_plan_def default_buffer_size_def
        default_split_size_def has_prefix_def)
qed

lemma no_clobber_short_form:
  "cli_parse (\<lambda>s. None) (\<lambda>f. None) [''-nc'', ''-O'', ''-'', ''u''] = Err ErrContinueStdout"
  by code_simp

lemma unknown_unit_dropped: "parse_size ''10KIB'' = Some 10"
  by code_simp

end
