(* ===== verification/Job_Setup.thy ===== *)
theory Job_Setup
  imports File_Sink Adapter Cli_Plan
begin

text \<open>
  The set-up of a parallel file job in \<open>internal/job/runner.go\<close>: the exit codes, the decision
  to resume from a sidecar (\<open>runOneJob\<close>), and the first half of \<open>downloadParallelFile\<close>,
  which plans the chunks, marks those already complete, writes the new sidecar and opens the
  file. \<open>file_run\<close> then interleaves the writes and marks of the workers with deaths of the
  process and resumed runs; \<open>file_sys_ok\<close>, that what the sidecar records is in the file, is
  kept by every such step.
\<close>

section \<open>Exit codes\<close>

datatype exit_code =
    ExitSuccess
  | ExitGenericError
  | ExitParseError
  | ExitIOError
  | ExitNetworkFail
  | ExitTLSError
  | ExitAuthError
  | ExitProtoError
  | ExitServerError

fun exit_num :: "exit_code \<Rightarrow> int" where
  "exit_num ExitSuccess = 0"
| "exit_num ExitGenericError = 1"
| "exit_num ExitParseError = 2"
| "exit_num ExitIOError = 3"
| "exit_num ExitNetworkFail = 4"
| "exit_num ExitTLSError = 5"
| "exit_num ExitAuthError = 6"
| "exit_num ExitProtoError = 7"
| "exit_num ExitServerError = 8"

section \<open>The decision to resume\<close>

text \<open>\<open>bitmap, _ := decodeBitmap(...)\<close>: an error leaves a nil bitmap. \<open>None\<close> is the panic of
  a zero split size or of a negative bitmap size.\<close>

definition completed_of_item :: "sc_item \<Rightarrow> nat list option" where
  "completed_of_item it =
     (case chunk_quot (itSplitSize it) (itLength it) of
        None \<Rightarrow> None
      | Some n \<Rightarrow>
          (case decode_bitmap (itCompletedBitmap it) n of
             Panic \<Rightarrow> None
           | Err _ \<Rightarrow> Some []
           | Ret bm \<Rightarrow> Some (filter (\<lambda>k. bm ! k) [0..<length bm])))"

fun completed_of_items :: "sc_item list \<Rightarrow> nat list option" where
  "completed_of_items [] = Some []"
| "completed_of_items (it # rest) =
     (case completed_of_item it of
        None \<Rightarrow> None
      | Some ks \<Rightarrow> map_option (append ks) (completed_of_items rest))"

text \<open>No sidecar; an invalid or outdated one, which is removed; or the completed chunks.
  \<open>None\<close> is a panic, also that of \<open>state.Items[0]\<close> without items.\<close>

datatype resume_decision = NoSidecar | StartFresh | ResumeFrom "nat list"

definition resume_check :: "int \<Rightarrow> manager \<Rightarrow> resume_decision option" where
  "resume_check remoteSize m =
     (if \<not> sc_exists m then Some NoSidecar
      else case fst (sc_load m) of
        Ret st \<Rightarrow>
          (case stItems st of
             [] \<Rightarrow> None
           | it # _ \<Rightarrow>
               if itLength it \<noteq> remoteSize then Some StartFresh
               else map_option ResumeFrom (completed_of_items (stItems st)))
      | _ \<Rightarrow> Some StartFresh)"

fun decision_chunks :: "resume_decision \<Rightarrow> nat list" where
  "decision_chunks (ResumeFrom ks) = ks"
| "decision_chunks _ = []"

fun decision_manager :: "bool \<Rightarrow> resume_decision \<Rightarrow> manager \<Rightarrow> manager" where
  "decision_manager removeOk StartFresh m = snd (sc_remove removeOk m)"
| "decision_manager removeOk _ m = m"

section \<open>The set-up of a parallel file job\<close>

definition mark_completed :: "nat list \<Rightarrow> chunk list \<Rightarrow> chunk list" where
  "mark_completed ks cs =
     map (\<lambda>c. if cIndex c \<in> int ` set ks then c\<lparr>cState := StateCompleted\<rparr> else c) cs"

definition pending_count :: "chunk list \<Rightarrow> nat" where
  "pending_count cs = count_if (\<lambda>c. cState c \<noteq> StateCompleted) cs"

definition resume_bits :: "nat \<Rightarrow> nat list \<Rightarrow> bool list" where
  "resume_bits n ks = map (\<lambda>i. i \<in> set ks) [0..<n]"

definition new_item ::
  "execution_plan \<Rightarrow> (string \<Rightarrow> bytes) \<Rightarrow> string \<Rightarrow> string \<Rightarrow> probe_result \<Rightarrow> int \<Rightarrow> bool list \<Rightarrow> sc_item"
where
  "new_item p sha url display r baseOff bm =
     \<lparr>itSourceURLHash = hash_url sha url, itFinalURLHash = hash_url sha (omFinalURL (prMeta r)),
      itDisplayURL = display, itOutputOffset = baseOff, itLength = prSize r,
      itSplitSize = epSplitSize p, itETag = prETag r, itLastModified = prLastModified r,
      itRemoteMtimeUnix = 0, itCompletedBitmap = encode_bitmap bm, itComplete = False\<rparr>"

datatype file_setup =
    SetupComplete manager
  | SetupFailed exit_code manager
  | SetupRun file_sink "chunk list"

text \<open>What the environment contributes: the clock, the outcome of the sidecar's write, whether
  the sidecar can be removed and the file opened, and the file's present content.\<close>

record setup_env =
  seNow :: gtime
  seWrite :: write_outcome
  seRemoveOk :: bool
  seOpenOk :: bool
  seExisting :: "bytes option"

definition parallel_file_setup ::
  "execution_plan \<Rightarrow> (string \<Rightarrow> bytes) \<Rightarrow> setup_env \<Rightarrow> string \<Rightarrow> string \<Rightarrow> string \<Rightarrow> probe_result \<Rightarrow>
     int \<Rightarrow> nat list \<Rightarrow> manager \<Rightarrow> file_setup option" where
  "parallel_file_setup p sha env url display dest r baseOff completed m =
     (case plan (epSplitSize p) (prSize r) of
        None \<Rightarrow> None
      | Some cs \<Rightarrow>
          let chunks = mark_completed completed cs
          in if pending_count chunks = 0
             then Some (SetupComplete (snd (sc_remove (seRemoveOk env) m)))
             else
               let it = new_item p sha url display r baseOff (resume_bits (length cs) completed)
               in case sc_create (seNow env) (seWrite env) dest (hash_url_list sha [url]) [it] m of
                    (Panic, m') \<Rightarrow> None
                  | (Err _, m') \<Rightarrow> Some (SetupFailed ExitIOError m')
                  | (Ret _, m') \<Rightarrow>
                      (case new_file_sink (seOpenOk env) (seExisting env) dest baseOff (Some m') of
                         Ret fs \<Rightarrow> Some (SetupRun fs chunks)
                       | _ \<Rightarrow> Some (SetupFailed ExitIOError m')))"

section \<open>Set-up and resume keep what is recorded sound\<close>

lemma completed_of_item_recorded:
  "completed_of_item it = Some ks \<Longrightarrow> set ks = set (recorded it)"
  by (auto simp: completed_of_item_def recorded_def split: option.splits res.splits)

lemma resume_check_sound:
  assumes "doc_sound obj cs base file (mgFile m)" and "resume_check n m = Some d"
    and "k \<in> set (decision_chunks d)" and "k < length cs"
  shows "chunk_safe obj base file (cs ! k)"
proof -
  obtain st where st: "mgFile m = Some (Doc st)"
  proof (cases "mgFile m")
    case (Some f)
    then show ?thesis
      using assms(2,3) that by (cases f) (auto simp: resume_check_def sc_exists_def sc_load_def)
  qed (use assms(2,3) in \<open>auto simp: resume_check_def sc_exists_def\<close>)
  then obtain it where it: "stItems st = [it]" "item_sound obj cs base file it"
    using assms(1) by auto
  have "k \<in> set (recorded it)"
    using assms(2,3) st it(1)
    by (auto simp: resume_check_def sc_exists_def sc_load_def completed_of_item_recorded
        split: if_splits option.splits)
  with it(2) assms(4) show ?thesis by (simp add: item_sound_def)
qed

lemma recorded_resume_bits:
  assumes "plan_ok (itSplitSize it) (itLength it)"
    and "itCompletedBitmap it = encode_bitmap (resume_bits (item_chunks it) ks)"
  shows "item_ok it" and "set (recorded it) = set ks \<inter> {..<item_chunks it}"
proof -
  let ?n = "item_chunks it"
  show ok: "item_ok it"
    using assms by (simp add: item_ok_def encode_bitmap_def decode_encode)
  have q: "chunk_quot (itSplitSize it) (itLength it) = Some (int ?n)"
    using assms(1) by (simp add: item_chunks_def chunk_quot_ok)
  have dec: "decode_bitmap (itCompletedBitmap it) (int ?n) =
      Ret (pad_bits (padded_size ?n (int ?n)) (resume_bits ?n ks))"
    using decode_encode_bitmap [of "resume_bits ?n ks" "int ?n"] assms(2)
    by (simp add: resume_bits_def)
  show "set (recorded it) = set ks \<inter> {..<?n}"
    by (auto simp: recorded_def q dec nth_pad_bits resume_bits_def padded_size_def)
qed

definition sized_for :: "execution_plan \<Rightarrow> probe_result \<Rightarrow> int \<Rightarrow> bytes \<Rightarrow> chunk list \<Rightarrow> bool" where
  "sized_for p r baseOff obj cs \<longleftrightarrow>
     plan_ok (epSplitSize p) (prSize r) \<and> plan (epSplitSize p) (prSize r) = Some cs \<and>
     prSize r = int (length obj) \<and> 0 \<le> baseOff \<and> baseOff + int (length obj) < 2 ^ 63"

lemma new_item_sound:
  assumes sz: "sized_for p r baseOff obj cs"
    and safe: "\<forall>k \<in> set ks. k < length cs \<longrightarrow> chunk_safe obj baseOff file (cs ! k)"
  shows "item_sound obj cs baseOff file
    (new_item p sha url display r baseOff (resume_bits (length cs) ks))"
proof -
  let ?it = "new_item p sha url display r baseOff (resume_bits (length cs) ks)"
  have n: "item_chunks ?it = length cs"
    using sz by (auto simp: sized_for_def item_chunks_def new_item_def plan_eq)
  have "plan_ok (itSplitSize ?it) (itLength ?it)"
    using sz by (auto simp: sized_for_def new_item_def)
  from recorded_resume_bits [OF this, of ks] n safe sz show ?thesis
    by (auto simp: item_sound_def sized_for_def) (auto simp: new_item_def)
qed

text \<open>A job set up with completed chunks that are in the file starts sound.\<close>

lemma parallel_file_setup_sound:
  assumes sz: "sized_for p r baseOff obj cs"
    and doc: "doc_sound obj cs baseOff file (mgFile m)"
    and ex: "file = (case seExisting env of None \<Rightarrow> [] | Some d \<Rightarrow> d)"
    and safe: "\<forall>k \<in> set ks. k < length cs \<longrightarrow> chunk_safe obj baseOff file (cs ! k)"
    and run: "parallel_file_setup p sha env url display dest r baseOff ks m = Some (SetupRun fs chunks)"
  shows "file_sound obj cs fs" and "fsData fs = file" and "fsBaseOff fs = baseOff"
    and "chunks = mark_completed ks cs"
proof -
  let ?it = "new_item p sha url display r baseOff (resume_bits (length cs) ks)"
  note it = new_item_sound [OF sz safe, of sha url display]
  have tl: "tiled_from 0 cs (int (length obj))"
    using sz plan_layout.mk_tiles [of "epSplitSize p" "prSize r" cs] by (auto simp: sized_for_def)
  have pl: "plan (epSplitSize p) (prSize r) = Some cs"
    using sz by (auto simp: sized_for_def)
  obtain m' where m': "sc_create (seNow env) (seWrite env) dest (hash_url_list sha [url]) [?it] m =
      (Ret (), m')" "new_file_sink (seOpenOk env) (seExisting env) dest baseOff (Some m') = Ret fs"
    and ch: "chunks = mark_completed ks cs"
    using run by (auto simp: parallel_file_setup_def pl Let_def split: if_splits prod.splits res.splits)
  show "chunks = mark_completed ks cs" by (rule ch)
  have fs: "fsData fs = file" "fsBaseOff fs = baseOff" "fsSidecar fs = Some m'"
    using m'(2) ex by (auto simp: new_file_sink_def split: if_splits)
  then show "fsData fs = file" "fsBaseOff fs = baseOff" by simp_all
  have "manager_sound obj cs baseOff file m'"
    using m'(1) it doc
    by (cases "seWrite env")
      (auto simp: sc_create_def write_locked_def manager_sound_def Let_def)
  then show "file_sound obj cs fs"
    using sz tl fs by (auto simp: file_sound_def sized_for_def)
qed

section \<open>Writes, deaths and resumed runs\<close>

text \<open>\<open>fyReady\<close> holds the chunks that some worker has written and not yet marked.\<close>

record file_sys =
  fyFs :: file_sink
  fyReady :: "chunk list"

datatype file_event =
    FeWrite chunk bytes "nat option"
  | FeMark nat gtime write_outcome
  | FeRestart setup_env string string string

text \<open>A write that fails ends its \<open>WriteChunk\<close>; a complete one goes on to its mark. A restart
  is a new process that finds the sidecar and the file as the last one left them, with the
  probe result \<open>r\<close> and the plan \<open>p\<close>.\<close>

definition file_restart ::
  "execution_plan \<Rightarrow> (string \<Rightarrow> bytes) \<Rightarrow> probe_result \<Rightarrow> setup_env \<Rightarrow> string \<Rightarrow> string \<Rightarrow> string \<Rightarrow>
     file_sys \<Rightarrow> file_sys" where
  "file_restart p sha r env url display dest y =
     (case fsSidecar (fyFs y) of
        None \<Rightarrow> y
      | Some m \<Rightarrow>
          let m0 = new_manager dest (mgFile m) (mgTmp m)
          in case resume_check (prSize r) m0 of
               None \<Rightarrow> y
             | Some d \<Rightarrow>
                 (case parallel_file_setup p sha (env\<lparr>seExisting := Some (fsData (fyFs y))\<rparr>)
                         url display dest r (fsBaseOff (fyFs y)) (decision_chunks d)
                         (decision_manager (seRemoveOk env) d m0) of
                    Some (SetupRun fs chunks) \<Rightarrow> \<lparr>fyFs = fs, fyReady = []\<rparr>
                  | _ \<Rightarrow> y))"

fun file_apply ::
  "execution_plan \<Rightarrow> (string \<Rightarrow> bytes) \<Rightarrow> probe_result \<Rightarrow> file_event \<Rightarrow> file_sys \<Rightarrow> file_sys" where
  "file_apply p sha r (FeWrite c data fault) y =
     (case write_part fault c data (fyFs y) of
        (Ret _, fs) \<Rightarrow> y\<lparr>fyFs := fs, fyReady := fyReady y @ [c]\<rparr>
      | (_, fs) \<Rightarrow> y\<lparr>fyFs := fs\<rparr>)"
| "file_apply p sha r (FeMark k now w) y =
     (if k < length (fyReady y)
      then y\<lparr>fyFs := snd (mark_part now w (fyReady y ! k) (fyFs y)),
             fyReady := take k (fyReady y) @ drop (Suc k) (fyReady y)\<rparr>
      else y)"
| "file_apply p sha r (FeRestart env url display dest) y =
     file_restart p sha r env url display dest y"

definition file_run ::
  "execution_plan \<Rightarrow> (string \<Rightarrow> bytes) \<Rightarrow> probe_result \<Rightarrow> file_event list \<Rightarrow> file_sys \<Rightarrow> file_sys" where
  "file_run p sha r es y = fold (file_apply p sha r) es y"

text \<open>Workers write the object's bytes of chunks of the plan.\<close>

fun fe_faithful :: "bytes \<Rightarrow> chunk list \<Rightarrow> file_event \<Rightarrow> bool" where
  "fe_faithful obj cs (FeWrite c data fault) \<longleftrightarrow> of_plan cs c \<and> data = chunk_bytes obj c"
| "fe_faithful obj cs _ \<longleftrightarrow> True"

definition file_sys_ok :: "bytes \<Rightarrow> chunk list \<Rightarrow> int \<Rightarrow> file_sys \<Rightarrow> bool" where
  "file_sys_ok obj cs baseOff y \<longleftrightarrow>
     file_sound obj cs (fyFs y) \<and> fsBaseOff (fyFs y) = baseOff \<and>
     (\<forall>c \<in> set (fyReady y). of_plan cs c \<and> chunk_safe obj baseOff (fsData (fyFs y)) c)"

lemma of_plan_start: "tiled_from 0 cs n \<Longrightarrow> of_plan cs c \<Longrightarrow> 0 \<le> cStart c"
  using plan_bounds by blast

lemma fe_write_ok:
  assumes ok: "file_sys_ok obj cs b y" and c: "of_plan cs c"
  shows "file_sys_ok obj cs b (file_apply p sha r (FeWrite c (chunk_bytes obj c) fault) y)"
proof -
  let ?fs = "snd (write_part fault c (chunk_bytes obj c) (fyFs y))"
  have snd: "file_sound obj cs (fyFs y)" and tl: "tiled_from 0 cs (int (length obj))"
    using ok by (auto simp: file_sys_ok_def file_sound_def)
  have fs: "file_sound obj cs ?fs" by (rule write_part_sound [OF snd c])
  have rdy: "\<forall>d \<in> set (fyReady y). of_plan cs d \<and> chunk_safe obj b (fsData ?fs) d"
  proof
    fix d assume "d \<in> set (fyReady y)"
    then have d: "of_plan cs d" "chunk_safe obj (fsBaseOff (fyFs y)) (fsData (fyFs y)) d"
      using ok by (auto simp: file_sys_ok_def)
    from write_part_keeps_safe [OF snd c of_plan_start [OF tl d(1)] d(2) refl] d(1) ok
    show "of_plan cs d \<and> chunk_safe obj b (fsData ?fs) d"
      by (simp add: file_sys_ok_def)
  qed
  have base: "fsBaseOff ?fs = b" using ok by (simp add: file_sys_ok_def)
  show ?thesis
  proof (cases "write_part fault c (chunk_bytes obj c) (fyFs y)")
    case (Pair res fs')
    then show ?thesis
      using fs rdy base c write_part_safe [OF snd c, of fault _ fs']
      by (cases res) (auto simp: file_sys_ok_def)
  qed
qed

lemma fe_mark_ok:
  assumes ok: "file_sys_ok obj cs b y"
  shows "file_sys_ok obj cs b (file_apply p sha r (FeMark k now w) y)"
proof (cases "k < length (fyReady y)")
  case True
  have c: "of_plan cs (fyReady y ! k)"
    "chunk_safe obj (fsBaseOff (fyFs y)) (fsData (fyFs y)) (fyReady y ! k)"
    using ok nth_mem [OF True] by (auto simp: file_sys_ok_def)
  moreover have "file_sound obj cs (fyFs y)" using ok by (simp add: file_sys_ok_def)
  ultimately have "file_sound obj cs (snd (mark_part now w (fyReady y ! k) (fyFs y)))"
    by (intro mark_part_sound)
  then show ?thesis
    using ok True by (auto simp: file_sys_ok_def dest: in_set_takeD in_set_dropD)
qed (use ok in simp)

lemma fe_restart_ok:
  assumes ok: "file_sys_ok obj cs b y" and sz: "sized_for p r b obj cs"
  shows "file_sys_ok obj cs b (file_restart p sha r env url display dest y)"
proof (cases "fsSidecar (fyFs y)")
  case (Some m)
  let ?m0 = "new_manager dest (mgFile m) (mgTmp m)"
  let ?env = "env\<lparr>seExisting := Some (fsData (fyFs y))\<rparr>"
  have base: "fsBaseOff (fyFs y) = b" using ok by (simp add: file_sys_ok_def)
  have doc: "doc_sound obj cs b (fsData (fyFs y)) (mgFile ?m0)"
    using ok Some base
    by (auto simp: file_sys_ok_def file_sound_def manager_sound_def new_manager_def)
  have keep: "file_sys_ok obj cs b \<lparr>fyFs = fs, fyReady = []\<rparr>"
    if d: "resume_check (prSize r) ?m0 = Some d"
      and su: "parallel_file_setup p sha ?env url display dest r b (decision_chunks d)
        (decision_manager (seRemoveOk env) d ?m0) = Some (SetupRun fs chunks)" for d fs chunks
  proof -
    have doc': "doc_sound obj cs b (fsData (fyFs y)) (mgFile (decision_manager (seRemoveOk env) d ?m0))"
      using doc by (cases d) (auto simp: sc_remove_def)
    have safe: "\<forall>k \<in> set (decision_chunks d). k < length cs \<longrightarrow>
        chunk_safe obj b (fsData (fyFs y)) (cs ! k)"
      using resume_check_sound [OF doc d] by blast
    have ex: "fsData (fyFs y) = (case seExisting ?env of None \<Rightarrow> [] | Some d \<Rightarrow> d)"
      by simp
    from parallel_file_setup_sound [OF sz doc' ex safe su] show ?thesis
      by (simp add: file_sys_ok_def)
  qed
  show ?thesis
    using Some ok keep base
    by (auto simp: file_restart_def Let_def split: option.split file_setup.split)
qed (use ok in \<open>simp add: file_restart_def\<close>)

lemma file_apply_ok:
  "file_sys_ok obj cs b y \<Longrightarrow> sized_for p r b obj cs \<Longrightarrow> fe_faithful obj cs e \<Longrightarrow>
     file_sys_ok obj cs b (file_apply p sha r e y)"
proof (cases e)
  case (FeRestart env url display dest)
  assume "file_sys_ok obj cs b y" "sized_for p r b obj cs"
  with FeRestart show ?thesis by (simp add: fe_restart_ok)
next
  case (FeWrite c data fault)
  assume "file_sys_ok obj cs b y" "fe_faithful obj cs e"
  with FeWrite show ?thesis using fe_write_ok by auto
next
  case (FeMark k now w)
  assume "file_sys_ok obj cs b y"
  with FeMark show ?thesis using fe_mark_ok by metis
qed

lemma file_run_ok:
  assumes "file_sys_ok obj cs b y" and "sized_for p r b obj cs"
    and "\<forall>e \<in> set es. fe_faithful obj cs e"
  shows "file_sys_ok obj cs b (file_run p sha r es y)"
  using assms unfolding file_run_def
  by (induction es arbitrary: y) (auto intro: file_apply_ok)

end
