(* ===== verification/Resume_Props.thy ===== *)
theory Resume_Props
  imports Job_Setup
begin

text \<open>
  What resume relies on: the completed chunks that a later run reads from the sidecar are in
  the file, after any interleaving of writes, marks and deaths; and one closed run that shows
  which part of the recorded state the code does not compare.
\<close>

section \<open>Properties\<close>


text \<open>An object of four bytes in chunks of two; chunk 1 is written and marked, chunk 0 written and
  not marked when the process dies.\<close>

definition demo_plan :: "int \<Rightarrow> execution_plan" where
  "demo_plan splitSize = default_plan\<lparr>epSplitSize := splitSize\<rparr>"

definition demo_probe :: probe_result where
  "demo_probe = zero_probe\<lparr>prSize := 4, prRangeCapable := True\<rparr>"

definition demo_sha :: "string \<Rightarrow> bytes" where
  "demo_sha s = []"

definition demo_env :: setup_env where
  "demo_env = \<lparr>seNow = 1, seWrite = WriteOk, seRemoveOk = True, seOpenOk = True,
     seExisting = None\<rparr>"

definition demo_setup :: "file_setup option" where
  "demo_setup = parallel_file_setup (demo_plan 2) demo_sha demo_env ''u'' ''u'' ''f'' demo_probe 0 []
     (new_manager ''f'' None None)"

fun setup_fs :: "file_setup option \<Rightarrow> file_sink option" where
  "setup_fs (Some (SetupRun fs cs)) = Some fs"
| "setup_fs _ = None"

definition demo_obj :: bytes where
  "demo_obj = [10, 20, 30, 40]"

definition demo_events :: "file_event list" where
  "demo_events =
     [FeWrite (plan_chunk 2 4 1) (chunk_bytes demo_obj (plan_chunk 2 4 1)) None,
      FeWrite (plan_chunk 2 4 0) (chunk_bytes demo_obj (plan_chunk 2 4 0)) (Some 1),
      FeMark 0 2 WriteOk,
      FeWrite (plan_chunk 2 4 0) (chunk_bytes demo_obj (plan_chunk 2 4 0)) None]"

definition demo_sys :: file_sys where
  "demo_sys = file_run (demo_plan 2) demo_sha demo_probe demo_events
     \<lparr>fyFs = the (setup_fs demo_setup), fyReady = []\<rparr>"

lemma demo_sized: "sized_for (demo_plan 2) demo_probe 0 demo_obj (map (plan_chunk 2 4) [0..<2])"
  by (simp add: sized_for_def demo_plan_def demo_probe_def plan_ok_def plan_eq n_chunks_def
      demo_obj_def)

lemma setup_fs_Some: "setup_fs x \<noteq> None \<Longrightarrow> \<exists>fs cs. x = Some (SetupRun fs cs)"
  by (cases x rule: setup_fs.cases) auto

lemma demo_sys_resume:
  "map_option (\<lambda>m. map_option decision_chunks
       (resume_check 4 (new_manager ''f'' (mgFile m) (mgTmp m)))) (fsSidecar (fyFs demo_sys)) =
     Some (Some [1])"
  by code_simp

lemma demo_setup_run: "\<exists>fs cs. demo_setup = Some (SetupRun fs cs)"
proof -
  have "setup_fs demo_setup \<noteq> None" by code_simp
  then show ?thesis by (rule setup_fs_Some)
qed

lemma demo_events_faithful: "\<forall>e \<in> set demo_events. fe_faithful demo_obj (map (plan_chunk 2 4) [0..<2]) e"
  by (simp add: demo_events_def of_plan_def in_range_def)


text \<open>A later run over the sidecar of a first one, with a split size of its own.\<close>

definition demo_half :: file_sys where
  "demo_half = file_run (demo_plan 2) demo_sha demo_probe (take 3 demo_events)
     \<lparr>fyFs = the (setup_fs demo_setup), fyReady = []\<rparr>"

definition demo_rerun :: "int \<Rightarrow> file_setup option" where
  "demo_rerun splitSize =
     (let m = the (fsSidecar (fyFs demo_half));
          m0 = new_manager ''f'' (mgFile m) (mgTmp m)
      in case resume_check 4 m0 of
           None \<Rightarrow> None
         | Some d \<Rightarrow>
             parallel_file_setup (demo_plan splitSize) demo_sha
               (demo_env\<lparr>seExisting := Some (fsData (fyFs demo_half))\<rparr>) ''u'' ''u'' ''f'' demo_probe 0
               (decision_chunks d) m0)"

fun setup_holds :: "bytes \<Rightarrow> nat \<Rightarrow> file_setup option \<Rightarrow> bool \<times> bool" where
  "setup_holds obj k (Some (SetupRun fs cs)) =
     (cState (cs ! k) = StateCompleted,
      subslice (fsData fs) (cStart (cs ! k)) (cLength (cs ! k)) = chunk_bytes obj (cs ! k))"
| "setup_holds obj k _ = (False, False)"

text \<open>The sidecar is accepted when its recorded length is the remote size, whatever its split
  size. Here the last two of four bytes are fetched in chunks of two; the resumed run has
  chunks of one byte, takes byte 1 for completed and will not fetch it, although the file
  does not hold it.\<close>

theorem resume_ignores_split_size:
  "setup_holds demo_obj 1 (demo_rerun 2) = (True, True) \<and>
   setup_holds demo_obj 1 (demo_rerun 1) = (True, False)"
proof
  show "setup_holds demo_obj 1 (demo_rerun 2) = (True, True)" by code_simp
  show "setup_holds demo_obj 1 (demo_rerun 1) = (True, False)" by code_simp
qed

end
