(* ===== verification/Workers.thy ===== *)
theory Workers
  imports Scheduler_Inv Stream_Sink_Props Job_Setup
begin

text \<open>
  The worker pool of \<open>internal/job/runner.go\<close>: \<open>workerLoop\<close> as a machine whose steps are
  the stretches between two accesses to shared state (the scheduler, the sink), so that any
  list of events is an interleaving of the workers, of the stream writer, of a cancellation
  and of the environment's answers; and \<open>runWorkers\<close>, which starts the workers, collects
  their errors and derives the exit code. The sink is a file or an ordered stream, as one of
  the two sink arguments of \<open>runWorkers\<close> is nil.
\<close>

section \<open>Workers\<close>

datatype job_sink = FileTo file_sink | StreamTo sink_sys

datatype worker_err =
    WCtx
  | WSched sched_err
  | WSubmit sink_err
  | WFile fs_err

text \<open>Where a worker is, with its slot, the position of its chunk and whether it holds a
  speculative duplicate. \<open>PCrash\<close> is a panic.\<close>

datatype worker_pc =
    PTop int
  | PHedge int int
  | PNext int
  | PReserve int nat
  | PFetch int nat bool
  | PAdmission int nat
  | PRetry int nat
  | PDropHedge int nat
  | PPut int nat bool bytes
  | PSidecar int nat bool
  | PAbort int nat worker_err
  | PHedgeWon int nat
  | PSuccess int nat
  | PMark int nat
  | PDone "worker_err option"
  | PCrash

text \<open>What the environment answers: the context is done, the request or the read of its body
  fails, the body, and how a file write and a sidecar update end.\<close>

datatype step_input =
    InOk
  | InCtxDone
  | InOpenFails
  | InReadFails
  | InBody bytes
  | InWrite "nat option"
  | InSidecar write_outcome

record job =
  jbSched :: sched
  jbSink :: job_sink
  jbProgress :: int

definition chunk_at :: "job \<Rightarrow> nat \<Rightarrow> chunk" where
  "chunk_at j k = sChunks (jbSched j) ! k"

definition on_sched :: "(sched \<Rightarrow> sched) \<Rightarrow> job \<Rightarrow> job" where
  "on_sched f j = j\<lparr>jbSched := f (jbSched j)\<rparr>"

fun hedge_candidate :: "gtime \<Rightarrow> job \<Rightarrow> int" where
  "hedge_candidate now j =
     (case jbSink j of
        FileTo _ \<Rightarrow> -1
      | StreamTo y \<Rightarrow>
          hedge_eligible now (nat (frontier_index (sySink y))) (reserved_bytes (sySink y))
            (buffer_size (sySink y)) (jbSched j))"

definition take_assignment :: "int \<Rightarrow> job \<Rightarrow> na_result \<Rightarrow> worker_pc" where
  "take_assignment slot j r =
     (case r of
        NAErr e \<Rightarrow> PDone (Some (WSched e))
      | NADone \<Rightarrow> PDone None
      | NAAssign k \<Rightarrow>
          (case jbSink j of FileTo _ \<Rightarrow> PFetch slot k False | StreamTo _ \<Rightarrow> PReserve slot k)
      | NABlock \<Rightarrow> PNext slot)"

definition reserve_step :: "int \<Rightarrow> nat \<Rightarrow> job \<Rightarrow> job \<times> worker_pc" where
  "reserve_step slot k j =
     (case jbSink j of
        FileTo _ \<Rightarrow> (j, PFetch slot k False)
      | StreamTo y \<Rightarrow>
          (case reserve (cLength (chunk_at j k)) (sySink y) of
             Inl _ \<Rightarrow> (j, PRetry slot k)
           | Inr s \<Rightarrow> (j\<lparr>jbSink := StreamTo (y\<lparr>sySink := s\<rparr>)\<rparr>, PFetch slot k False)))"

text \<open>The request and \<open>io.ReadFull\<close> into a buffer of the chunk's length.\<close>

definition fetch_step :: "step_input \<Rightarrow> int \<Rightarrow> nat \<Rightarrow> bool \<Rightarrow> job \<Rightarrow> worker_pc" where
  "fetch_step inp slot k hedge j =
     (case inp of
        InOpenFails \<Rightarrow> if hedge then PDropHedge slot k else PAdmission slot k
      | InReadFails \<Rightarrow> if hedge then PDropHedge slot k else PRetry slot k
      | InBody data \<Rightarrow>
          if int (length data) = cLength (chunk_at j k) then PPut slot k hedge data
          else PFetch slot k hedge
      | _ \<Rightarrow> PFetch slot k hedge)"

text \<open>\<open>Submit\<close> to the stream, or the write of \<open>WriteChunk\<close>.\<close>

definition put_step :: "step_input \<Rightarrow> int \<Rightarrow> nat \<Rightarrow> bool \<Rightarrow> bytes \<Rightarrow> job \<Rightarrow> job \<times> worker_pc" where
  "put_step inp slot k hedge data j =
     (case jbSink j of
        StreamTo y \<Rightarrow>
          (case submit (chunk_at j k) data (sySink y) of
             Inl e \<Rightarrow> (j, PAbort slot k (WSubmit e))
           | Inr s \<Rightarrow> (j\<lparr>jbSink := StreamTo (y\<lparr>sySink := s\<rparr>)\<rparr>,
                       if hedge then PHedgeWon slot k else PSuccess slot k))
      | FileTo fs \<Rightarrow>
          (case inp of
             InWrite fault \<Rightarrow>
               (case write_part fault (chunk_at j k) data fs of
                  (Ret _, fs') \<Rightarrow> (j\<lparr>jbSink := FileTo fs'\<rparr>, PSidecar slot k hedge)
                | (Err e, fs') \<Rightarrow> (j\<lparr>jbSink := FileTo fs'\<rparr>, PAbort slot k (WFile e))
                | (Panic, fs') \<Rightarrow> (j\<lparr>jbSink := FileTo fs'\<rparr>, PCrash))
           | _ \<Rightarrow> (j, PPut slot k hedge data)))"

text \<open>The second half of \<open>WriteChunk\<close>.\<close>

definition sidecar_step :: "gtime \<Rightarrow> step_input \<Rightarrow> int \<Rightarrow> nat \<Rightarrow> bool \<Rightarrow> job \<Rightarrow> job \<times> worker_pc" where
  "sidecar_step now inp slot k hedge j =
     (case (jbSink j, inp) of
        (FileTo fs, InSidecar w) \<Rightarrow>
          (case mark_part now w (chunk_at j k) fs of
             (Ret _, fs') \<Rightarrow>
               (j\<lparr>jbSink := FileTo fs'\<rparr>, if hedge then PHedgeWon slot k else PSuccess slot k)
           | (Err e, fs') \<Rightarrow> (j\<lparr>jbSink := FileTo fs'\<rparr>, PAbort slot k (WFile e))
           | (Panic, fs') \<Rightarrow> (j\<lparr>jbSink := FileTo fs'\<rparr>, PCrash))
      | _ \<Rightarrow> (j, PSidecar slot k hedge))"

fun worker_step :: "gtime \<Rightarrow> step_input \<Rightarrow> worker_pc \<Rightarrow> job \<Rightarrow> job \<times> worker_pc" where
  "worker_step now inp (PTop slot) j =
     (if inp = InCtxDone then (j, PDone (Some WCtx))
      else let i = hedge_candidate now j in (j, if i \<ge> 0 then PHedge slot i else PNext slot))"
| "worker_step now inp (PHedge slot i) j =
     (case start_hedge now i (jbSched j) of
        None \<Rightarrow> (j, PCrash)
      | Some (s, None) \<Rightarrow> (j\<lparr>jbSched := s\<rparr>, PNext slot)
      | Some (s, Some (k, hedgeSlot)) \<Rightarrow> (j\<lparr>jbSched := s\<rparr>, PFetch hedgeSlot k True))"
| "worker_step now inp (PNext slot) j =
     (case next_assignment now slot (jbSched j) of
        (s, r) \<Rightarrow> (j\<lparr>jbSched := s\<rparr>, take_assignment slot j r))"
| "worker_step now inp (PReserve slot k) j = reserve_step slot k j"
| "worker_step now inp (PFetch slot k hedge) j = (j, fetch_step inp slot k hedge j)"
| "worker_step now inp (PAdmission slot k) j =
     (on_sched (on_admission_failure now slot) j, PRetry slot k)"
| "worker_step now inp (PRetry slot k) j =
     (on_sched (mark_failed now (cIndex (chunk_at j k)) True) j, PTop slot)"
| "worker_step now inp (PDropHedge slot k) j =
     (on_sched (cancel_hedge (cIndex (chunk_at j k))) j, PTop slot)"
| "worker_step now inp (PPut slot k hedge data) j = put_step inp slot k hedge data j"
| "worker_step now inp (PSidecar slot k hedge) j = sidecar_step now inp slot k hedge j"
| "worker_step now inp (PAbort slot k e) j =
     (on_sched (mark_failed now (cIndex (chunk_at j k)) False) j, PDone (Some e))"
| "worker_step now inp (PHedgeWon slot k) j =
     (on_sched (cancel_hedge (cIndex (chunk_at j k))) j, PSuccess slot k)"
| "worker_step now inp (PSuccess slot k) j =
     (let c = chunk_at j k
      in (on_sched (on_worker_success now slot (cLength c) (time_sub now (cStartTime c)))
            (j\<lparr>jbProgress := i64 (jbProgress j + cLength c)\<rparr>), PMark slot k))"
| "worker_step now inp (PMark slot k) j =
     (on_sched (mark_complete now (cIndex (chunk_at j k))) j, PTop slot)"
| "worker_step now inp (PDone r) j = (j, PDone r)"
| "worker_step now inp PCrash j = (j, PCrash)"

section \<open>The pool\<close>

record pool =
  plJob :: job
  plWorkers :: "worker_pc list"

text \<open>\<open>JStep w now inp\<close> lets worker \<open>w\<close> take its next step; \<open>JCancel\<close> is
  \<open>sched.Cancel()\<close>, called at Ctrl+C and at the first error; \<open>JWriter\<close> and \<open>JWrite\<close> are the
  steps of the stream writer; \<open>JClose\<close> closes the stream once all workers have returned.\<close>

datatype job_event =
    JStep nat gtime step_input
  | JCancel
  | JWriter bool
  | JWrite "nat option"
  | JClose

fun worker_done :: "worker_pc \<Rightarrow> bool" where
  "worker_done (PDone r) = True"
| "worker_done pc = False"

definition all_done :: "pool \<Rightarrow> bool" where
  "all_done p \<longleftrightarrow> list_all worker_done (plWorkers p)"

definition writer_event :: "sink_event \<Rightarrow> pool \<Rightarrow> pool" where
  "writer_event e p =
     (case jbSink (plJob p) of
        FileTo _ \<Rightarrow> p
      | StreamTo y \<Rightarrow> p\<lparr>plJob := (plJob p)\<lparr>jbSink := StreamTo (sink_apply e y)\<rparr>\<rparr>)"

fun pool_apply :: "job_event \<Rightarrow> pool \<Rightarrow> pool" where
  "pool_apply (JStep w now inp) p =
     (if w < length (plWorkers p)
      then case worker_step now inp (plWorkers p ! w) (plJob p) of
             (j, pc) \<Rightarrow> \<lparr>plJob = j, plWorkers = (plWorkers p)[w := pc]\<rparr>
      else p)"
| "pool_apply JCancel p = p\<lparr>plJob := on_sched sched_cancel (plJob p)\<rparr>"
| "pool_apply (JWriter ctxDone) p = writer_event (EvWriter ctxDone) p"
| "pool_apply (JWrite r) p = writer_event (EvWrite r) p"
| "pool_apply JClose p = (if all_done p then writer_event EvClose p else p)"

definition pool_run :: "job_event list \<Rightarrow> pool \<Rightarrow> pool" where
  "pool_run es p = fold pool_apply es p"

text \<open>One worker per connection, in slot order.\<close>

definition pool_start :: "execution_plan \<Rightarrow> sched \<Rightarrow> job_sink \<Rightarrow> pool" where
  "pool_start ep s snk =
     \<lparr>plJob = \<lparr>jbSched = s, jbSink = snk, jbProgress = 0\<rparr>,
      plWorkers = map (\<lambda>i. PTop (int i)) [0..<nat (epConnections ep)]\<rparr>"

section \<open>Configuration and result of the jobs\<close>

definition file_config :: "execution_plan \<Rightarrow> sched_config" where
  "file_config p =
     \<lparr>cfgRequestedConnections = epConnections p, cfgStreamBufferSize = 0,
      cfgSplitSize = epSplitSize p, cfgMaxTries = epMaxTries p, cfgStreamMode = False\<rparr>"

definition stream_config :: "execution_plan \<Rightarrow> sched_config" where
  "stream_config p =
     \<lparr>cfgRequestedConnections = epConnections p, cfgStreamBufferSize = epBufferSize p,
      cfgSplitSize = epSplitSize p, cfgMaxTries = epMaxTries p, cfgStreamMode = True\<rparr>"

definition stream_start :: "execution_plan \<Rightarrow> probe_result \<Rightarrow> pool option" where
  "stream_start p r =
     (case plan (epSplitSize p) (prSize r) of
        None \<Rightarrow> None
      | Some cs \<Rightarrow>
          (case sched_new (stream_config p) cs True of
             None \<Rightarrow> None
           | Some s \<Rightarrow> Some (pool_start p s (StreamTo (sink_init (epBufferSize p))))))"

definition file_start :: "execution_plan \<Rightarrow> file_sink \<Rightarrow> chunk list \<Rightarrow> pool option" where
  "file_start p fs chunks =
     map_option (\<lambda>s. pool_start p s (FileTo fs)) (sched_new (file_config p) chunks False)"

text \<open>\<open>strings.Contains\<close> and the exit code of an error's text.\<close>

fun strings_contains :: "string \<Rightarrow> string \<Rightarrow> bool" where
  "strings_contains s sub =
     (take (length sub) s = sub \<or> (case s of [] \<Rightarrow> False | _ # s' \<Rightarrow> strings_contains s' sub))"

definition exit_of_text :: "string \<Rightarrow> exit_code" where
  "exit_of_text s =
     (if strings_contains s ''TLS'' \<or> strings_contains s ''certificate'' then ExitTLSError
      else if strings_contains s ''401'' \<or> strings_contains s ''403'' then ExitAuthError
      else if strings_contains s ''500'' \<or> strings_contains s ''502'' \<or> strings_contains s ''503''
      then ExitServerError
      else ExitNetworkFail)"

fun first_error :: "'e option list \<Rightarrow> 'e option" where
  "first_error [] = None"
| "first_error (None # rs) = first_error rs"
| "first_error (Some e # rs) = Some e"

text \<open>\<open>results\<close> are the workers' results in the order in which they arrive.\<close>

definition run_workers_exit :: "(worker_err \<Rightarrow> string) \<Rightarrow> worker_err option list \<Rightarrow> sched \<Rightarrow> exit_code" where
  "run_workers_exit msg results s =
     (case first_error results of
        Some e \<Rightarrow> exit_of_text (msg e)
      | None \<Rightarrow>
          (case sched_progress s of
             (completed, allChunks) \<Rightarrow> if completed < allChunks then ExitNetworkFail else ExitSuccess))"

text \<open>\<open>downloadParallelStream\<close> after the workers: a write error turns success into an I/O
  error.\<close>

definition stream_exit :: "exit_code \<Rightarrow> sink_err option \<Rightarrow> exit_code" where
  "stream_exit ec writeErr =
     (if writeErr \<noteq> None \<and> ec = ExitSuccess then ExitIOError else ec)"

end
