(* ===== verification/Workers_Inv.thy ===== *)
theory Workers_Inv
  imports Workers
begin

text \<open>
  The invariant of the worker pool: the scheduler's invariant with at least as many duplicates
  in flight as workers hold one (a worker that returns with an error leaves its duplicate
  counted), the sink's own invariant, every chunk that the scheduler counts
  as completed safely in the sink, and at each worker what its place in \<open>workerLoop\<close> promises
  about its chunk. Every step keeps it (\<open>pool_apply_inv\<close>).
\<close>

section \<open>What is safe in a sink\<close>

definition chunk_content :: "bytes \<Rightarrow> chunk list \<Rightarrow> int \<Rightarrow> bytes" where
  "chunk_content obj cs i = (if in_range i cs then chunk_bytes obj (cs ! nat i) else [])"

fun sink_good :: "bytes \<Rightarrow> chunk list \<Rightarrow> job_sink \<Rightarrow> bool" where
  "sink_good obj cs (FileTo fs) = file_sound obj cs fs"
| "sink_good obj cs (StreamTo y) = sink_inv (chunk_content obj cs) y"

fun sink_safe :: "bytes \<Rightarrow> chunk list \<Rightarrow> job_sink \<Rightarrow> nat \<Rightarrow> bool" where
  "sink_safe obj cs (FileTo fs) k = chunk_safe obj (fsBaseOff fs) (fsData fs) (cs ! k)"
| "sink_safe obj cs (StreamTo y) k = kept (int k) y"

fun sink_closed :: "job_sink \<Rightarrow> bool" where
  "sink_closed (FileTo fs) = False"
| "sink_closed (StreamTo y) = ssClosed (sySink y)"

fun holds_hedge :: "worker_pc \<Rightarrow> bool" where
  "holds_hedge (PFetch slot k hedge) = hedge"
| "holds_hedge (PPut slot k hedge data) = hedge"
| "holds_hedge (PDropHedge slot k) = True"
| "holds_hedge (PHedgeWon slot k) = True"
| "holds_hedge _ = False"

fun pc_chunk :: "worker_pc \<Rightarrow> nat option" where
  "pc_chunk (PReserve slot k) = Some k"
| "pc_chunk (PFetch slot k hedge) = Some k"
| "pc_chunk (PAdmission slot k) = Some k"
| "pc_chunk (PRetry slot k) = Some k"
| "pc_chunk (PDropHedge slot k) = Some k"
| "pc_chunk (PPut slot k hedge data) = Some k"
| "pc_chunk (PSidecar slot k hedge) = Some k"
| "pc_chunk (PAbort slot k e) = Some k"
| "pc_chunk (PHedgeWon slot k) = Some k"
| "pc_chunk (PSuccess slot k) = Some k"
| "pc_chunk (PMark slot k) = Some k"
| "pc_chunk _ = None"

text \<open>The places at which the worker's chunk is in the sink; what a body being put is; and
  that duplicates exist in stream jobs only.\<close>

fun pc_put :: "worker_pc \<Rightarrow> bool" where
  "pc_put (PSidecar slot k hedge) = True"
| "pc_put (PHedgeWon slot k) = True"
| "pc_put (PSuccess slot k) = True"
| "pc_put (PMark slot k) = True"
| "pc_put _ = False"

fun pc_body_ok :: "bytes \<Rightarrow> chunk list \<Rightarrow> worker_pc \<Rightarrow> bool" where
  "pc_body_ok obj cs (PPut slot k hedge data) = (data = chunk_bytes obj (cs ! k))"
| "pc_body_ok obj cs (PSidecar slot k hedge) = (\<not> hedge)"
| "pc_body_ok obj cs PCrash = False"
| "pc_body_ok obj cs _ = True"

fun is_stream :: "job_sink \<Rightarrow> bool" where
  "is_stream (StreamTo y) = True"
| "is_stream (FileTo fs) = False"

fun pc_stream_only :: "worker_pc \<Rightarrow> bool" where
  "pc_stream_only (PHedge slot i) = True"
| "pc_stream_only (PReserve slot k) = True"
| "pc_stream_only pc = holds_hedge pc"

definition pc_ok :: "bytes \<Rightarrow> chunk list \<Rightarrow> job_sink \<Rightarrow> worker_pc \<Rightarrow> bool" where
  "pc_ok obj cs snk pc \<longleftrightarrow>
     pc_body_ok obj cs pc \<and> (pc_stream_only pc \<longrightarrow> is_stream snk) \<and>
     (\<forall>k. pc_chunk pc = Some k \<longrightarrow> k < length cs \<and> (pc_put pc \<longrightarrow> sink_safe obj cs snk k))"

definition job_inv :: "bytes \<Rightarrow> chunk list \<Rightarrow> int \<Rightarrow> job \<Rightarrow> bool" where
  "job_inv obj cs h j \<longleftrightarrow>
     sched_inv h (jbSched j) \<and>
     layout (jbSched j) = map (\<lambda>c. (cIndex c, cStart c, cLength c)) cs \<and>
     (\<forall>i < length cs. cIndex (cs ! i) = int i) \<and>
     tiled_from 0 cs (int (length obj)) \<and>
     sink_good obj cs (jbSink j) \<and>
     (\<forall>k < length cs. cState (chunk_at j k) = StateCompleted \<longrightarrow> sink_safe obj cs (jbSink j) k)"

definition pool_inv :: "bytes \<Rightarrow> chunk list \<Rightarrow> pool \<Rightarrow> bool" where
  "pool_inv obj cs p \<longleftrightarrow>
     (\<exists>h \<ge> int (count_if holds_hedge (plWorkers p)). job_inv obj cs h (plJob p)) \<and>
     (\<forall>pc \<in> set (plWorkers p). pc_ok obj cs (jbSink (plJob p)) pc) \<and>
     (sink_closed (jbSink (plJob p)) \<longrightarrow> all_done p)"

section \<open>Chunks of the scheduler and of the plan\<close>

lemma layout_length:
  assumes "layout s = map (\<lambda>c. (cIndex c, cStart c, cLength c)) cs"
  shows "length (sChunks s) = length cs"
  using arg_cong [OF assms, of length] by (simp add: layout_def)

lemma layout_nth:
  assumes "layout s = map (\<lambda>c. (cIndex c, cStart c, cLength c)) cs" and "k < length cs"
  shows "cIndex (sChunks s ! k) = cIndex (cs ! k)" and "cStart (sChunks s ! k) = cStart (cs ! k)"
    and "cLength (sChunks s ! k) = cLength (cs ! k)"
proof -
  note len = layout_length [OF assms(1)]
  have "layout s ! k = (cIndex (cs ! k), cStart (cs ! k), cLength (cs ! k))"
    using assms by simp
  then show "cIndex (sChunks s ! k) = cIndex (cs ! k)" "cStart (sChunks s ! k) = cStart (cs ! k)"
    "cLength (sChunks s ! k) = cLength (cs ! k)"
    using len assms(2) by (simp_all add: layout_def)
qed

lemma job_inv_length: "job_inv obj cs h j \<Longrightarrow> length (sChunks (jbSched j)) = length cs"
  by (auto simp: job_inv_def intro: layout_length)

lemma job_inv_chunk:
  assumes "job_inv obj cs h j" and "k < length cs"
  shows "cIndex (chunk_at j k) = int k" and "cLength (chunk_at j k) = cLength (cs ! k)"
    and "of_plan cs (chunk_at j k)"
    and "chunk_bytes obj (chunk_at j k) = chunk_bytes obj (cs ! k)"
    and "chunk_safe obj b d (chunk_at j k) = chunk_safe obj b d (cs ! k)"
  using assms layout_nth [of "jbSched j" cs k]
  by (auto simp: job_inv_def chunk_at_def of_plan_def in_range_def chunk_bytes_def chunk_safe_def)

text \<open>Calls that complete no chunk.\<close>

definition completes_none :: "sched \<Rightarrow> sched \<Rightarrow> bool" where
  "completes_none s t \<longleftrightarrow>
     (\<forall>i. cState (sChunks t ! i) = StateCompleted \<longrightarrow> cState (sChunks s ! i) = StateCompleted)"

lemma completes_none_same: "sChunks t = sChunks s \<Longrightarrow> completes_none s t"
  by (simp add: completes_none_def)

lemma completes_none_update:
  assumes "sChunks t = (sChunks s)[k := c]"
    and "cState c = StateCompleted \<Longrightarrow> cState (sChunks s ! k) = StateCompleted"
  shows "completes_none s t"
  unfolding completes_none_def
proof (intro allI impI)
  fix i assume a: "cState (sChunks t ! i) = StateCompleted"
  show "cState (sChunks s ! i) = StateCompleted"
  proof (cases "i = k \<and> k < length (sChunks s)")
    case False
    then have "sChunks t ! i = sChunks s ! i"
      using assms(1) by (cases "i = k") (auto simp: list_update_beyond)
    with a show ?thesis by simp
  qed (use a assms in simp)
qed

lemma try_assign_completes: "completes_none s (fst (try_assign now slot s))"
  by (auto simp: try_assign_def assign_chunk_def set_chunk_def Let_def
      intro: completes_none_same completes_none_update split: option.split)

lemma completes_none_ops:
  "completes_none s (fst (next_assignment now slot s))"
  "completes_none s (mark_failed now idx retryable s)"
  "completes_none s (on_admission_failure now slot s)"
  "completes_none s (on_worker_success now slot b d s)"
  "completes_none s (sched_cancel s)"
  "completes_none s (cancel_hedge idx s)"
proof -
  have "completes_none (cleanup now s) (fst (next_assignment now slot s))"
    using try_assign_completes [of "cleanup now s" now slot]
    by (auto simp: next_assignment_def Let_def intro: completes_none_same
        split: option.split prod.split)
  then show "completes_none s (fst (next_assignment now slot s))"
    by (simp add: completes_none_def)
qed (auto simp: mark_failed_def on_admission_failure_def on_worker_success_def sched_cancel_def
    cancel_hedge_def set_chunk_def Let_def intro: completes_none_same completes_none_update)

lemma start_hedge_completes:
  assumes "start_hedge now idx s = Some (s', r)"
  shows "completes_none s s'"
  using assms
  by (auto simp: start_hedge_def set_chunk_def Let_def split: option.splits if_splits
      intro: completes_none_same completes_none_update)

lemma mark_complete_completes:
  "cState (sChunks (mark_complete now idx s) ! i) = StateCompleted \<Longrightarrow>
     cState (sChunks s ! i) = StateCompleted \<or> (in_range idx (sChunks s) \<and> i = nat idx)"
  by (auto simp: mark_complete_def record_chunk_duration_def set_chunk_def Let_def
      nth_list_update split: if_splits)

text \<open>A scheduler call keeps the job's invariant when it keeps the scheduler's and completes
  nothing that is not in the sink.\<close>

lemma job_inv_sched:
  assumes "job_inv obj cs h j" and "sched_inv h' s" and "layout s = layout (jbSched j)"
    and "completes_none (jbSched j) s"
  shows "job_inv obj cs h' (j\<lparr>jbSched := s\<rparr>)"
  using assms by (simp add: job_inv_def chunk_at_def completes_none_def)

lemma job_inv_progress [simp]:
  "job_inv obj cs h (j\<lparr>jbProgress := n\<rparr>) = job_inv obj cs h j"
  by (simp add: job_inv_def chunk_at_def)

lemma job_inv_sink:
  assumes "job_inv obj cs h j" and "sink_good obj cs snk"
    and "\<And>k. k < length cs \<Longrightarrow> sink_safe obj cs (jbSink j) k \<Longrightarrow> sink_safe obj cs snk k"
  shows "job_inv obj cs h (j\<lparr>jbSink := snk\<rparr>)"
  using assms by (simp add: job_inv_def chunk_at_def)

section \<open>One step of a worker\<close>

text \<open>The body of a range request is that range of the object; the process is not killed (the
  deaths are in \<open>Job_Setup\<close>).\<close>

definition body_ok :: "bytes \<Rightarrow> step_input \<Rightarrow> worker_pc \<Rightarrow> job \<Rightarrow> bool" where
  "body_ok obj inp pc j =
     (case (inp, pc) of
        (InBody data, PFetch slot k hedge) \<Rightarrow> data = chunk_bytes obj (chunk_at j k)
      | (InSidecar (Dies junk), _) \<Rightarrow> False
      | _ \<Rightarrow> True)"

abbreviation dup :: "worker_pc \<Rightarrow> int" where
  "dup pc \<equiv> (if holds_hedge pc then 1 else 0)"

definition step_ok ::
  "bytes \<Rightarrow> chunk list \<Rightarrow> int \<Rightarrow> worker_pc \<Rightarrow> job \<Rightarrow> job \<times> worker_pc \<Rightarrow> bool" where
  "step_ok obj cs h pc j r \<longleftrightarrow>
     (\<exists>h' \<ge> h - dup pc + dup (snd r). job_inv obj cs h' (fst r)) \<and>
     pc_ok obj cs (jbSink (fst r)) (snd r) \<and>
     (\<forall>k < length cs. sink_safe obj cs (jbSink j) k \<longrightarrow> sink_safe obj cs (jbSink (fst r)) k) \<and>
     is_stream (jbSink (fst r)) = is_stream (jbSink j) \<and>
     sink_closed (jbSink (fst r)) = sink_closed (jbSink j)"

lemma pc_ok_D:
  assumes "pc_ok obj cs snk pc" and "pc_chunk pc = Some k"
  shows "k < length cs" and "pc_put pc \<Longrightarrow> sink_safe obj cs snk k"
  using assms by (auto simp: pc_ok_def)

text \<open>A step that leaves the sink alone.\<close>

lemma step_ok_sched:
  assumes inv: "job_inv obj cs h j" and s: "sched_inv h' s" and h: "h - dup pc + dup pc' \<le> h'"
    and l: "layout s = layout (jbSched j)" and c: "completes_none (jbSched j) s"
    and pc: "pc_ok obj cs (jbSink j) pc'"
  shows "step_ok obj cs h pc j (j\<lparr>jbSched := s\<rparr>, pc')"
  using job_inv_sched [OF inv s l c] h pc by (auto simp: step_ok_def)

lemma step_ok_stay:
  assumes "job_inv obj cs h j" and "dup pc' \<le> dup pc" and "pc_ok obj cs (jbSink j) pc'"
  shows "step_ok obj cs h pc j (j, pc')"
  using assms by (auto simp: step_ok_def intro!: exI [of _ h])

lemma step_ok_sink:
  assumes inv: "job_inv obj cs h j" and d: "dup pc' \<le> dup pc" and g: "sink_good obj cs snk"
    and sf: "\<And>k. k < length cs \<Longrightarrow> sink_safe obj cs (jbSink j) k \<Longrightarrow> sink_safe obj cs snk k"
    and "is_stream snk = is_stream (jbSink j)" and "sink_closed snk = sink_closed (jbSink j)"
    and "pc_ok obj cs snk pc'"
  shows "step_ok obj cs h pc j (j\<lparr>jbSink := snk\<rparr>, pc')"
  using job_inv_sink [OF inv g sf] assms by (auto simp: step_ok_def intro!: exI [of _ h])

lemma hedge_candidate_stream: "0 \<le> hedge_candidate now j \<Longrightarrow> is_stream (jbSink j)"
  by (cases "jbSink j") auto

lemma next_assignment_range:
  assumes "sched_inv h s" and "snd (next_assignment now slot s) = NAAssign k"
  shows "k < length (sChunks s)"
proof -
  have "try_assign now slot (cleanup now s) = (fst (next_assignment now slot s), Some k)"
    using assms(2)
    by (auto simp: next_assignment_def Let_def split: if_splits option.splits prod.splits)
  then have "k < length (sChunks (cleanup now s))"
    by (auto simp: try_assign_def find_retryable_chunk_def Let_def dest!: find_index_Some
        split: if_splits option.splits)
  then show ?thesis by simp
qed

lemma start_hedge_range:
  "start_hedge now idx s = Some (s', Some (k, slot)) \<Longrightarrow> k < length (sChunks s)"
  by (auto simp: start_hedge_def Let_def split: option.splits if_splits)

lemma next_step_ok:
  assumes inv: "job_inv obj cs h j"
  shows "step_ok obj cs h (PNext slot) j (worker_step now inp (PNext slot) j)"
proof -
  obtain s r where na: "next_assignment now slot (jbSched j) = (s, r)" by fastforce
  have si: "sched_inv h (jbSched j)" using inv by (simp add: job_inv_def)
  have s: "sched_inv h s" "layout s = layout (jbSched j)" "completes_none (jbSched j) s"
    using na next_assignment_inv [OF si, of now slot] layout_ops(1) [of now slot "jbSched j"]
      completes_none_ops(1) [of "jbSched j" now slot] by simp_all
  have "pc_ok obj cs (jbSink j) (take_assignment slot j r)"
    using na next_assignment_range [OF si, of now slot] job_inv_length [OF inv]
    by (auto simp: take_assignment_def pc_ok_def split: na_result.split job_sink.split)
  moreover have "dup (take_assignment slot j r) = 0"
    by (auto simp: take_assignment_def split: na_result.split job_sink.split)
  ultimately show ?thesis
    using na s step_ok_sched [OF inv, of h s "PNext slot" "take_assignment slot j r"]
    by simp
qed

lemma hedge_step_ok:
  assumes inv: "job_inv obj cs h j" and pc: "pc_ok obj cs (jbSink j) (PHedge slot i)"
  shows "step_ok obj cs h (PHedge slot i) j (worker_step now inp (PHedge slot i) j)"
proof -
  have si: "sched_inv h (jbSched j)" using inv by (simp add: job_inv_def)
  obtain s r where st: "start_hedge now i (jbSched j) = Some (s, r)"
    using start_hedge_total [OF si, of now i] by auto
  note s = start_hedge_inv [OF si st] layout_ops(9) [OF st] start_hedge_completes [OF st]
  show ?thesis
  proof (cases r)
    case None
    then show ?thesis
      using s st step_ok_sched [OF inv, of h s "PHedge slot i" "PNext slot"]
      by (simp add: pc_ok_def)
  next
    case (Some x)
    obtain k hs where x: "x = (k, hs)" by fastforce
    have "pc_ok obj cs (jbSink j) (PFetch hs k True)"
      using pc start_hedge_range [of now i "jbSched j" s k hs] st Some x job_inv_length [OF inv]
      by (auto simp: pc_ok_def)
    then show ?thesis
      using s st Some x step_ok_sched [OF inv, of "h + 1" s "PHedge slot i" "PFetch hs k True"]
      by simp
  qed
qed

lemma reserve_step_ok:
  assumes inv: "job_inv obj cs h j" and pc: "pc_ok obj cs (jbSink j) (PReserve slot k)"
  shows "step_ok obj cs h (PReserve slot k) j (worker_step now inp (PReserve slot k) j)"
proof (cases "jbSink j")
  case (StreamTo y)
  then have g: "sink_inv (chunk_content obj cs) y" using inv by (simp add: job_inv_def)
  show ?thesis
  proof (cases "reserve (cLength (chunk_at j k)) (sySink y)")
    case (Inl e)
    then show ?thesis
      using StreamTo pc step_ok_stay [OF inv, of "PRetry slot k" "PReserve slot k"]
      by (auto simp: reserve_step_def pc_ok_def)
  next
    case (Inr s)
    note f = reserve_fields [OF Inr]
    have "sink_inv (chunk_content obj cs) (y\<lparr>sySink := s\<rparr>)"
      using reserve_inv [OF g, of "cLength (chunk_at j k)"] Inr by simp
    then show ?thesis
      using StreamTo Inr pc f
        step_ok_sink [OF inv, of "PFetch slot k False" "PReserve slot k" "StreamTo (y\<lparr>sySink := s\<rparr>)"]
      by (auto simp: reserve_step_def pc_ok_def kept_def)
  qed
qed (use pc in \<open>simp add: pc_ok_def\<close>)

lemma fetch_step_ok:
  assumes inv: "job_inv obj cs h j" and pc: "pc_ok obj cs (jbSink j) (PFetch slot k hedge)"
    and body: "body_ok obj inp (PFetch slot k hedge) j"
  shows "step_ok obj cs h (PFetch slot k hedge) j (worker_step now inp (PFetch slot k hedge) j)"
proof -
  let ?pc = "fetch_step inp slot k hedge j"
  have k: "k < length cs" using pc by (simp add: pc_ok_def)
  have "pc_ok obj cs (jbSink j) ?pc"
    using pc body job_inv_chunk(4) [OF inv k]
    by (auto simp: fetch_step_def pc_ok_def body_ok_def split: step_input.split)
  moreover have "dup ?pc \<le> dup (PFetch slot k hedge)"
    by (auto simp: fetch_step_def split: step_input.split)
  ultimately show ?thesis
    using step_ok_stay [OF inv, of ?pc "PFetch slot k hedge"] by (simp del: holds_hedge.simps)
qed

text \<open>The steps that are one call of the scheduler.\<close>

lemma sched_steps_ok:
  assumes inv: "job_inv obj cs h j" and k: "pc_ok obj cs (jbSink j) pc"
  shows "pc = PAdmission slot k \<Longrightarrow> step_ok obj cs h pc j (worker_step now inp pc j)"
    and "pc = PRetry slot k \<Longrightarrow> step_ok obj cs h pc j (worker_step now inp pc j)"
    and "pc = PAbort slot k e \<Longrightarrow> step_ok obj cs h pc j (worker_step now inp pc j)"
    and "pc = PDropHedge slot k \<Longrightarrow> 0 < h \<Longrightarrow> step_ok obj cs h pc j (worker_step now inp pc j)"
    and "pc = PHedgeWon slot k \<Longrightarrow> 0 < h \<Longrightarrow> step_ok obj cs h pc j (worker_step now inp pc j)"
  using inv k
  by (auto simp: on_sched_def job_inv_def layout_ops completes_none_ops pc_ok_def
      intro!: step_ok_sched [OF inv, where h' = h] inv_keep
      step_ok_sched [OF inv, where h' = "h - 1" and pc = "PDropHedge slot k"]
      step_ok_sched [OF inv, where h' = "h - 1" and pc = "PHedgeWon slot k"])

lemma success_step_ok:
  assumes inv: "job_inv obj cs h j" and pc: "pc_ok obj cs (jbSink j) (PSuccess slot k)"
  shows "step_ok obj cs h (PSuccess slot k) j (worker_step now inp (PSuccess slot k) j)"
proof -
  let ?j = "j\<lparr>jbProgress := i64 (jbProgress j + cLength (chunk_at j k))\<rparr>"
  have "job_inv obj cs h ?j" using inv by simp
  then have "step_ok obj cs h (PSuccess slot k) ?j
      (worker_step now inp (PSuccess slot k) j)"
    using pc inv
    by (auto simp: on_sched_def Let_def job_inv_def layout_ops completes_none_ops pc_ok_def
        intro!: step_ok_sched [where h' = h] inv_keep)
  then show ?thesis by (simp add: step_ok_def Let_def)
qed

lemma mark_step_ok:
  assumes inv: "job_inv obj cs h j" and pc: "pc_ok obj cs (jbSink j) (PMark slot k)"
  shows "step_ok obj cs h (PMark slot k) j (worker_step now inp (PMark slot k) j)"
proof -
  let ?s = "mark_complete now (cIndex (chunk_at j k)) (jbSched j)"
  have k: "k < length cs" "sink_safe obj cs (jbSink j) k" using pc by (simp_all add: pc_ok_def)
  have "job_inv obj cs h (j\<lparr>jbSched := ?s\<rparr>)"
    using inv k job_inv_chunk(1) [OF inv k(1)] mark_complete_completes [of now "int k" "jbSched j"]
    by (auto simp: job_inv_def chunk_at_def layout_ops intro: mark_complete_inv)
  then show ?thesis
    by (auto simp: step_ok_def on_sched_def pc_ok_def)
qed

lemma put_stream_ok:
  assumes inv: "job_inv obj cs h j" and pc: "pc_ok obj cs (jbSink j) (PPut slot k hedge data)"
    and open_sink: "\<not> sink_closed (jbSink j)" and snk: "jbSink j = StreamTo y"
  shows "step_ok obj cs h (PPut slot k hedge data) j (worker_step now inp (PPut slot k hedge data) j)"
proof (cases "submit (chunk_at j k) data (sySink y)")
  case (Inl e)
  then show ?thesis
    using snk pc step_ok_stay [OF inv, of "PAbort slot k (WSubmit e)" "PPut slot k hedge data"]
    by (simp add: put_step_def pc_ok_def)
next
  case (Inr s)
  have k: "k < length cs" "data = chunk_bytes obj (cs ! k)" using pc by (simp_all add: pc_ok_def)
  have g: "sink_inv (chunk_content obj cs) y" using inv snk by (simp add: job_inv_def)
  let ?e = "EvSubmit (chunk_at j k) data" and ?y = "y\<lparr>sySink := s\<rparr>"
  have y: "sink_apply ?e y = ?y" using Inr by simp
  have "faithful (chunk_content obj cs) ?e"
    using k job_inv_chunk(1) [OF inv k(1)] by (simp add: chunk_content_def)
  then have good: "sink_inv (chunk_content obj cs) ?y"
    using submit_inv [OF g, of "chunk_at j k" data] y by (simp only:)
  have "syPc y \<noteq> WReturned None" using g open_sink snk by (auto simp: sink_inv_def)
  then have "kept (int k) ?y"
    using submit_completed(1) [OF Inr] job_inv_chunk(1) [OF inv k(1)]
    by (simp add: kept_def update_conv')
  then show ?thesis
    using snk Inr k good sink_apply_kept [of _ y ?e] y submit_completed(5) [OF Inr]
      step_ok_sink [OF inv, of "if hedge then PHedgeWon slot k else PSuccess slot k"
        "PPut slot k hedge data" "StreamTo ?y"]
    by (auto simp: put_step_def pc_ok_def)
qed

lemma put_file_ok:
  assumes inv: "job_inv obj cs h j" and pc: "pc_ok obj cs (jbSink j) (PPut slot k hedge data)"
    and snk: "jbSink j = FileTo fs"
  shows "step_ok obj cs h (PPut slot k hedge data) j (worker_step now inp (PPut slot k hedge data) j)"
proof (cases inp)
  case (InWrite fault)
  have k: "k < length cs" "data = chunk_bytes obj (cs ! k)" "\<not> hedge"
    using pc snk by (auto simp: pc_ok_def)
  note ck = job_inv_chunk [OF inv k(1)]
  have data: "data = chunk_bytes obj (chunk_at j k)" using k ck by simp
  have g: "file_sound obj cs fs" and tl: "tiled_from 0 cs (int (length obj))"
    using inv snk by (auto simp: job_inv_def)
  obtain res fs' where w: "write_part fault (chunk_at j k) data fs = (res, fs')" by fastforce
  have g': "file_sound obj cs fs'"
    using write_part_sound [OF g ck(3), of fault] w data by simp
  have base: "fsBaseOff fs' = fsBaseOff fs"
    using write_part_fields(1) [of fault "chunk_at j k" data fs] w by simp
  have keep: "sink_safe obj cs (FileTo fs') i" if "i < length cs" "sink_safe obj cs (FileTo fs) i" for i
    using write_part_keeps_safe [OF g ck(3), of "cs ! i" fs' fault] that w data
      tiled_from_bounds [OF tl, of "cs ! i"] base by simp
  have safe: "sink_safe obj cs (FileTo fs') k" if "res = Ret u" for u
    using write_part_safe [OF g ck(3), of fault u fs'] w data that ck(5) by simp
  have "res \<noteq> Panic"
    using w by (auto simp: write_part_def Let_def split: if_splits option.splits)
  then show ?thesis
    using InWrite snk w g' keep safe k
    by (cases res) (auto simp: put_step_def pc_ok_def intro!: step_ok_sink [OF inv])
qed (use snk inv pc in \<open>auto simp: put_step_def intro!: step_ok_stay\<close>)

lemma sc_mark_complete_no_panic:
  assumes m: "manager_sound obj cs base file m" and c: "of_plan cs c"
    and safe: "chunk_safe obj base file c" and w: "\<forall>junk. w \<noteq> Dies junk"
  shows "fst (sc_mark_complete now w 0 (cIndex c) m) \<noteq> Panic"
proof (cases "mgState m")
  case (Some st)
  then obtain it where it: "stItems st = [it]" "item_sound obj cs base file it"
    using m by (auto simp: manager_sound_def)
  from item_sound_mark [OF it(2) c safe] obtain it' where "mark_item (cIndex c) it = Ret it'" .
  then show ?thesis
    using Some it w
    by (cases w) (auto simp: sc_mark_complete_def in_range_def checkpoint_locked_def write_locked_def
        Let_def)
qed (simp add: sc_mark_complete_def)

lemma mark_part_no_panic:
  assumes "file_sound obj cs fs" and "of_plan cs c"
    and "chunk_safe obj (fsBaseOff fs) (fsData fs) c" and "\<forall>junk. w \<noteq> Dies junk"
  shows "fst (mark_part now w c fs) \<noteq> Panic"
  using assms sc_mark_complete_no_panic [of obj cs "fsBaseOff fs" "fsData fs" _ c w now]
  by (auto simp: mark_part_def file_sound_def split: option.split prod.split res.split)
     (metis fst_conv)+

lemma sidecar_step_ok:
  assumes inv: "job_inv obj cs h j" and pc: "pc_ok obj cs (jbSink j) (PSidecar slot k hedge)"
    and body: "body_ok obj inp (PSidecar slot k hedge) j"
  shows "step_ok obj cs h (PSidecar slot k hedge) j (worker_step now inp (PSidecar slot k hedge) j)"
proof (cases "\<exists>fs w. jbSink j = FileTo fs \<and> inp = InSidecar w")
  case True
  then obtain fs w where fs: "jbSink j = FileTo fs" and w: "inp = InSidecar w" by blast
  have k: "k < length cs" "\<not> hedge" "sink_safe obj cs (FileTo fs) k"
    using pc fs by (auto simp: pc_ok_def)
  note ck = job_inv_chunk [OF inv k(1)]
  have g: "file_sound obj cs fs" using inv fs by (simp add: job_inv_def)
  have safe: "chunk_safe obj (fsBaseOff fs) (fsData fs) (chunk_at j k)"
    using k ck(5) by simp
  have "\<forall>junk. w \<noteq> Dies junk" using body w by (auto simp: body_ok_def)
  with mark_part_no_panic [OF g ck(3) safe] have np: "fst (mark_part now w (chunk_at j k) fs) \<noteq> Panic"
    by blast
  obtain res fs' where m: "mark_part now w (chunk_at j k) fs = (res, fs')" by fastforce
  have fs': "file_sound obj cs fs'" "fsData fs' = fsData fs" "fsBaseOff fs' = fsBaseOff fs"
    using mark_part_sound [OF g ck(3) safe, of now w] mark_part_fields [of now w "chunk_at j k" fs] m
    by simp_all
  then show ?thesis
    using fs w m np k
    by (cases res) (auto simp: sidecar_step_def pc_ok_def intro!: step_ok_sink [OF inv])
next
  case False
  then have "worker_step now inp (PSidecar slot k hedge) j = (j, PSidecar slot k hedge)"
    by (auto simp: sidecar_step_def split: job_sink.split step_input.split)
  then show ?thesis using inv pc by (auto intro: step_ok_stay)
qed

lemma worker_step_ok:
  assumes inv: "job_inv obj cs h j" and pc: "pc_ok obj cs (jbSink j) pc"
    and h: "holds_hedge pc \<Longrightarrow> 0 < h" and open_sink: "\<not> worker_done pc \<Longrightarrow> \<not> sink_closed (jbSink j)"
    and body: "body_ok obj inp pc j"
  shows "step_ok obj cs h pc j (worker_step now inp pc j)"
proof (cases pc)
  case (PTop slot)
  then show ?thesis
    using inv hedge_candidate_stream [of now j]
    by (auto simp: Let_def pc_ok_def intro!: step_ok_stay [OF inv])
next
  case (PHedge slot i)
  then show ?thesis using hedge_step_ok [OF inv] pc by blast
next
  case (PNext slot)
  then show ?thesis using next_step_ok [OF inv] by blast
next
  case (PReserve slot k)
  then show ?thesis using reserve_step_ok [OF inv] pc by blast
next
  case (PFetch slot k hedge)
  then show ?thesis using fetch_step_ok [OF inv] pc body by blast
next
  case (PAdmission slot k)
  then show ?thesis using sched_steps_ok(1) [OF inv pc] by blast
next
  case (PRetry slot k)
  then show ?thesis using sched_steps_ok(2) [OF inv pc] by blast
next
  case (PDropHedge slot k)
  then show ?thesis using sched_steps_ok(4) [OF inv pc] h by simp
next
  case (PPut slot k hedge data)
  then show ?thesis
    using put_stream_ok [OF inv] put_file_ok [OF inv] pc open_sink by (cases "jbSink j") auto
next
  case (PSidecar slot k hedge)
  then show ?thesis using sidecar_step_ok [OF inv] pc body by blast
next
  case (PAbort slot k e)
  then show ?thesis using sched_steps_ok(3) [OF inv pc] by blast
next
  case (PHedgeWon slot k)
  then show ?thesis using sched_steps_ok(5) [OF inv pc] h by simp
next
  case (PSuccess slot k)
  then show ?thesis using success_step_ok [OF inv] pc by blast
next
  case (PMark slot k)
  then show ?thesis using mark_step_ok [OF inv] pc by blast
next
  case (PDone r)
  then show ?thesis using inv pc by (auto intro: step_ok_stay)
next
  case PCrash
  then show ?thesis using pc by (simp add: pc_ok_def)
qed

section \<open>Every event keeps the invariant\<close>

definition answer_ok :: "bytes \<Rightarrow> job_event \<Rightarrow> pool \<Rightarrow> bool" where
  "answer_ok obj e p =
     (case e of
        JStep w now inp \<Rightarrow>
          if w < length (plWorkers p) then body_ok obj inp (plWorkers p ! w) (plJob p) else True
      | _ \<Rightarrow> True)"

lemma pc_ok_sink:
  assumes "pc_ok obj cs snk pc" and "is_stream snk' = is_stream snk"
    and "\<And>k. k < length cs \<Longrightarrow> sink_safe obj cs snk k \<Longrightarrow> sink_safe obj cs snk' k"
  shows "pc_ok obj cs snk' pc"
  using assms by (auto simp: pc_ok_def)

lemma step_event_inv:
  assumes inv: "pool_inv obj cs p" and ans: "answer_ok obj (JStep w now inp) p"
  shows "pool_inv obj cs (pool_apply (JStep w now inp) p)"
proof (cases "w < length (plWorkers p)")
  case True
  let ?ws = "plWorkers p" and ?pc = "plWorkers p ! w"
  obtain h where h: "int (count_if holds_hedge ?ws) \<le> h" "job_inv obj cs h (plJob p)"
    using inv by (auto simp: pool_inv_def)
  obtain j pc' where st: "worker_step now inp ?pc (plJob p) = (j, pc')" by fastforce
  have pcs: "\<forall>pc \<in> set ?ws. pc_ok obj cs (jbSink (plJob p)) pc"
    and closed: "sink_closed (jbSink (plJob p)) \<longrightarrow> all_done p"
    using inv by (auto simp: pool_inv_def)
  have done_w: "sink_closed (jbSink (plJob p)) \<Longrightarrow> worker_done ?pc"
    using closed True by (auto simp: all_done_def list_all_length)
  have "step_ok obj cs h ?pc (plJob p) (j, pc')"
    unfolding st [symmetric]
  proof (rule worker_step_ok [OF h(2)])
    show "pc_ok obj cs (jbSink (plJob p)) ?pc" using pcs True by simp
    show "holds_hedge ?pc \<Longrightarrow> 0 < h"
      using count_if_pos [OF True, of holds_hedge] h(1) by linarith
    show "\<not> worker_done ?pc \<Longrightarrow> \<not> sink_closed (jbSink (plJob p))" using done_w by blast
    show "body_ok obj inp ?pc (plJob p)" using ans True by (simp add: answer_ok_def)
  qed
  then obtain h' where h': "h - dup ?pc + dup pc' \<le> h'" "job_inv obj cs h' j"
    and rest: "pc_ok obj cs (jbSink j) pc'" "is_stream (jbSink j) = is_stream (jbSink (plJob p))"
      "sink_closed (jbSink j) = sink_closed (jbSink (plJob p))"
      "\<And>k. k < length cs \<Longrightarrow> sink_safe obj cs (jbSink (plJob p)) k \<Longrightarrow> sink_safe obj cs (jbSink j) k"
    by (auto simp: step_ok_def)
  have "int (count_if holds_hedge (?ws[w := pc'])) \<le> h'"
    using h(1) h'(1) count_if_update_int [OF True, of holds_hedge pc'] by linarith
  moreover have "\<forall>pc \<in> set (?ws[w := pc']). pc_ok obj cs (jbSink j) pc"
  proof
    fix pc assume "pc \<in> set (?ws[w := pc'])"
    then have "pc = pc' \<or> pc \<in> set ?ws" using set_update_subset_insert by fastforce
    then show "pc_ok obj cs (jbSink j) pc"
      using rest(1) pcs pc_ok_sink [OF _ rest(2) rest(4)] by blast
  qed
  moreover have "all_done \<lparr>plJob = j, plWorkers = ?ws[w := pc']\<rparr>" if "sink_closed (jbSink j)"
  proof -
    have "worker_done ?pc" using that rest(3) done_w by simp
    then have "pc' = ?pc" using st by (cases ?pc) auto
    then show ?thesis using that rest(3) closed by (simp add: all_done_def)
  qed
  ultimately show ?thesis
    using True st h'(2) by (auto simp: pool_inv_def)
qed (use inv in simp)

lemma writer_event_inv:
  assumes inv: "pool_inv obj cs p" and e: "\<And>D. faithful D e"
    and cl: "\<And>y. ssClosed (sySink (sink_apply e y)) \<longrightarrow> ssClosed (sySink y) \<or> all_done p"
  shows "pool_inv obj cs (writer_event e p)"
proof (cases "jbSink (plJob p)")
  case (StreamTo y)
  obtain h where h: "int (count_if holds_hedge (plWorkers p)) \<le> h" "job_inv obj cs h (plJob p)"
    using inv by (auto simp: pool_inv_def)
  have "sink_inv (chunk_content obj cs) (sink_apply e y)"
    using h(2) StreamTo by (intro sink_apply_inv e) (simp add: job_inv_def)
  then have "job_inv obj cs h ((plJob p)\<lparr>jbSink := StreamTo (sink_apply e y)\<rparr>)"
    using StreamTo by (intro job_inv_sink [OF h(2)]) (simp_all add: sink_apply_kept)
  moreover have "\<forall>pc \<in> set (plWorkers p). pc_ok obj cs (StreamTo (sink_apply e y)) pc"
    using inv StreamTo by (auto simp: pool_inv_def intro!: sink_apply_kept elim!: pc_ok_sink)
  ultimately show ?thesis
    using StreamTo h(1) inv cl [of y]
    by (auto simp: writer_event_def pool_inv_def all_done_def)
qed (use inv in \<open>simp add: writer_event_def\<close>)

lemma writer_head_closed [simp]: "ssClosed (fst (writer_head ctx s)) = ssClosed s"
  and writer_inner_closed [simp]: "ssClosed (fst (writer_inner s)) = ssClosed s"
  by (auto simp: writer_head_def writer_inner_def Let_def split: option.split list.split)

lemma sink_apply_closed:
  "ssClosed (sySink (sink_apply (EvWriter ctx) y)) = ssClosed (sySink y)"
  "ssClosed (sySink (sink_apply (EvWrite r) y)) = ssClosed (sySink y)"
  by (auto simp: run_writer_def Let_def split: writer_pc.split option.split)

lemma pool_apply_inv:
  assumes inv: "pool_inv obj cs p" and ans: "answer_ok obj e p"
  shows "pool_inv obj cs (pool_apply e p)"
proof (cases e)
  case (JStep w now inp)
  then show ?thesis using step_event_inv [OF inv, of w now inp] ans by simp
next
  case JCancel
  have "job_inv obj cs h (on_sched sched_cancel j)" if "job_inv obj cs h j" for h j
    unfolding on_sched_def using that
    by (intro job_inv_sched [OF that] sched_cancel_inv layout_ops completes_none_ops)
       (simp add: job_inv_def)
  then show ?thesis
    using inv JCancel by (auto simp: pool_inv_def all_done_def on_sched_def)
next
  case (JWriter ctx)
  then show ?thesis by (simp add: writer_event_inv [OF inv] sink_apply_closed del: sink_apply.simps)
next
  case (JWrite r)
  then show ?thesis by (simp add: writer_event_inv [OF inv] sink_apply_closed del: sink_apply.simps)
next
  case JClose
  then show ?thesis using inv by (simp add: writer_event_inv [OF inv] del: sink_apply.simps)
qed

text \<open>Runs whose answers are the object's.\<close>

fun answers :: "bytes \<Rightarrow> job_event list \<Rightarrow> pool \<Rightarrow> bool" where
  "answers obj [] p = True"
| "answers obj (e # es) p = (answer_ok obj e p \<and> answers obj es (pool_apply e p))"

lemma pool_run_simps [simp]:
  "pool_run [] p = p"
  "pool_run (e # es) p = pool_run es (pool_apply e p)"
  by (simp_all add: pool_run_def)

interpretation pool_system:
  inductive_invariant "pool_inv obj cs" "\<lambda>p q. \<exists>e. answer_ok obj e p \<and> q = pool_apply e p"
    "pool_inv obj cs"
  for obj cs
  by unfold_locales (auto intro: pool_apply_inv)

lemma answers_steps:
  "answers obj es p \<Longrightarrow>
     (\<lambda>p q. \<exists>e. answer_ok obj e p \<and> q = pool_apply e p)\<^sup>*\<^sup>* p (pool_run es p)"
  by (induction es arbitrary: p) (auto intro: converse_rtranclp_into_rtranclp)

lemma pool_run_inv: "pool_inv obj cs p \<Longrightarrow> answers obj es p \<Longrightarrow> pool_inv obj cs (pool_run es p)"
  using pool_system.steps_I [OF answers_steps] .

end
