(* ===== verification/Job_Props.thy ===== *)
theory Job_Props
  imports Workers_Inv Scheduler_Props Resume_Props
begin

text \<open>
  End-to-end properties of parallel jobs: a job that exits with success has the object in its
  file, respectively has written the object to its stream, for every interleaving of its
  workers and every behaviour of network, disk and consumer; no interleaving panics; and two
  closed runs that show what the retry accounting and the exit codes do.
\<close>

section \<open>Start of a job\<close>

lemma layout_start:
  "layout s = map (\<lambda>c. (cIndex c, cStart c, cLength c)) cs" if "sChunks s = mark_completed ks cs"
  using that by (simp add: layout_def mark_completed_def)

lemma sched_new_chunks: "sched_new cfg cs b = Some s \<Longrightarrow> sChunks s = cs"
  by (auto simp: sched_new_def split: if_splits option.splits)

lemma pool_start_inv:
  assumes new: "sched_new cfg (mark_completed ks cs) b = Some s"
    and conn: "1 \<le> cfgRequestedConnections cfg" and pre: "prefix_completed (mark_completed ks cs)"
    and idx: "\<forall>i < length cs. cIndex (cs ! i) = int i \<and> cState (cs ! i) = StatePending"
    and tl: "tiled_from 0 cs (int (length obj))" and good: "sink_good obj cs snk"
    and safe: "\<forall>k \<in> set ks. k < length cs \<longrightarrow> sink_safe obj cs snk k"
    and open_sink: "\<not> sink_closed snk"
  shows "pool_inv obj cs (pool_start ep s snk)"
proof -
  have ch: "sChunks s = mark_completed ks cs" by (rule sched_new_chunks [OF new])
  have "count_if holds_hedge (map (\<lambda>i. PTop (int i)) [0..<nat (epConnections ep)]) = 0"
    by (simp add: count_if_zero)
  moreover have "sink_safe obj cs snk k"
    if "k < length cs" "cState (sChunks s ! k) = StateCompleted" for k
    using that idx safe by (auto simp: ch mark_completed_def split: if_splits)
  ultimately show ?thesis
    using sched_new_inv [OF new conn pre] layout_start [OF ch] idx tl good open_sink
    by (auto simp: pool_inv_def pool_start_def job_inv_def chunk_at_def pc_ok_def
        intro!: exI [of _ 0])
qed

lemma sized_for_plan:
  assumes "sized_for p r b obj cs"
  shows "\<forall>i < length cs. cIndex (cs ! i) = int i \<and> cState (cs ! i) = StatePending"
    and "tiled_from 0 cs (int (length obj))" and "plan (epSplitSize p) (prSize r) = Some cs"
  using assms plan_tiled [of "epSplitSize p" "prSize r"]
  by (auto simp: sized_for_def plan_eq)

text \<open>A job keeps its sink, and a file its offset.\<close>

fun sink_base :: "job_sink \<Rightarrow> int option" where
  "sink_base (FileTo fs) = Some (fsBaseOff fs)"
| "sink_base (StreamTo y) = None"

lemma put_step_base: "sink_base (jbSink (fst (put_step inp slot k hedge data j))) = sink_base (jbSink j)"
proof (cases "jbSink j")
  case (FileTo fs)
  show ?thesis
  proof (cases inp)
    case (InWrite fault)
    obtain res fs' where w: "write_part fault (chunk_at j k) data fs = (res, fs')" by fastforce
    then have "fsBaseOff fs' = fsBaseOff fs"
      using write_part_fields(1) [of fault "chunk_at j k" data fs] by simp
    then show ?thesis using FileTo InWrite w by (cases res) (simp_all add: put_step_def)
  qed (use FileTo in \<open>simp_all add: put_step_def\<close>)
qed (simp add: put_step_def split: sum.split)

lemma sidecar_step_base:
  "sink_base (jbSink (fst (sidecar_step now inp slot k hedge j))) = sink_base (jbSink j)"
proof (cases "\<exists>fs w. jbSink j = FileTo fs \<and> inp = InSidecar w")
  case True
  then obtain fs w where fs: "jbSink j = FileTo fs" "inp = InSidecar w" by blast
  obtain res fs' where m: "mark_part now w (chunk_at j k) fs = (res, fs')" by fastforce
  then have "fsBaseOff fs' = fsBaseOff fs"
    using mark_part_fields(2) [of now w "chunk_at j k" fs] by simp
  then show ?thesis using fs m by (cases res) (simp_all add: sidecar_step_def)
qed (auto simp: sidecar_step_def split: job_sink.split step_input.split)

lemma worker_step_base: "sink_base (jbSink (fst (worker_step now inp pc j))) = sink_base (jbSink j)"
proof (cases pc)
  case (PReserve slot k)
  then show ?thesis by (auto simp: reserve_step_def split: job_sink.split sum.split)
qed (auto simp: put_step_base sidecar_step_base on_sched_def Let_def
    split: prod.split option.split)

lemma pool_apply_base: "sink_base (jbSink (plJob (pool_apply e p))) = sink_base (jbSink (plJob p))"
proof (cases e)
  case (JStep w now inp)
  then show ?thesis
    using worker_step_base [of now inp "plWorkers p ! w" "plJob p"] by (auto split: prod.split)
qed (auto simp: writer_event_def on_sched_def split: job_sink.split)

lemma pool_run_base: "sink_base (jbSink (plJob (pool_run es p))) = sink_base (jbSink (plJob p))"
  by (induction es arbitrary: p) (simp_all add: pool_apply_base)

text \<open>A stream job of a plannable object starts, in the invariant.\<close>

lemma stream_start_inv:
  assumes "plan_ok (epSplitSize p) (prSize r)" and "prSize r = int (length obj)"
    and "1 \<le> epConnections p"
  shows "\<exists>q0 cs. stream_start p r = Some q0 \<and> plan (epSplitSize p) (prSize r) = Some cs \<and> cs \<noteq> [] \<and>
    tiled_from 0 cs (int (length obj)) \<and> pool_inv obj cs q0"
proof -
  obtain cs where cs: "plan (epSplitSize p) (prSize r) = Some cs"
    using plan_layout.mk_total [OF assms(1)] by blast
  have pl: "\<forall>i < length cs. cIndex (cs ! i) = int i \<and> cState (cs ! i) = StatePending"
    "tiled_from 0 cs (int (length obj))" "mark_completed [] cs = cs" "cs \<noteq> []"
    using cs plan_tiled [OF assms(1)] assms(1,2) n_chunks_bounds(1) [OF assms(1)]
    by (auto simp: plan_eq mark_completed_def)
  have pre: "prefix_completed (mark_completed [] cs)"
    using pl by (auto intro!: all_pending_prefix simp: all_pending_def list_all_length)
  have "epSplitSize p \<noteq> 0" using assms(1) by (auto simp: plan_ok_def)
  then obtain s where s: "sched_new (stream_config p) (mark_completed [] cs) True = Some s"
    using assms(3)
    by (auto simp: sched_new_def stream_config_def initial_target_def go_div_def Let_def
        split: option.split)
  let ?q0 = "pool_start p s (StreamTo (sink_init (epBufferSize p)))"
  have "stream_start p r = Some ?q0" using cs s pl(3) by (simp add: stream_start_def)
  moreover have "pool_inv obj cs ?q0"
    using assms(3) pl pre
    by (intro pool_start_inv [OF s])
       (simp_all add: stream_config_def sink_init_inv, simp add: sink_init_def new_stream_sink_def)
  ultimately show ?thesis using pl cs by blast
qed

text \<open>A file job that was set up starts in the invariant.\<close>

lemma file_start_inv:
  assumes sz: "sized_for p r b obj cs" and conn: "1 \<le> epConnections p"
    and doc: "doc_sound obj cs b file (mgFile m)"
    and ex: "file = (case seExisting env of None \<Rightarrow> [] | Some d \<Rightarrow> d)"
    and safe: "\<forall>k \<in> set ks. k < length cs \<longrightarrow> chunk_safe obj b file (cs ! k)"
    and pre: "prefix_completed (mark_completed ks cs)"
    and su: "parallel_file_setup p sha env url display dest r b ks m = Some (SetupRun fs chunks)"
    and st: "file_start p fs chunks = Some q0"
  shows "pool_inv obj cs q0" and "jbSink (plJob q0) = FileTo fs"
proof -
  note run = parallel_file_setup_sound [OF sz doc ex safe su]
  note pl = sized_for_plan [OF sz]
  obtain s where s: "sched_new (file_config p) (mark_completed ks cs) False = Some s"
    "q0 = pool_start p s (FileTo fs)"
    using st run(4) by (auto simp: file_start_def)
  show "pool_inv obj cs q0"
    unfolding s(2) using s(1) conn safe pre pl run
    by (intro pool_start_inv [OF s(1)]) (simp_all add: file_config_def)
  show "jbSink (plJob q0) = FileTo fs" unfolding s(2) by (simp add: pool_start_def)
qed

section \<open>Success means that every chunk is in the sink\<close>

lemma exit_of_text_fails: "exit_of_text s \<noteq> ExitSuccess"
  by (simp add: exit_of_text_def)

lemma run_workers_success:
  assumes "run_workers_exit msg results s = ExitSuccess"
  shows "int (length (sChunks s)) \<le> sCompletedCount s"
  using assms exit_of_text_fails
  by (auto simp: run_workers_exit_def sched_progress_def split: option.splits if_splits)

lemma pool_success:
  assumes inv: "pool_inv obj cs q" and ok: "run_workers_exit msg results (jbSched (plJob q)) = ExitSuccess"
    and k: "k < length cs"
  shows "sink_safe obj cs (jbSink (plJob q)) k"
proof -
  obtain h where j: "job_inv obj cs h (plJob q)" using inv by (auto simp: pool_inv_def)
  have "\<forall>c \<in> set (sChunks (jbSched (plJob q))). cState c = StateCompleted"
    using all_completed [OF _ run_workers_success [OF ok]] j by (auto simp: job_inv_def)
  then have "cState (chunk_at (plJob q) k) = StateCompleted"
    using k job_inv_length [OF j] by (simp add: chunk_at_def)
  with j k show ?thesis by (simp add: job_inv_def)
qed

lemma written_all:
  assumes "tiled_from 0 cs (int (length obj))" and "int (length cs) \<le> n"
  shows "written (chunk_content obj cs) n = obj"
proof -
  have "written (chunk_content obj cs) (int (length cs) + int m) = obj" for m
  proof (induction m)
    case 0
    have "map (\<lambda>i. chunk_content obj cs (int i)) [0..<length cs] = map (chunk_bytes obj) cs"
      by (rule nth_equalityI) (simp_all add: chunk_content_def)
    then show ?case
      using tiled_from_concat [OF assms(1), of obj] by (simp add: written_def subslice_all)
  next
    case (Suc m)
    have "written (chunk_content obj cs) (int (length cs) + int m + 1) =
        written (chunk_content obj cs) (int (length cs) + int m) @
        chunk_content obj cs (int (length cs) + int m)"
      by (rule written_step) simp
    moreover have "chunk_content obj cs (int (length cs) + int m) = []"
      by (simp add: chunk_content_def in_range_def)
    ultimately show ?case using Suc by (simp add: algebra_simps)
  qed
  from this [of "nat (n - int (length cs))"] assms(2) show ?thesis by simp
qed

section \<open>Properties\<close>

text \<open>a parallel download to a file, fresh or resumed from completed chunks that form a
  prefix and are in the file. For every interleaving of its workers, with requests and reads
  that fail in any way, file writes cut short, sidecar updates that fail and cancellations at
  any time, as long as the bodies that are delivered are the requested ranges of the object:
  when all workers have returned and the exit code is success, the file holds the object,
  byte for byte, at the output offset.\<close>

theorem file_job_correct:
  assumes "sized_for p r b obj cs" and "1 \<le> epConnections p"
    and "doc_sound obj cs b (case seExisting env of None \<Rightarrow> [] | Some d \<Rightarrow> d) (mgFile m)"
    and "\<forall>k \<in> set ks. k < length cs \<longrightarrow>
      chunk_safe obj b (case seExisting env of None \<Rightarrow> [] | Some d \<Rightarrow> d) (cs ! k)"
    and "prefix_completed (mark_completed ks cs)"
    and "parallel_file_setup p sha env url display dest r b ks m = Some (SetupRun fs chunks)"
    and "file_start p fs chunks = Some q0" and "answers obj es q0"
    and "run_workers_exit msg results (jbSched (plJob (pool_run es q0))) = ExitSuccess"
  shows "\<exists>fs'. jbSink (plJob (pool_run es q0)) = FileTo fs' \<and>
    subslice (fsData fs') b (int (length obj)) = obj"
proof -
  note pl = sized_for_plan [OF assms(1)]
  note q0 = file_start_inv [OF assms(1-3) refl assms(4-7)]
  have base: "fsBaseOff fs = b" by (rule parallel_file_setup_sound(3) [OF assms(1,3) refl assms(4,6)])
  have inv: "pool_inv obj cs (pool_run es q0)" by (rule pool_run_inv [OF q0(1) assms(8)])
  have "sink_base (jbSink (plJob (pool_run es q0))) = Some b"
    by (simp add: pool_run_base q0(2) base)
  then obtain fs' where fs': "jbSink (plJob (pool_run es q0)) = FileTo fs'" "fsBaseOff fs' = b"
    by (cases "jbSink (plJob (pool_run es q0))") auto
  have "\<forall>c \<in> set cs. range_ok obj b (fsData fs') (cStart c) (cStart c + cLength c)"
    using pool_success [OF inv assms(9)] fs' by (auto simp: in_set_conv_nth chunk_safe_def)
  then have "range_ok obj b (fsData fs') 0 (int (length obj))"
    by (rule range_ok_tiled [OF pl(2)])
  then show ?thesis
    using fs' assms(1) range_ok_all [of obj b "fsData fs'"] by (auto simp: sized_for_def)
qed

text \<open>Two workers fetch the two chunks of the demo object; the second overtakes the first.\<close>

definition file_moves :: "nat \<Rightarrow> gtime \<Rightarrow> bytes \<Rightarrow> job_event list" where
  "file_moves w t d = [JStep w t (InBody d), JStep w (t + 1) (InWrite None),
     JStep w (t + 2) (InSidecar WriteOk), JStep w (t + 3) InOk, JStep w (t + 4) InOk]"

definition demo_job_events :: "job_event list" where
  "demo_job_events = [JStep 0 1 InOk, JStep 0 2 InOk, JStep 1 3 InOk, JStep 1 4 InOk] @
     file_moves 1 5 [30, 40] @ file_moves 0 10 [10, 20]"

definition demo_pool :: pool where
  "demo_pool = the (Option.bind (setup_fs demo_setup)
     (\<lambda>fs. file_start (demo_plan 2) fs (mark_completed [] (map (plan_chunk 2 4) [0..<2]))))"

lemma demo_job_run:
  "answers demo_obj demo_job_events demo_pool \<and>
   run_workers_exit (\<lambda>e. []) [] (jbSched (plJob (pool_run demo_job_events demo_pool))) = ExitSuccess"
  by code_simp

theorem file_job_correct_witness:
  "\<exists>fs'. jbSink (plJob (pool_run demo_job_events demo_pool)) = FileTo fs' \<and>
     subslice (fsData fs') 0 4 = demo_obj"
proof -
  let ?cs = "map (plan_chunk 2 4) [0..<2]"
  obtain fs chunks where su: "demo_setup = Some (SetupRun fs chunks)"
    using demo_setup_run by blast
  have doc: "doc_sound demo_obj ?cs 0 (case seExisting demo_env of None \<Rightarrow> [] | Some d \<Rightarrow> d)
      (mgFile (new_manager ''f'' None None))" by (simp add: new_manager_def)
  have ch: "chunks = mark_completed [] ?cs"
    by (rule parallel_file_setup_sound(4) [OF demo_sized doc refl _ su [unfolded demo_setup_def]])
       simp
  have "file_start (demo_plan 2) fs chunks \<noteq> None"
    by (simp add: file_start_def sched_new_def initial_target_def file_config_def demo_plan_def
        default_plan_def default_connections_def Let_def)
  then obtain q where q: "file_start (demo_plan 2) fs chunks = Some q" by blast
  have pool: "demo_pool = q"
    unfolding demo_pool_def su using q ch by simp
  have pre: "prefix_completed (mark_completed [] ?cs)"
    by (intro all_pending_prefix) (simp add: all_pending_def mark_completed_def list_all_iff)
  have conn: "1 \<le> epConnections (demo_plan 2)"
    by (simp add: demo_plan_def default_plan_def default_connections_def)
  from file_job_correct [OF demo_sized conn doc _ pre su [unfolded demo_setup_def] q [folded pool]
      conjunct1 [OF demo_job_run] conjunct2 [OF demo_job_run]]
  show ?thesis by (simp add: demo_obj_def)
qed

text \<open>a parallel download to a stream. For every interleaving of workers (with speculative
  duplicates), writer and consumer, every failure of requests and cancellations, as long as
  delivered bodies are the requested ranges: when the stream is closed after all workers, the
  writer has returned and the job's exit code is success, the consumer has received the
  object, complete and in order.\<close>

theorem stream_job_correct:
  assumes "plan_ok (epSplitSize p) (prSize r)" and "prSize r = int (length obj)"
    and "1 \<le> epConnections p"
    and "stream_start p r = Some q0" and "answers obj es q0"
    and "jbSink (plJob (pool_run es q0)) = StreamTo y" and "syPc y = WReturned werr"
    and "stream_exit (run_workers_exit msg results (jbSched (plJob (pool_run es q0)))) werr =
      ExitSuccess"
  shows "syOut y = obj"
proof -
  obtain cs where cs: "cs \<noteq> []" "tiled_from 0 cs (int (length obj))" "pool_inv obj cs q0"
    using stream_start_inv [OF assms(1-3)] assms(4) by auto
  then have inv: "pool_inv obj cs (pool_run es q0)" by (intro pool_run_inv assms(5))
  have exits: "run_workers_exit msg results (jbSched (plJob (pool_run es q0))) = ExitSuccess"
    "werr = None"
    using assms(8) by (auto simp: stream_exit_def split: if_splits)
  have "int k < ssNextIndex (sySink y)" if "k < length cs" for k
    using pool_success [OF inv exits(1) that] assms(6,7) exits(2) by (simp add: kept_def)
  from this [of "length cs - 1"] cs(1) have "int (length cs) \<le> ssNextIndex (sySink y)"
    by (cases cs) auto
  moreover have "sink_inv (chunk_content obj cs) y"
    using inv assms(6) by (auto simp: pool_inv_def job_inv_def)
  then have "syOut y = written (chunk_content obj cs) (ssNextIndex (sySink y))"
    using assms(7) exits(2) by (simp add: sink_inv_def)
  ultimately show ?thesis using written_all [OF cs(2)] by simp
qed

definition demo_stream_plan :: "int \<Rightarrow> int \<Rightarrow> execution_plan" where
  "demo_stream_plan buf tries = (demo_plan 2)\<lparr>epConnections := 2, epBufferSize := buf, epMaxTries := tries\<rparr>"

definition demo_stream :: "int \<Rightarrow> int \<Rightarrow> pool" where
  "demo_stream buf tries = the (stream_start (demo_stream_plan buf tries) demo_probe)"

text \<open>The steps of a worker from its head to its next, fetching one chunk.\<close>

definition stream_moves :: "nat \<Rightarrow> gtime \<Rightarrow> bytes \<Rightarrow> job_event list" where
  "stream_moves w t d = [JStep w t InOk, JStep w (t + 1) InOk, JStep w (t + 2) InOk,
     JStep w (t + 3) (InBody d), JStep w (t + 4) InOk, JStep w (t + 5) InOk, JStep w (t + 6) InOk]"

definition demo_stream_events :: "job_event list" where
  "demo_stream_events = [JStep 0 1 InOk, JStep 0 2 InOk] @ stream_moves 1 3 [30, 40] @
     [JStep 0 10 InOk, JStep 0 11 (InBody [10, 20]), JStep 0 12 InOk, JWriter False,
      JStep 0 13 InOk, JWrite None, JStep 0 14 InOk, JWrite None, JStep 0 15 InOk,
      JStep 0 16 InOk, JStep 1 17 InOk, JStep 1 18 InOk, JClose, JWriter False]"

fun stream_of :: "job_sink \<Rightarrow> sink_sys" where
  "stream_of (StreamTo y) = y"
| "stream_of (FileTo fs) = sink_init 0"

lemma demo_stream_run:
  "answers demo_obj demo_stream_events (demo_stream 4 2) \<and>
   is_stream (jbSink (plJob (pool_run demo_stream_events (demo_stream 4 2)))) \<and>
   syPc (stream_of (jbSink (plJob (pool_run demo_stream_events (demo_stream 4 2))))) = WReturned None \<and>
   run_workers_exit (\<lambda>e. []) [] (jbSched (plJob (pool_run demo_stream_events (demo_stream 4 2)))) = ExitSuccess"
  by code_simp

theorem stream_job_correct_witness:
  "syOut (stream_of (jbSink (plJob (pool_run demo_stream_events (demo_stream 4 2))))) =
     [10, 20, 30, 40]"
proof -
  let ?q = "pool_run demo_stream_events (demo_stream 4 2)"
  have ok: "plan_ok (epSplitSize (demo_stream_plan 4 2)) (prSize demo_probe)"
    by (simp add: demo_stream_plan_def demo_plan_def demo_probe_def plan_ok_def)
  have sz: "prSize demo_probe = int (length demo_obj)"
    by (simp add: demo_probe_def demo_obj_def)
  have conn: "1 \<le> epConnections (demo_stream_plan 4 2)"
    by (simp add: demo_stream_plan_def)
  have "stream_start (demo_stream_plan 4 2) demo_probe \<noteq> None" by code_simp
  then have st: "stream_start (demo_stream_plan 4 2) demo_probe = Some (demo_stream 4 2)"
    by (simp add: demo_stream_def)
  have y: "jbSink (plJob ?q) = StreamTo (stream_of (jbSink (plJob ?q)))"
    using demo_stream_run by (cases "jbSink (plJob ?q)") auto
  have ex: "stream_exit (run_workers_exit (\<lambda>e. []) [] (jbSched (plJob ?q))) None = ExitSuccess"
    using demo_stream_run by (simp add: stream_exit_def)
  have "syOut (stream_of (jbSink (plJob ?q))) = demo_obj"
    using stream_job_correct [OF ok sz conn st _ y _ ex] demo_stream_run by blast
  then show ?thesis by (simp add: demo_obj_def)
qed



text \<open>One worker, a buffer of one chunk, and a consumer that has not taken the first chunk.\<close>

definition slow_consumer_events :: "job_event list" where
  "slow_consumer_events = stream_moves 0 1 [10, 20] @ [JStep 0 8 InOk] @
     concat (map (\<lambda>t. [JStep 0 t InOk, JStep 0 (t + 1) InOk, JStep 0 (t + 2) InOk, JStep 0 (t + 3) InOk])
       [10, seconds 2]) @ [JStep 0 (seconds 3) InOk, JStep 0 (seconds 3) InOk]"

text \<open>A chunk for which no buffer can be reserved counts as a failed attempt. With a buffer
  of one chunk, two tries and a consumer that has not yet taken the first chunk, the second
  chunk runs out of attempts without a single request for it, and the job is cancelled.\<close>

theorem slow_consumer_fails_job:
  "answers demo_obj slow_consumer_events (demo_stream 2 2) \<and>
   hd (plWorkers (pool_run slow_consumer_events (demo_stream 2 2))) =
     PDone (Some (WSched ErrCanceled)) \<and>
   sFatalErr (jbSched (plJob (pool_run slow_consumer_events (demo_stream 2 2)))) =
     Some (ErrExhausted 1 2 2)"
proof (intro conjI)
  show "answers demo_obj slow_consumer_events (demo_stream 2 2)" by code_simp
  show "hd (plWorkers (pool_run slow_consumer_events (demo_stream 2 2))) =
     PDone (Some (WSched ErrCanceled))" by code_simp
  show "sFatalErr (jbSched (plJob (pool_run slow_consumer_events (demo_stream 2 2)))) =
     Some (ErrExhausted 1 2 2)" by code_simp
qed

end
