(* ===== verification/Runner.thy ===== *)
theory Runner
  imports Http_Adapter Job_Setup
begin

text \<open>
  The job runner, \<open>internal/job/runner.go\<close>, around its parallel downloads: the names it derives
  from URLs, the decision what to do with one URL (\<open>runOneJob\<close>), the sequential download, and
  \<open>Run\<close>, which opens the output, walks the URLs and combines their exit codes. The files of
  the working directory are a map from paths to contents and modification times. The probe,
  the sequential request and the execution of a chosen action are arguments of \<open>run\<close>; the
  parallel actions are set up in \<open>Job_Setup\<close> and executed by the pool of \<open>Workers\<close>.
\<close>

section \<open>Names\<close>

definition sanitize_display_url :: "string \<Rightarrow> string" where
  "sanitize_display_url url =
     (case str_index url ''://'' of
        None \<Rightarrow> url
      | Some i \<Rightarrow>
          (case split_two (CHR ''@'') (drop (i + 3) url) of
             None \<Rightarrow> url
           | Some (_, r) \<Rightarrow> take (i + 3) url @ r))"

definition before_char :: "char \<Rightarrow> string \<Rightarrow> string" where
  "before_char c s = (case split_two c s of None \<Rightarrow> s | Some (p, _) \<Rightarrow> p)"

definition resolve_filename :: "probe_result option \<Rightarrow> string \<Rightarrow> string" where
  "resolve_filename r displayURL =
     (let from_url = (case last_index_char displayURL (CHR ''/'') of
             None \<Rightarrow> ''index.html''
           | Some i \<Rightarrow>
               let name = before_char (CHR ''?'') (drop (i + 1) displayURL)
               in if name \<noteq> [] \<and> name \<noteq> ''/'' then name else ''index.html'')
      in case r of
           Some p \<Rightarrow>
             if omFilename (prMeta p) \<noteq> [] \<and> omFilename (prMeta p) \<noteq> ''index.html''
             then omFilename (prMeta p) else from_url
         | None \<Rightarrow> from_url)"

definition progress_label :: "string \<Rightarrow> string" where
  "progress_label url =
     (let u = before_char (CHR ''#'') (before_char (CHR ''?'') url)
      in case last_index_char u (CHR ''/'') of
           None \<Rightarrow> u
         | Some i \<Rightarrow> if drop (i + 1) u \<noteq> [] then drop (i + 1) u else u)"

section \<open>Files\<close>

record file_entry =
  feData :: bytes
  feModTime :: gtime

type_synonym files = "string \<rightharpoonup> file_entry"

section \<open>What to do with one URL\<close>

text \<open>The outcome of a probe and of the other questions that \<open>runOneJob\<close> asks: whether the
  directory of the output can be made, what is at a path, and the sidecar of a destination.\<close>

record job_env =
  jeProbe :: "string \<Rightarrow> (http_err, probe_result) res"
  jeDirOk :: "string \<Rightarrow> bool"
  jeSidecar :: "string \<Rightarrow> manager"

text \<open>The final steps of \<open>runOneJob\<close>. \<open>ActSequential url dest r toOutput counts\<close> writes to the
  opened output when there is one (\<open>toOutput\<close>) and may advance the output offset (\<open>counts\<close>);
  the call of \<open>-c\<close> passes nil for both.\<close>

datatype job_action =
    ActExit exit_code
  | ActParallelFile string string probe_result "nat list"
  | ActParallelStream string probe_result
  | ActSequential string string probe_result bool bool

definition first_dest :: "execution_plan \<Rightarrow> string \<Rightarrow> string" where
  "first_dest p display =
     (case epOutputMode p of
        OutputStdout \<Rightarrow> []
      | OutputSingle \<Rightarrow> epOutputFile p
      | OutputFile \<Rightarrow> resolve_filename None display)"

text \<open>\<open>checkTimestamp\<close>: skip when the remote file is not newer and the sizes are equal.\<close>

definition check_timestamp :: "(http_err, probe_result) res \<Rightarrow> file_entry option \<Rightarrow> bool" where
  "check_timestamp pr entry =
     (case pr of
        Ret r \<Rightarrow>
          (case entry of
             None \<Rightarrow> False
           | Some f \<Rightarrow>
               omModTime (prMeta r) \<noteq> zero_time \<and> \<not> omModTime (prMeta r) > feModTime f \<and>
               prSize r = int (length (feData f)))
      | _ \<Rightarrow> False)"

definition use_parallel :: "execution_plan \<Rightarrow> probe_result \<Rightarrow> bool" where
  "use_parallel p r \<longleftrightarrow>
     prRangeCapable r \<and> \<not> epNoParallel p \<and> epConnections p > 1 \<and> prSize r > 0"

definition dispatch ::
  "execution_plan \<Rightarrow> string \<Rightarrow> string \<Rightarrow> probe_result \<Rightarrow> nat list \<Rightarrow> job_action" where
  "dispatch p url dest r completed =
     (let stream = (epOutputMode p = OutputStdout)
      in if use_parallel p r \<and> \<not> stream then ActParallelFile url dest r completed
         else if use_parallel p r \<and> stream then ActParallelStream url r
         else ActSequential url dest r (epOutputMode p \<noteq> OutputFile) True)"

text \<open>All requests after the probe go to the URL behind its redirects.\<close>

definition effective_url :: "probe_result \<Rightarrow> string \<Rightarrow> string" where
  "effective_url r url =
     (let final = omFinalURL (prMeta r) in if final \<noteq> [] \<and> final \<noteq> url then final else url)"

text \<open>The options of all requests of the plan's jobs.\<close>

definition adapter_options :: "execution_plan \<Rightarrow> request_options" where
  "adapter_options p =
     \<lparr>roUserAgent = epUserAgent p, roReferer = epReferer p, roHeaders = epExtraHeaders p,
      roTimeout = epTimeout p, roConnectTimeout = epConnectTimeout p,
      roReadTimeout = epReadTimeout p, roInsecureSkipVerify = epInsecureSkipVerify p,
      roRetryConnRefused = epRetryConnRefused p, roRetryOnHTTPError = epRetryOnHTTPError p\<rparr>"

text \<open>\<open>None\<close> is a panic while reading the sidecar.\<close>

definition run_one_job ::
  "execution_plan \<Rightarrow> job_env \<Rightarrow> files \<Rightarrow> string \<Rightarrow> string \<Rightarrow> job_action option" where
  "run_one_job p env fs url display =
     (if epSpider p then
        Some (ActExit (case jeProbe env url of Ret _ \<Rightarrow> ExitSuccess | _ \<Rightarrow> ExitNetworkFail))
      else
        let dest0 = first_dest p display in
        if epOutputMode p = OutputSingle \<and> dest0 \<noteq> ''-'' \<and> \<not> jeDirOk env dest0
        then Some (ActExit ExitIOError)
        else if epNoClobber p \<and> dest0 \<noteq> [] \<and> fs dest0 \<noteq> None then Some (ActExit ExitSuccess)
        else if epTimestampMode p = TimestampCheck \<and> dest0 \<noteq> [] \<and>
          check_timestamp (jeProbe env url) (fs dest0)
        then Some (ActExit ExitSuccess)
        else case jeProbe env url of
          Ret r \<Rightarrow>
            let dest = (if epOutputMode p = OutputFile then resolve_filename (Some r) display else dest0);
                eff = effective_url r url
            in if dest = [] then Some (dispatch p eff dest r [])
               else (case resume_check (prSize r) (jeSidecar env dest) of
                 None \<Rightarrow> None
               | Some NoSidecar \<Rightarrow>
                   if epContinueMode p = ContinueAuto \<and>
                     (case fs dest of None \<Rightarrow> False | Some f \<Rightarrow> feData f \<noteq> [])
                   then Some (ActSequential eff dest r False False)
                   else Some (dispatch p eff dest r [])
               | Some d \<Rightarrow> Some (dispatch p eff dest r (decision_chunks d)))
        | _ \<Rightarrow> Some (ActExit ExitNetworkFail))"

section \<open>The sequential download\<close>

text \<open>The state it works on: the files, what was written to stdout, the position of the handle
  that \<open>-O FILE\<close> opened, and the output offset that the jobs share. The environment contributes the sequential reader for an offset, whether the destination opens,
  after how many bytes the copy fails, and the clock.\<close>

record seq_env =
  sqOpen :: "string \<Rightarrow> int \<Rightarrow> (http_err, bytes) res"
  sqDestOk :: bool
  sqCopyFails :: "nat option"
  sqNow :: gtime

record output_state =
  osFiles :: files
  osStdout :: bytes
  osPos :: nat
  osBaseOffset :: int

definition sequential_offset :: "execution_plan \<Rightarrow> files \<Rightarrow> string \<Rightarrow> probe_result \<Rightarrow> int" where
  "sequential_offset p fs dest r =
     (case fs dest of
        Some f \<Rightarrow>
          if epContinueMode p = ContinueAuto \<and> prSize r > 0 then int (length (feData f)) else 0
      | None \<Rightarrow> 0)"

definition copied :: "nat option \<Rightarrow> bytes \<Rightarrow> bytes" where
  "copied fault body = (case fault of None \<Rightarrow> body | Some n \<Rightarrow> take n body)"

text \<open>A write to the opened output: stdout, or the file of \<open>-O\<close> at the position of its handle.\<close>

definition output_write :: "execution_plan \<Rightarrow> gtime \<Rightarrow> bytes \<Rightarrow> 'z output_state_scheme \<Rightarrow> 'z output_state_scheme" where
  "output_write p now d st =
     (if epOutputMode p = OutputStdout then st\<lparr>osStdout := osStdout st @ d\<rparr>
      else
        let old = (case osFiles st (epOutputFile p) of Some f \<Rightarrow> feData f | None \<Rightarrow> [])
        in st\<lparr>osFiles := (osFiles st)(epOutputFile p \<mapsto>
                 \<lparr>feData = (if d = [] then old else write_at old (int (osPos st)) d), feModTime = now\<rparr>),
              osPos := osPos st + length d\<rparr>)"

text \<open>With \<open>O_APPEND\<close> for an offset, with \<open>O_TRUNC\<close> without one; a destination that was opened
  stays truncated when the request fails.\<close>

definition download_sequential ::
  "execution_plan \<Rightarrow> seq_env \<Rightarrow> string \<Rightarrow> string \<Rightarrow> probe_result \<Rightarrow> bool \<Rightarrow> bool \<Rightarrow>
     'z output_state_scheme \<Rightarrow> exit_code \<times> 'z output_state_scheme" where
  "download_sequential p env url dest r toOutput counts st =
     (let fs = osFiles st;
          offset = (if toOutput then 0 else sequential_offset p fs dest r);
          old = (case fs dest of Some f \<Rightarrow> feData f | None \<Rightarrow> []);
          base = (if offset > 0 then old else [])
      in if \<not> toOutput \<and> dest = [] then (ExitIOError, st)
         else if \<not> toOutput \<and> \<not> sqDestOk env then (ExitIOError, st)
         else
           let st1 = (if toOutput then st
                      else st\<lparr>osFiles := fs(dest \<mapsto> \<lparr>feData = base, feModTime = sqNow env\<rparr>)\<rparr>)
           in case sqOpen env url offset of
                Ret body \<Rightarrow>
                  let written = copied (sqCopyFails env) body;
                      st2 = (if toOutput then output_write p (sqNow env) written st1
                             else st1\<lparr>osFiles := (osFiles st1)(dest \<mapsto>
                                    \<lparr>feData = base @ written, feModTime = sqNow env\<rparr>)\<rparr>);
                      mt = omModTime (prMeta r);
                      st3 = (if dest \<noteq> [] \<and> \<not> epNoUseServerTimestamps p \<and> mt \<noteq> zero_time
                             then st2\<lparr>osFiles := (osFiles st2)(dest :=
                                    map_option (\<lambda>f. f\<lparr>feModTime := mt\<rparr>) (osFiles st2 dest))\<rparr>
                             else st2);
                      st4 = (if prSize r > 0 \<and> counts
                             then st3\<lparr>osBaseOffset := i64 (osBaseOffset st3 + prSize r)\<rparr> else st3)
                  in if sqCopyFails env \<noteq> None then (ExitNetworkFail, st2) else (ExitSuccess, st4)
              | _ \<Rightarrow> (ExitNetworkFail, st1))"

section \<open>Run\<close>

text \<open>\<open>execute url\<close> carries out an action of the job of \<open>url\<close>; \<open>None\<close> is a panic. With \<open>-O\<close> the
  first failure ends the run, otherwise the highest exit code is returned.\<close>

fun run_urls ::
  "execution_plan \<Rightarrow> ('z output_state_scheme \<Rightarrow> job_env) \<Rightarrow>
     (string \<Rightarrow> job_action \<Rightarrow> 'z output_state_scheme \<Rightarrow> (exit_code \<times> 'z output_state_scheme) option) \<Rightarrow>
     string list \<Rightarrow> exit_code \<Rightarrow> 'z output_state_scheme \<Rightarrow>
     (exit_code \<times> 'z output_state_scheme) option" where
  "run_urls p env execute [] worst st = Some (worst, st)"
| "run_urls p env execute (url # urls) worst st =
     (case run_one_job p (env st) (osFiles st) url (sanitize_display_url url) of
        None \<Rightarrow> None
      | Some act \<Rightarrow>
          (case (case act of ActExit e \<Rightarrow> Some (e, st) | _ \<Rightarrow> execute url act st) of
             None \<Rightarrow> None
           | Some (ec, st') \<Rightarrow>
               if ec \<noteq> ExitSuccess \<and> epOutputMode p \<noteq> OutputFile then Some (ec, st')
               else run_urls p env execute urls
                      (if exit_num ec > exit_num worst then ec else worst) st'))"

text \<open>\<open>createOk\<close> is the outcome of \<open>os.Create\<close>, \<open>child\<close> that this is the background child,
  \<open>detachOk\<close> that the child process could be started (the parent then exits with 0).\<close>

definition run ::
  "execution_plan \<Rightarrow> bool \<Rightarrow> bool \<Rightarrow> bool \<Rightarrow> gtime \<Rightarrow> ('z output_state_scheme \<Rightarrow> job_env) \<Rightarrow>
     (string \<Rightarrow> job_action \<Rightarrow> 'z output_state_scheme \<Rightarrow> (exit_code \<times> 'z output_state_scheme) option) \<Rightarrow>
     'z output_state_scheme \<Rightarrow> (exit_code \<times> 'z output_state_scheme) option" where
  "run p child detachOk createOk now env execute st =
     (if epURLs p = [] then Some (ExitParseError, st)
      else if epBackground p = BackgroundChild \<and> \<not> child then
        Some (if epOutputMode p = OutputStdout then ExitParseError
              else if detachOk then ExitSuccess else ExitGenericError, st)
      else if epOutputMode p = OutputSingle \<and> \<not> createOk then Some (ExitIOError, st)
      else
        let st0 = st\<lparr>osPos := 0, osBaseOffset := 0\<rparr>;
            st1 = (if epOutputMode p = OutputSingle
                   then st0\<lparr>osFiles := (osFiles st)(epOutputFile p \<mapsto> \<lparr>feData = [], feModTime = now\<rparr>)\<rparr>
                   else st0)
        in run_urls p env execute (epURLs p) ExitSuccess st1)"

end
