(* ===== verification/Runner_Props.thy ===== *)
theory Runner_Props
  imports Runner
begin

text \<open>
  The properties of the job runner around its parallel downloads: that displayed URLs carry no
  credentials, what a sequential download leaves in its file, and closed or general facts about
  the combinations of options for which the code does not do what it announces.
\<close>

section \<open>Display URLs\<close>

lemma has_prefix_append [simp]: "has_prefix (p @ s) p"
  by (simp add: has_prefix_def)

lemma str_index_skip:
  assumes "CHR '':'' \<notin> set a"
  shows "str_index (a @ ''://'' @ r) ''://'' = Some (length a)"
  using assms
proof (induction a)
  case Nil
  then show ?case by (subst str_index.simps) (simp add: has_prefix_def)
next
  case (Cons c a)
  then show ?case by (subst str_index.simps) (auto simp: has_prefix_def)
qed

text \<open>the URL that is shown, used as a label and recorded in the sidecar drops the user
  information up to the first at sign, and leaves a URL without an at sign as it is.\<close>

theorem display_url_hides_credentials:
  assumes "CHR '':'' \<notin> set scheme" and "CHR ''@'' \<notin> set user"
  shows "sanitize_display_url (scheme @ ''://'' @ user @ ''@'' @ r) = scheme @ ''://'' @ r \<and>
    (CHR ''@'' \<notin> set r \<longrightarrow> sanitize_display_url (scheme @ ''://'' @ r) = scheme @ ''://'' @ r)"
proof
  have t: "take (length scheme + 3) (scheme @ ''://'' @ x) = scheme @ ''://''"
    "drop (length scheme + 3) (scheme @ ''://'' @ x) = x" for x
    by simp_all
  have u: "split_two (CHR ''@'') (user @ CHR ''@'' # r) = Some (user, r)"
    by (rule split_two_append [OF assms(2)])
  show "sanitize_display_url (scheme @ ''://'' @ user @ ''@'' @ r) = scheme @ ''://'' @ r"
    using str_index_skip [OF assms(1), of "user @ ''@'' @ r"] t [of "user @ ''@'' @ r"] u
    by (simp add: sanitize_display_url_def)
  have n: "CHR ''@'' \<notin> set x \<Longrightarrow> split_two (CHR ''@'') x = None" for x
    by (induction x) auto
  show "CHR ''@'' \<notin> set r \<longrightarrow> sanitize_display_url (scheme @ ''://'' @ r) = scheme @ ''://'' @ r"
    using str_index_skip [OF assms(1), of r] t [of r] n [of r]
    by (simp add: sanitize_display_url_def)
qed

theorem display_url_hides_credentials_witness:
  "sanitize_display_url ''ftp://me:pw@host/f'' = ''ftp://host/f''"
  using display_url_hides_credentials [of "''ftp''" "''me:pw''" "''host/f''"] by simp

text \<open>A URL whose path contains an at sign loses its host, and so its file name is taken from
  the wrong part.\<close>

lemma display_url_cuts_path:
  "sanitize_display_url ''http://h/pkg@1.2.tgz'' = ''http://1.2.tgz''"
  by code_simp

section \<open>Sequential downloads\<close>

lemma download_sequential_file:
  assumes "sqDestOk env" and "dest \<noteq> []"
    and "sqOpen env url (sequential_offset p (osFiles st) dest r) = Ret body"
    and "sqCopyFails env = None"
    and "old = (if sequential_offset p (osFiles st) dest r > 0
      then (case osFiles st dest of Some f \<Rightarrow> feData f | None \<Rightarrow> []) else [])"
  shows "fst (download_sequential p env url dest r False c st) = ExitSuccess \<and>
    map_option feData (osFiles (snd (download_sequential p env url dest r False c st)) dest) =
      Some (old @ body)"
  using assms by (simp add: download_sequential_def Let_def copied_def)


definition demo_files :: "bytes \<Rightarrow> output_state" where
  "demo_files d = \<lparr>osFiles = [''f'' \<mapsto> \<lparr>feData = d, feModTime = 5\<rparr>], osStdout = [], osPos = 0,
     osBaseOffset = 0\<rparr>"

definition demo_seq_plan :: execution_plan where
  "demo_seq_plan = default_plan\<lparr>epContinueMode := ContinueAuto\<rparr>"

definition demo_seq_probe :: probe_result where
  "demo_seq_probe = zero_probe\<lparr>prSize := 4\<rparr>"

definition demo_seq_env :: seq_env where
  "demo_seq_env = \<lparr>sqOpen = (\<lambda>url off. Ret (drop (nat off) [10, 20, 30, 40])), sqDestOk = True,
     sqCopyFails = None, sqNow = 9\<rparr>"


text \<open>with \<open>-c\<close>, a server that ignores the range and sends the whole object with status 200
  makes the code append the object to the part that is already there, and report success.\<close>

theorem continue_ignores_status:
  assumes "\<forall>rq. client rq = Answer (rs\<lparr>rsStatus := 200, rsBody := obj\<rparr>)"
    and "sqOpen env = (\<lambda>u off. open_sequential client u off opts)" and "sqDestOk env"
    and "sqCopyFails env = None" and "dest \<noteq> []" and "epContinueMode p = ContinueAuto"
    and "prSize r > 0" and "osFiles st dest = Some f"
  shows "fst (download_sequential p env url dest r False c st) = ExitSuccess \<and>
    map_option feData (osFiles (snd (download_sequential p env url dest r False c st)) dest) =
      Some (feData f @ obj)"
proof -
  have off: "sequential_offset p (osFiles st) dest r = int (length (feData f))"
    using assms(6-8) by (simp add: sequential_offset_def)
  have body: "sqOpen env url (sequential_offset p (osFiles st) dest r) = Ret obj"
    using assms(1,2) by (simp add: open_sequential_def)
  show ?thesis
    using download_sequential_file [OF assms(3,5) body assms(4) refl, of c] off assms(8)
    by (cases "feData f") simp_all
qed

definition demo_ok_answer :: http_response where
  "demo_ok_answer = \<lparr>rsStatus = 200, rsHeader = [], rsContentLength = 4, rsBody = [10, 20, 30, 40],
     rsURL = [], rsDisplay = [], rsScheme = [], rsPath = []\<rparr>"

definition demo_seq_options :: request_options where
  "demo_seq_options = \<lparr>roUserAgent = ''pget'', roReferer = [], roHeaders = [], roTimeout = 0,
     roConnectTimeout = 0, roReadTimeout = 0, roInsecureSkipVerify = False,
     roRetryConnRefused = False, roRetryOnHTTPError = []\<rparr>"

definition demo_ok_env :: seq_env where
  "demo_ok_env = demo_seq_env\<lparr>sqOpen :=
     \<lambda>u off. open_sequential (\<lambda>rq. Answer demo_ok_answer) u off demo_seq_options\<rparr>"

theorem continue_ignores_status_witness:
  "map_option feData (osFiles (snd (download_sequential demo_seq_plan demo_ok_env ''u'' ''f''
     demo_seq_probe False False (demo_files [10, 20]))) ''f'') = Some [10, 20, 10, 20, 30, 40]"
proof -
  have a: "\<forall>rq :: http_request. (\<lambda>rq. Answer demo_ok_answer) rq =
      Answer (demo_ok_answer\<lparr>rsStatus := 200, rsBody := [10, 20, 30, 40]\<rparr>)"
    by (simp add: demo_ok_answer_def)
  have "map_option feData (osFiles (snd (download_sequential demo_seq_plan demo_ok_env ''u'' ''f''
     demo_seq_probe False False (demo_files [10, 20]))) ''f'') =
     Some (feData \<lparr>feData = [10, 20], feModTime = 5\<rparr> @ [10, 20, 30, 40])"
    by (rule conjunct2 [OF continue_ignores_status [OF a, of demo_ok_env demo_seq_options]])
       (simp_all add: demo_ok_env_def demo_seq_env_def demo_seq_plan_def demo_seq_probe_def demo_files_def)
  then show ?thesis by simp
qed

section \<open>Run\<close>

text \<open>\<open>-O FILE\<close> is created, and so truncated, before the no-clobber test of the first URL,
  which then finds the file. With \<open>--no-clobber\<close> every run of this kind downloads nothing,
  destroys an earlier content and reports success.\<close>

theorem no_clobber_output_truncates:
  assumes "epOutputMode p = OutputSingle" and "epNoClobber p" and "\<not> epSpider p"
    and "epURLs p \<noteq> []" and "epBackground p = BackgroundNone" and "epOutputFile p \<noteq> []"
    and "\<forall>st. jeDirOk (env st) (epOutputFile p)"
  shows "run p child detachOk True now env execute st = Some (ExitSuccess,
    st\<lparr>osPos := 0, osBaseOffset := 0,
      osFiles := (osFiles st)(epOutputFile p \<mapsto> \<lparr>feData = [], feModTime = now\<rparr>)\<rparr>)"
proof -
  let ?st = "st\<lparr>osPos := 0, osBaseOffset := 0, osFiles := (osFiles st)(epOutputFile p \<mapsto> \<lparr>feData = [], feModTime = now\<rparr>)\<rparr>"
  have "run_one_job p (env ?st) (osFiles ?st) url display = Some (ActExit ExitSuccess)" for url display
    using assms by (simp add: run_one_job_def first_dest_def Let_def)
  then have "run_urls p env execute urls ExitSuccess ?st = Some (ExitSuccess, ?st)" for urls
    by (induction urls) simp_all
  then show ?thesis using assms(1,4,5) by (simp add: run_def)
qed

definition demo_nc_plan :: execution_plan where
  "demo_nc_plan = default_plan\<lparr>epOutputMode := OutputSingle, epOutputFile := ''f'', epNoClobber := True,
     epURLs := [''u'']\<rparr>"

definition demo_job_env :: job_env where
  "demo_job_env = \<lparr>jeProbe = (\<lambda>u. Ret demo_seq_probe), jeDirOk = (\<lambda>d. True),
     jeSidecar = (\<lambda>d. new_manager d None None)\<rparr>"

theorem no_clobber_output_truncates_witness:
  "map_option (\<lambda>(ec, st). (ec, map_option feData (osFiles st ''f'')))
     (run demo_nc_plan False True True 7 (\<lambda>st. demo_job_env) (\<lambda>url act st. Some (ExitSuccess, st)) (demo_files [1, 2])) =
   Some (ExitSuccess, Some [])"
proof -
  have "run demo_nc_plan False True True 7 (\<lambda>st. demo_job_env) (\<lambda>url act st. Some (ExitSuccess, st)) (demo_files [1, 2]) =
    Some (ExitSuccess, (demo_files [1, 2])\<lparr>osPos := 0, osBaseOffset := 0, osFiles := (osFiles (demo_files [1, 2]))(epOutputFile demo_nc_plan \<mapsto>
      \<lparr>feData = [], feModTime = 7\<rparr>)\<rparr>)"
    by (rule no_clobber_output_truncates)
       (simp_all add: demo_nc_plan_def default_plan_def demo_job_env_def)
  then show ?thesis by (simp add: demo_nc_plan_def)
qed

text \<open>In the normal mode the no-clobber test looks at the name from the URL, while the download
  goes to the name from the response: an existing file of that name is overwritten.\<close>

lemma no_clobber_checks_other_name:
  assumes "epOutputMode p = OutputFile" and "\<not> epSpider p" and "epTimestampMode p = TimestampNone"
    and "fs (resolve_filename None display) = None" and "jeProbe env url = Ret r"
    and "omFilename (prMeta r) = name" and "name \<noteq> []" and "name \<noteq> ''index.html''"
    and "mgFile (jeSidecar env name) = None" and "epContinueMode p = ContinueNone"
    and "omFinalURL (prMeta r) = []"
  shows "run_one_job p env fs url display = Some (dispatch p url name r [])"
  using assms
  by (simp add: run_one_job_def first_dest_def Let_def resolve_filename_def resume_check_def sc_exists_def
      effective_url_def)

text \<open>A URL that ends in two dots: the adapter's name for it is \<open>index.html\<close>, which the runner
  takes for no name at all and replaces by the raw last part of the URL.\<close>

lemma resolve_filename_unsanitized:
  "omFilename (prMeta r) = ''index.html'' \<Longrightarrow> resolve_filename (Some r) ''http://h/..'' = ''..''"
proof -
  have "resolve_filename None ''http://h/..'' = ''..''" by code_simp
  then show "omFilename (prMeta r) = ''index.html'' \<Longrightarrow> resolve_filename (Some r) ''http://h/..'' = ''..''"
    by (simp add: resolve_filename_def Let_def)
qed

text \<open>With \<open>-O\<close>, a sequential download writes at the position of the opened handle, which the
  parallel downloads before it (positional writes through another handle) did not move: it
  overwrites their bytes.\<close>

lemma mixed_output_overwrites:
  assumes "epOutputMode p = OutputSingle" and "osPos st = 0" and "body \<noteq> []"
    and "osFiles st (epOutputFile p) = Some f"
  shows "map_option feData (osFiles (output_write p now body st) (epOutputFile p)) =
    Some (body @ drop (length body) (feData f))"
  using assms by (simp add: output_write_def write_at_def Let_def)

end
