(* ===== verification/Job_Exec.thy ===== *)
theory Job_Exec
  imports Byte_Reader Http_Props Job_Props Runner_Props
begin

text \<open>
  The parallel downloads of \<open>internal/job/runner.go\<close> as a whole: \<open>downloadParallelFile\<close> from
  its set-up over the worker pool to \<open>Finalize\<close>, \<open>downloadParallelStream\<close>, and
  \<open>execute_job\<close>, which \<open>Run\<close> calls for the action of each URL. A worker's request is
  \<open>OpenRange\<close> of the HTTP adapter and its body is read with \<open>io.ReadFull\<close>, so what a run
  assumes of the network is only that the server labels its partial answers truthfully
  (\<open>net_ok\<close>).
\<close>

section \<open>The request of a worker\<close>

definition range_validator :: "probe_result \<Rightarrow> string" where
  "range_validator r = (if prETag r = [] then prLastModified r else prETag r)"

text \<open>\<open>arrive\<close> is how the transport delivers a body: in which segments, and with which error.\<close>

definition fetch_answer ::
  "http_client \<Rightarrow> (bytes \<Rightarrow> body) \<Rightarrow> string \<Rightarrow> string \<Rightarrow> request_options \<Rightarrow> chunk \<Rightarrow> step_input" where
  "fetch_answer client arrive url validator opts c =
     (case open_range client url (cStart c) (cLength c) validator opts of
        Ret (b, n) \<Rightarrow>
          (case read_full body_read (nat (cLength c)) [] (arrive b) of
             Some (data, None, _) \<Rightarrow> InBody data
           | _ \<Rightarrow> InReadFails)
      | _ \<Rightarrow> InOpenFails)"

text \<open>The events of a job in which the worker at \<open>NetFetch\<close> performs its request.\<close>

datatype net_event =
    NetFetch nat gtime http_client "bytes \<Rightarrow> body"
  | NetOther job_event

definition net_apply ::
  "string \<Rightarrow> string \<Rightarrow> request_options \<Rightarrow> net_event \<Rightarrow> pool \<Rightarrow> pool" where
  "net_apply url validator opts e p =
     (case e of
        NetOther ev \<Rightarrow> pool_apply ev p
      | NetFetch w now client arrive \<Rightarrow>
          (if w < length (plWorkers p)
           then case plWorkers p ! w of
                  PFetch slot k hedge \<Rightarrow>
                    pool_apply (JStep w now
                      (fetch_answer client arrive url validator opts (chunk_at (plJob p) k))) p
                | _ \<Rightarrow> p
           else p))"

definition net_run ::
  "string \<Rightarrow> string \<Rightarrow> request_options \<Rightarrow> net_event list \<Rightarrow> pool \<Rightarrow> pool" where
  "net_run url validator opts es p = fold (net_apply url validator opts) es p"

section \<open>The parallel downloads\<close>

text \<open>The state of \<open>Run\<close> with the sidecars of the destinations. What the environment does in
  one job: the set-up, the interleaving of the pool with the outcomes of its steps, the order
  in which the workers return, the steps of \<open>Finalize\<close>, and a sequential transfer.\<close>

record job_state = output_state +
  jsSidecar :: "string \<Rightarrow> manager"

record exec_env =
  xeSetup :: setup_env
  xeEvents :: "net_event list"
  xeArrival :: "nat list"
  xeSyncOk :: bool
  xeChtimesOk :: bool
  xeCloseOk :: bool
  xeSeq :: seq_env

fun worker_result :: "worker_pc \<Rightarrow> worker_err option" where
  "worker_result (PDone r) = r"
| "worker_result _ = None"

definition worker_results :: "nat list \<Rightarrow> pool \<Rightarrow> worker_err option list" where
  "worker_results arrival p = map (\<lambda>w. worker_result (plWorkers p ! w)) arrival"

definition file_of :: "gtime \<Rightarrow> file_sink \<Rightarrow> file_entry" where
  "file_of now fs =
     \<lparr>feData = fsData fs,
      feModTime = (if fsModTime fs = zero_time then now else fsModTime fs)\<rparr>"

definition save_sink :: "gtime \<Rightarrow> string \<Rightarrow> file_sink \<Rightarrow> job_state \<Rightarrow> job_state" where
  "save_sink now dest fs st =
     st\<lparr>osFiles := (osFiles st)(dest \<mapsto> file_of now fs),
        jsSidecar := (case fsSidecar fs of
            None \<Rightarrow> jsSidecar st
          | Some m \<Rightarrow> (jsSidecar st)(dest := new_manager dest (mgFile m) (mgTmp m)))\<rparr>"

text \<open>The set-up finds the output and the sidecar of the destination as the state has them.\<close>

definition job_setup ::
  "execution_plan \<Rightarrow> (string \<Rightarrow> bytes) \<Rightarrow> exec_env \<Rightarrow> string \<Rightarrow> string \<Rightarrow> string \<Rightarrow> probe_result \<Rightarrow>
     nat list \<Rightarrow> job_state \<Rightarrow> file_setup option" where
  "job_setup p sha xe url display dest r completed st =
     parallel_file_setup p sha ((xeSetup xe)\<lparr>seExisting := map_option feData (osFiles st dest)\<rparr>)
       url display dest r (osBaseOffset st) completed (jsSidecar st dest)"

text \<open>\<open>Finalize\<close> after successful workers.\<close>

definition finish_file ::
  "execution_plan \<Rightarrow> exec_env \<Rightarrow> string \<Rightarrow> probe_result \<Rightarrow> file_sink \<Rightarrow> job_state \<Rightarrow>
     exit_code \<times> job_state" where
  "finish_file p xe dest r fs st =
     (case finalize (xeSyncOk xe) (xeChtimesOk xe) (xeCloseOk xe) (seRemoveOk (xeSetup xe))
             (if epNoUseServerTimestamps p then zero_time else omModTime (prMeta r)) fs of
        (Ret _, fs') \<Rightarrow> (ExitSuccess, save_sink (seNow (xeSetup xe)) dest fs' st)
      | (_, fs') \<Rightarrow> (ExitIOError, save_sink (seNow (xeSetup xe)) dest fs' st))"

text \<open>\<open>downloadParallelFile\<close> after its workers have returned, with their exit code.\<close>

definition after_file_workers ::
  "execution_plan \<Rightarrow> exec_env \<Rightarrow> string \<Rightarrow> probe_result \<Rightarrow> exit_code \<Rightarrow> file_sink \<Rightarrow> job_state \<Rightarrow>
     exit_code \<times> job_state" where
  "after_file_workers p xe dest r ec fs st =
     (let st1 = st\<lparr>osBaseOffset := i64 (osBaseOffset st + prSize r)\<rparr>
      in if ec = ExitSuccess then finish_file p xe dest r fs st1
         else (ec, save_sink (seNow (xeSetup xe)) dest fs st1))"

text \<open>\<open>None\<close> is a panic, or workers that have not all returned at the end of the events.\<close>

definition await_file ::
  "execution_plan \<Rightarrow> (worker_err \<Rightarrow> string) \<Rightarrow> exec_env \<Rightarrow> string \<Rightarrow> probe_result \<Rightarrow> job_state \<Rightarrow>
     pool \<Rightarrow> (exit_code \<times> job_state) option" where
  "await_file p msg xe dest r st q =
     (case jbSink (plJob q) of
        StreamTo y \<Rightarrow> None
      | FileTo fs \<Rightarrow>
          if all_done q
          then Some (after_file_workers p xe dest r
                 (run_workers_exit msg (worker_results (xeArrival xe) q) (jbSched (plJob q))) fs st)
          else None)"

fun continue_setup ::
  "execution_plan \<Rightarrow> (worker_err \<Rightarrow> string) \<Rightarrow> exec_env \<Rightarrow> string \<Rightarrow> string \<Rightarrow> probe_result \<Rightarrow>
     job_state \<Rightarrow> file_setup \<Rightarrow> (exit_code \<times> job_state) option" where
  "continue_setup p msg xe url dest r st (SetupComplete m) =
     Some (ExitSuccess,
       st\<lparr>jsSidecar := (jsSidecar st)(dest := new_manager dest (mgFile m) (mgTmp m)),
          osBaseOffset := i64 (osBaseOffset st + prSize r)\<rparr>)"
| "continue_setup p msg xe url dest r st (SetupFailed ec m) =
     Some (ec, st\<lparr>jsSidecar := (jsSidecar st)(dest := new_manager dest (mgFile m) (mgTmp m))\<rparr>)"
| "continue_setup p msg xe url dest r st (SetupRun fs chunks) =
     (case file_start p fs chunks of
        None \<Rightarrow> None
      | Some q0 \<Rightarrow>
          await_file p msg xe dest r st
            (net_run url (range_validator r) (adapter_options p) (xeEvents xe) q0))"

definition download_parallel_file ::
  "execution_plan \<Rightarrow> (string \<Rightarrow> bytes) \<Rightarrow> (worker_err \<Rightarrow> string) \<Rightarrow> exec_env \<Rightarrow> string \<Rightarrow> string \<Rightarrow>
     string \<Rightarrow> probe_result \<Rightarrow> nat list \<Rightarrow> job_state \<Rightarrow> (exit_code \<times> job_state) option" where
  "download_parallel_file p sha msg xe url display dest r completed st =
     (case job_setup p sha xe url display dest r completed st of
        None \<Rightarrow> None
      | Some su \<Rightarrow> continue_setup p msg xe url dest r st su)"

text \<open>The stream is closed after the workers and its writer awaited.\<close>

definition await_stream ::
  "(worker_err \<Rightarrow> string) \<Rightarrow> exec_env \<Rightarrow> job_state \<Rightarrow> pool \<Rightarrow> (exit_code \<times> job_state) option" where
  "await_stream msg xe st q =
     (case jbSink (plJob q) of
        FileTo fs \<Rightarrow> None
      | StreamTo y \<Rightarrow>
          (case syPc y of
             WReturned werr \<Rightarrow>
               if all_done q
               then Some (stream_exit (run_workers_exit msg (worker_results (xeArrival xe) q)
                        (jbSched (plJob q))) werr,
                      st\<lparr>osStdout := osStdout st @ syOut y\<rparr>)
               else None
           | _ \<Rightarrow> None))"

definition download_parallel_stream ::
  "execution_plan \<Rightarrow> (worker_err \<Rightarrow> string) \<Rightarrow> exec_env \<Rightarrow> string \<Rightarrow> probe_result \<Rightarrow>
     job_state \<Rightarrow> (exit_code \<times> job_state) option" where
  "download_parallel_stream p msg xe url r st =
     (case stream_start p r of
        None \<Rightarrow> None
      | Some q0 \<Rightarrow>
          await_stream msg xe st
            (net_run url (range_validator r) (adapter_options p) (xeEvents xe) q0))"

text \<open>\<open>world url\<close> is what the environment does in the job of \<open>url\<close>.\<close>

definition execute_job ::
  "execution_plan \<Rightarrow> (string \<Rightarrow> bytes) \<Rightarrow> (worker_err \<Rightarrow> string) \<Rightarrow>
     (string \<Rightarrow> exec_env) \<Rightarrow> string \<Rightarrow> job_action \<Rightarrow> job_state \<Rightarrow> (exit_code \<times> job_state) option" where
  "execute_job p sha msg world url act st =
     (case act of
        ActExit ec \<Rightarrow> Some (ec, st)
      | ActParallelFile eff dest r completed \<Rightarrow>
          download_parallel_file p sha msg (world url) eff (sanitize_display_url url) dest r completed st
      | ActParallelStream eff r \<Rightarrow> download_parallel_stream p msg (world url) eff r st
      | ActSequential eff dest r toOutput counts \<Rightarrow>
          Some (download_sequential p (xeSeq (world url)) eff dest r toOutput counts st))"

text \<open>The questions of \<open>runOneJob\<close>, with the sidecars of the state.\<close>

definition state_env :: "(string \<Rightarrow> (http_err, probe_result) res) \<Rightarrow> job_state \<Rightarrow> job_env" where
  "state_env prb st = \<lparr>jeProbe = prb, jeDirOk = (\<lambda>d. True), jeSidecar = jsSidecar st\<rparr>"

end
