(* ===== verification/Job_Net.thy ===== *)
theory Job_Net
  imports Job_Exec
begin

text \<open>
  Two facts about the worker pool that the properties of whole downloads need: a job changes
  nothing of its file outside the object's place (\<open>framed\<close>), and against a server that labels
  its partial answers truthfully (\<open>net_ok\<close>) the delivered bodies are the requested ranges, so
  that a run over the network is one of the runs of the pool's invariant.
\<close>

section \<open>What a job leaves alone\<close>

text \<open>The file \<open>d\<close> differs from \<open>ex\<close> in the \<open>n\<close> bytes from \<open>b\<close> on only; holes before them are
  zeros.\<close>

definition framed :: "bytes \<Rightarrow> int \<Rightarrow> int \<Rightarrow> bytes \<Rightarrow> bool" where
  "framed ex b n d \<longleftrightarrow>
     length ex \<le> length d \<and> length d \<le> max (length ex) (nat (b + n)) \<and>
     (\<forall>i < length d. (int i < b \<or> b + n \<le> int i) \<longrightarrow>
        d ! i = (if i < length ex then ex ! i else 0))"

lemma framed_refl [simp]: "framed ex b n ex"
  by (simp add: framed_def)

lemma framed_write:
  assumes fr: "framed ex b n d" and nn: "0 \<le> b" "0 \<le> s" and fit: "s + int (length data) \<le> n"
  shows "framed ex b n (write_at d (b + s) data)"
proof -
  have off: "0 \<le> b + s" using nn by simp
  note len = length_write_at [OF off, of d data]
  have "write_at d (b + s) data ! i = (if i < length ex then ex ! i else 0)"
    if i: "i < length (write_at d (b + s) data)" "int i < b \<or> b + n \<le> int i" for i
  proof -
    have "\<not> (nat (b + s) \<le> i \<and> i < nat (b + s) + length data)"
      using i(2) nn fit by linarith
    then have "write_at d (b + s) data ! i = (if i < length d then d ! i else 0)"
      using nth_write_at [OF i(1) off] by auto
    then show ?thesis using fr i(2) by (auto simp: framed_def)
  qed
  then show ?thesis using fr len nn fit by (auto simp: framed_def)
qed

lemma framed_complete:
  assumes fr: "framed ex b (int (length obj)) d" and ok: "range_ok obj b d 0 (int (length obj))"
    and b: "0 \<le> b" and ne: "obj \<noteq> []"
  shows "d = write_at ex b obj"
proof (rule nth_equalityI)
  have "0 < length obj" using ne by simp
  then have "nat (b + (int (length obj) - 1)) < length d"
    using ok unfolding range_ok_def by (elim allE [of _ "int (length obj) - 1"]) linarith
  then have "nat b + length obj \<le> length d" using b \<open>0 < length obj\<close> by linarith
  then show len: "length d = length (write_at ex b obj)"
    using fr b by (auto simp: length_write_at framed_def nat_add_distrib max_def)
  fix i assume i: "i < length d"
  show "d ! i = write_at ex b obj ! i"
  proof (cases "nat b \<le> i \<and> i < nat b + length obj")
    case True
    then have "d ! nat (b + (int i - b)) = obj ! nat (int i - b)"
      using ok b unfolding range_ok_def by (elim allE [of _ "int i - b"]) linarith
    moreover have "nat (int i - b) = i - nat b" using True b by linarith
    ultimately show ?thesis using nth_write_at [of i ex b obj] i len b True by simp
  next
    case False
    then have "int i < b \<or> b + int (length obj) \<le> int i" using b by linarith
    then show ?thesis using fr i nth_write_at [of i ex b obj] len b False by (auto simp: framed_def)
  qed
qed

lemma write_part_framed:
  assumes snd: "file_sound obj cs fs" and c: "of_plan cs c"
    and fr: "framed ex (fsBaseOff fs) (int (length obj)) (fsData fs)"
  shows "framed ex (fsBaseOff fs) (int (length obj))
    (fsData (snd (write_part fault c (chunk_bytes obj c) fs)))"
proof -
  note off = write_part_off [OF snd c]
  have b: "0 \<le> cStart c" "0 \<le> cLength c" "cStart c + cLength c \<le> int (length obj)"
    using snd plan_bounds [OF _ c, of "int (length obj)"] by (auto simp: file_sound_def)
  have nn: "0 \<le> fsBaseOff fs" using snd by (simp add: file_sound_def)
  have len: "int (length (chunk_bytes obj c)) = cLength c" using chunk_bytes_nth [of c obj] b by simp
  have "framed ex (fsBaseOff fs) (int (length obj))
      (write_at (fsData fs) (fsBaseOff fs + cStart c) (take n (chunk_bytes obj c)))" for n
    using b len by (intro framed_write [OF fr nn b(1)]) simp
  from this [of "length (chunk_bytes obj c)"] this show ?thesis
    using off fr by (auto simp: write_part_def Let_def split: option.split)
qed

text \<open>What a file job keeps of its sink, beside its invariant.\<close>

fun sink_kept :: "bytes \<Rightarrow> int \<Rightarrow> job_sink \<Rightarrow> bool" where
  "sink_kept ex n (FileTo fs) \<longleftrightarrow> framed ex (fsBaseOff fs) n (fsData fs) \<and> fsSidecar fs \<noteq> None"
| "sink_kept ex n (StreamTo y) \<longleftrightarrow> True"

lemma put_step_kept:
  assumes inv: "job_inv obj cs h j" and pc: "pc_ok obj cs (jbSink j) (PPut slot k hedge data)"
    and kp: "sink_kept ex (int (length obj)) (jbSink j)"
  shows "sink_kept ex (int (length obj)) (jbSink (fst (put_step inp slot k hedge data j)))"
proof (cases "jbSink j")
  case (FileTo fs)
  show ?thesis
  proof (cases inp)
    case (InWrite fault)
    have k: "k < length cs" "data = chunk_bytes obj (cs ! k)" using pc by (auto simp: pc_ok_def)
    note ck = job_inv_chunk [OF inv k(1)]
    have g: "file_sound obj cs fs" using inv FileTo by (simp add: job_inv_def)
    obtain res fs' where w: "write_part fault (chunk_at j k) data fs = (res, fs')" by fastforce
    have "framed ex (fsBaseOff fs) (int (length obj)) (fsData fs')"
      using write_part_framed [OF g ck(3), of ex fault] kp FileTo w k ck(4) by simp
    then show ?thesis
      using FileTo InWrite w kp write_part_fields [of fault "chunk_at j k" data fs]
      by (cases res) (simp_all add: put_step_def)
  qed (use FileTo kp in \<open>simp_all add: put_step_def\<close>)
qed (simp add: put_step_def split: sum.split)

lemma sidecar_step_kept:
  assumes "sink_kept ex n (jbSink j)"
  shows "sink_kept ex n (jbSink (fst (sidecar_step now inp slot k hedge j)))"
proof (cases "\<exists>fs w. jbSink j = FileTo fs \<and> inp = InSidecar w")
  case True
  then obtain fs w where fs: "jbSink j = FileTo fs" "inp = InSidecar w" by blast
  obtain res fs' where m: "mark_part now w (chunk_at j k) fs = (res, fs')" by fastforce
  then have "fsBaseOff fs' = fsBaseOff fs" "fsData fs' = fsData fs" "fsSidecar fs' = None \<longleftrightarrow> fsSidecar fs = None"
    using mark_part_fields [of now w "chunk_at j k" fs] mark_part_sidecar [of now w "chunk_at j k" fs]
    by simp_all
  then show ?thesis using fs m assms by (cases res) (simp_all add: sidecar_step_def)
qed (use assms in \<open>auto simp: sidecar_step_def split: job_sink.split step_input.split\<close>)

lemma worker_step_kept:
  assumes inv: "job_inv obj cs h j" and pc: "pc_ok obj cs (jbSink j) pc"
    and kp: "sink_kept ex (int (length obj)) (jbSink j)"
  shows "sink_kept ex (int (length obj)) (jbSink (fst (worker_step now inp pc j)))"
proof (cases pc)
  case (PPut slot k hedge data)
  then show ?thesis using put_step_kept [OF inv _ kp] pc by simp
next
  case (PReserve slot k)
  then show ?thesis using kp by (auto simp: reserve_step_def split: job_sink.split sum.split)
qed (use kp in \<open>auto simp: sidecar_step_kept on_sched_def Let_def split: prod.split option.split\<close>)

lemma pool_apply_kept:
  assumes inv: "pool_inv obj cs p" and kp: "sink_kept ex (int (length obj)) (jbSink (plJob p))"
  shows "sink_kept ex (int (length obj)) (jbSink (plJob (pool_apply e p)))"
proof (cases e)
  case (JStep w now inp)
  then show ?thesis
    using inv kp worker_step_kept [of obj cs _ "plJob p" "plWorkers p ! w" ex now inp]
    by (auto simp: pool_inv_def split: prod.split)
qed (use kp in \<open>auto simp: writer_event_def on_sched_def split: job_sink.split\<close>)

section \<open>Requests to a truthful server\<close>

text \<open>Each request may meet another server, connection and arrival of its body; what is assumed
  is that a status 206 is truthful and that the transport delivers a part of what was sent,
  from its start. The process is not killed.\<close>

definition net_ok :: "bytes \<Rightarrow> net_event \<Rightarrow> bool" where
  "net_ok obj e \<longleftrightarrow>
     (case e of
        NetFetch w now client arrive \<Rightarrow>
          truthful obj client \<and> (\<forall>b. \<exists>t. b = body_rest (arrive b) @ t)
      | NetOther (JStep w now inp) \<Rightarrow>
          (case inp of InBody d \<Rightarrow> False | InSidecar (Dies junk) \<Rightarrow> False | _ \<Rightarrow> True)
      | _ \<Rightarrow> True)"

lemma whole_prefix:
  assumes "d = take (length d) x" and "b = x @ t" and "length d = length b"
  shows "d = b"
proof -
  have "take (length d) x = x" using assms(2,3) by simp
  then have "d = x" using assms(1) by simp
  then show ?thesis using assms(2,3) by simp
qed

lemma fetch_answer_body:
  assumes srv: "truthful obj client" and arr: "\<And>b. \<exists>t. b = body_rest (arrive b) @ t"
    and pl: "plan_ok s n" "plan s n = Some cs" "n = int (length obj)"
    and k: "k < length cs" "cStart c = cStart (cs ! k)" "cLength c = cLength (cs ! k)"
    and f: "fetch_answer client arrive url v opts c = InBody d"
  shows "d = chunk_bytes obj c"
proof -
  obtain b m r' where o: "open_range client url (cStart (cs ! k)) (cLength (cs ! k)) v opts = Ret (b, m)"
    and rd: "read_full body_read (nat (cLength (cs ! k))) [] (arrive b) = Some (d, None, r')"
    using f k by (auto simp: fetch_answer_def split: res.splits option.splits)
  have b: "b = chunk_bytes obj (cs ! k)"
    using open_range_body [OF srv pl(1,2) _ o] k(1) by simp
  have c: "0 \<le> cStart (cs ! k)" "0 < cLength (cs ! k)" "cStart (cs ! k) + cLength (cs ! k) \<le> n"
    using plan_layout.inside [OF pl(1,2), of "cs ! k"] k(1) by auto
  have "cLength (cs ! k) \<le> s"
    using pl(1,2) k(1) plan_chunk_ok(2) [OF pl(1), of k] by (auto simp: plan_eq)
  moreover have "s + n \<le> 2 ^ 63" using pl(1) by (simp add: plan_ok_def)
  ultimately have n: "int (nat (cLength (cs ! k))) \<le> 2 ^ 62" using c by simp
  obtain t where t: "b = body_rest (arrive b) @ t" using arr by blast
  note ex = body.read_full_exact [OF rd TrueI n]
  have len: "length (chunk_bytes obj (cs ! k)) = nat (cLength (cs ! k))"
    unfolding chunk_bytes_def using c pl(3) by (intro length_subslice) simp_all
  have "d = take (length d) (body_rest (arrive b))" "length d = length b" using ex len b by auto
  then have "d = b" using whole_prefix t by blast
  then show ?thesis using b k by (simp add: chunk_bytes_def)
qed

text \<open>A run over the network is a run of the pool whose answers are the object's.\<close>

lemma net_apply_answer:
  assumes inv: "pool_inv obj cs p" and e: "net_ok obj e"
    and pl: "plan_ok s n" "plan s n = Some cs" "n = int (length obj)"
  shows "\<exists>es. net_apply url v opts e p = pool_run es p \<and> answers obj es p"
proof (cases e)
  case (NetOther ev)
  then have "answer_ok obj ev p"
    using e by (auto simp: net_ok_def answer_ok_def body_ok_def split: job_event.splits
        step_input.splits write_outcome.splits)
  then show ?thesis using NetOther by (intro exI [of _ "[ev]"]) (simp add: net_apply_def)
next
  case (NetFetch w now client arrive)
  show ?thesis
  proof (cases "\<exists>slot k hedge. w < length (plWorkers p) \<and> plWorkers p ! w = PFetch slot k hedge")
    case True
    then obtain slot k hedge where w: "w < length (plWorkers p)" "plWorkers p ! w = PFetch slot k hedge"
      by blast
    let ?inp = "fetch_answer client arrive url v opts (chunk_at (plJob p) k)"
    obtain h where j: "job_inv obj cs h (plJob p)" using inv by (auto simp: pool_inv_def)
    have "plWorkers p ! w \<in> set (plWorkers p)" using w(1) by simp
    then have k: "k < length cs" using inv w(2) by (auto simp: pool_inv_def pc_ok_def)
    have l: "cStart (chunk_at (plJob p) k) = cStart (cs ! k)" "cLength (chunk_at (plJob p) k) = cLength (cs ! k)"
      using j layout_nth [of "jbSched (plJob p)" cs k] k by (auto simp: job_inv_def chunk_at_def)
    have "d = chunk_bytes obj (chunk_at (plJob p) k)" if "?inp = InBody d" for d
      using fetch_answer_body [OF _ _ pl k l that] e NetFetch by (auto simp: net_ok_def)
    moreover have "?inp \<noteq> InSidecar x" for x
      by (auto simp: fetch_answer_def split: res.split option.split)
    ultimately have "answer_ok obj (JStep w now ?inp) p"
      using w by (auto simp: answer_ok_def body_ok_def split: step_input.splits write_outcome.splits)
    then show ?thesis
      using NetFetch w by (intro exI [of _ "[JStep w now ?inp]"]) (simp add: net_apply_def)
  next
    case False
    then have "net_apply url v opts e p = p"
      using NetFetch by (auto simp: net_apply_def split: worker_pc.split)
    then show ?thesis by (intro exI [of _ "[]"]) simp
  qed
qed

lemma pool_run_append: "pool_run (es @ fs) p = pool_run fs (pool_run es p)"
  by (simp add: pool_run_def)

lemma answers_append: "answers obj (es @ fs) p \<longleftrightarrow> answers obj es p \<and> answers obj fs (pool_run es p)"
  by (induction es arbitrary: p) simp_all

lemma net_run_answers:
  assumes "pool_inv obj cs p" and "\<forall>e \<in> set ns. net_ok obj e"
    and "plan_ok s n" and "plan s n = Some cs" and "n = int (length obj)"
  shows "\<exists>es. net_run url v opts ns p = pool_run es p \<and> answers obj es p"
  using assms(1,2)
proof (induction ns arbitrary: p)
  case Nil
  show ?case by (intro exI [of _ "[]"]) (simp add: net_run_def)
next
  case (Cons e ns)
  obtain es where es: "net_apply url v opts e p = pool_run es p" "answers obj es p"
    using net_apply_answer [OF Cons.prems(1) _ assms(3-5)] Cons.prems(2) by fastforce
  have "pool_inv obj cs (pool_run es p)" by (rule pool_run_inv [OF Cons.prems(1) es(2)])
  then obtain fs where "net_run url v opts ns (pool_run es p) = pool_run fs (pool_run es p)"
    "answers obj fs (pool_run es p)"
    using Cons.IH Cons.prems(2) by fastforce
  then show ?case
    using es by (intro exI [of _ "es @ fs"]) (simp add: net_run_def pool_run_append answers_append)
qed

lemma pool_run_kept:
  assumes "pool_inv obj cs p" and "answers obj es p"
    and "sink_kept ex (int (length obj)) (jbSink (plJob p))"
  shows "sink_kept ex (int (length obj)) (jbSink (plJob (pool_run es p)))"
  using assms by (induction es arbitrary: p) (auto intro: pool_apply_kept pool_apply_inv)

end
