(* ===== verification/Job_Exec_Props.thy ===== *)
theory Job_Exec_Props
  imports Job_Net
begin

text \<open>
  Properties of whole downloads, from the set-up of a job to its end and over all URLs of a run,
  for a truthful server: the file holds the objects.
\<close>

section \<open>A file download from set-up to finish\<close>

lemma setup_run_sidecar:
  "parallel_file_setup p sha env url display dest r b ks m = Some (SetupRun fs chunks) \<Longrightarrow>
     fsSidecar fs \<noteq> None"
  by (auto simp: parallel_file_setup_def new_file_sink_def Let_def
      split: option.splits prod.splits res.splits if_splits)

lemma finalize_success:
  assumes "finalize syncOk chtimesOk closeOk removeOk mt fs = (Ret u, fs')"
  shows "fsData fs' = fsData fs"
    and "mt \<noteq> zero_time \<Longrightarrow> chtimesOk \<Longrightarrow> fsModTime fs' = mt"
    and "fsSidecar fs \<noteq> None \<Longrightarrow> \<exists>m. fsSidecar fs' = Some m \<and> mgFile m = None"
  using assms
  by (auto simp: finalize_def sc_remove_def Let_def split: if_splits option.splits)

lemma all_completed_ranges:
  assumes "pending_count (mark_completed ks cs) = 0"
    and "\<forall>i < length cs. cIndex (cs ! i) = int i \<and> cState (cs ! i) = StatePending"
    and "\<forall>k \<in> set ks. k < length cs \<longrightarrow> chunk_safe obj b file (cs ! k)"
  shows "\<forall>c \<in> set cs. range_ok obj b file (cStart c) (cStart c + cLength c)"
proof
  fix c assume "c \<in> set cs"
  then obtain i where i: "i < length cs" "c = cs ! i" by (auto simp: in_set_conv_nth)
  then have "mark_completed ks cs ! i \<in> set (mark_completed ks cs)" by (simp add: mark_completed_def)
  then have "cState (mark_completed ks cs ! i) = StateCompleted"
    using assms(1) by (simp add: pending_count_def count_if_zero)
  then have "i \<in> set ks" using i assms(2) by (auto simp: mark_completed_def split: if_splits)
  with assms(3) i show "range_ok obj b file (cStart c) (cStart c + cLength c)"
    by (simp add: chunk_safe_def)
qed

text \<open>The workers touch nothing but the object's place, and their success puts it there.\<close>

lemma pool_file_framed:
  assumes sz: "sized_for p r b obj cs" and inv: "pool_inv obj cs q0"
    and fs: "jbSink (plJob q0) = FileTo fs" "fsBaseOff fs = b" "fsSidecar fs \<noteq> None"
    and net: "\<forall>e \<in> set ns. net_ok obj e"
    and fs': "jbSink (plJob (net_run url v opts ns q0)) = FileTo fs'"
  shows "pool_inv obj cs (net_run url v opts ns q0)" and "fsBaseOff fs' = b"
    and "framed (fsData fs) b (int (length obj)) (fsData fs')" and "fsSidecar fs' \<noteq> None"
proof -
  obtain es where es: "net_run url v opts ns q0 = pool_run es q0" "answers obj es q0"
    using net_run_answers [OF inv net, of "epSplitSize p" "prSize r" url v opts] sz
    by (auto simp: sized_for_def)
  show "pool_inv obj cs (net_run url v opts ns q0)"
    unfolding es(1) by (rule pool_run_inv [OF inv es(2)])
  have "sink_base (jbSink (plJob (net_run url v opts ns q0))) = Some b"
    unfolding es(1) pool_run_base using fs by simp
  then show base: "fsBaseOff fs' = b" using fs' by simp
  have "sink_kept (fsData fs) (int (length obj)) (jbSink (plJob (net_run url v opts ns q0)))"
    unfolding es(1) using fs by (intro pool_run_kept [OF inv es(2)]) simp
  then show "framed (fsData fs) b (int (length obj)) (fsData fs')" "fsSidecar fs' \<noteq> None"
    using fs' base by simp_all
qed

lemma pool_file_exact:
  assumes sz: "sized_for p r b obj cs" and inv: "pool_inv obj cs q0"
    and fs: "jbSink (plJob q0) = FileTo fs" "fsBaseOff fs = b" "fsSidecar fs \<noteq> None"
    and net: "\<forall>e \<in> set ns. net_ok obj e"
    and fs': "jbSink (plJob (net_run url v opts ns q0)) = FileTo fs'"
    and ok: "run_workers_exit msg results (jbSched (plJob (net_run url v opts ns q0))) = ExitSuccess"
  shows "fsData fs' = write_at (fsData fs) b obj"
proof -
  note q = pool_file_framed [OF sz inv fs net fs']
  from pool_success [OF q(1) ok]
  have "\<forall>c \<in> set cs. range_ok obj b (fsData fs') (cStart c) (cStart c + cLength c)"
    using fs' q(2) by (auto simp: in_set_conv_nth chunk_safe_def)
  then have all: "range_ok obj b (fsData fs') 0 (int (length obj))"
    by (rule range_ok_tiled [OF sized_for_plan(2) [OF sz]])
  have "0 \<le> b" "obj \<noteq> []" using sz by (auto simp: sized_for_def plan_ok_def)
  then show ?thesis by (rule framed_complete [OF q(3) all])
qed

lemma after_file_workers_success:
  assumes "after_file_workers p xe dest r ec fs st = (ExitSuccess, st')" and "fsSidecar fs \<noteq> None"
  shows "ec = ExitSuccess"
    and "osBaseOffset st' = i64 (osBaseOffset st + prSize r)" and "osStdout st' = osStdout st"
    and "mgFile (jsSidecar st' dest) = None"
    and "\<exists>t. osFiles st' = (osFiles st)(dest \<mapsto> \<lparr>feData = fsData fs, feModTime = t\<rparr>) \<and>
      (xeChtimesOk xe \<and> \<not> epNoUseServerTimestamps p \<and> omModTime (prMeta r) \<noteq> zero_time \<longrightarrow>
         t = omModTime (prMeta r))"
proof -
  let ?mt = "if epNoUseServerTimestamps p then zero_time else omModTime (prMeta r)"
  show ok: "ec = ExitSuccess"
    using assms(1) by (auto simp: after_file_workers_def Let_def split: if_splits)
  obtain u fs' where f: "finalize (xeSyncOk xe) (xeChtimesOk xe) (xeCloseOk xe)
      (seRemoveOk (xeSetup xe)) ?mt fs = (Ret u, fs')"
    and st': "st' = save_sink (seNow (xeSetup xe)) dest fs'
      (st\<lparr>osBaseOffset := i64 (osBaseOffset st + prSize r)\<rparr>)"
    using assms(1) ok
    by (cases "finalize (xeSyncOk xe) (xeChtimesOk xe) (xeCloseOk xe) (seRemoveOk (xeSetup xe)) ?mt fs")
      (auto simp: after_file_workers_def finish_file_def Let_def split: res.splits)
  note fin = finalize_success [OF f]
  obtain m where "fsSidecar fs' = Some m" "mgFile m = None" using fin(3) assms(2) by blast
  then show "osBaseOffset st' = i64 (osBaseOffset st + prSize r)" "osStdout st' = osStdout st"
    "mgFile (jsSidecar st' dest) = None"
    using st' by (simp_all add: save_sink_def new_manager_def)
  show "\<exists>t. osFiles st' = (osFiles st)(dest \<mapsto> \<lparr>feData = fsData fs, feModTime = t\<rparr>) \<and>
      (xeChtimesOk xe \<and> \<not> epNoUseServerTimestamps p \<and> omModTime (prMeta r) \<noteq> zero_time \<longrightarrow>
         t = omModTime (prMeta r))"
    using fin(1,2) st' by (auto simp: save_sink_def file_of_def)
qed

lemma download_parallel_file_result:
  assumes sz: "sized_for p r (osBaseOffset st) obj cs" and conn: "1 \<le> epConnections p"
    and ex: "ex = (case osFiles st dest of None \<Rightarrow> [] | Some f \<Rightarrow> feData f)"
    and doc: "doc_sound obj cs (osBaseOffset st) ex (mgFile (jsSidecar st dest))"
    and safe: "\<forall>k \<in> set ks. k < length cs \<longrightarrow> chunk_safe obj (osBaseOffset st) ex (cs ! k)"
    and pre: "prefix_completed (mark_completed ks cs)"
    and net: "\<forall>e \<in> set (xeEvents xe). net_ok obj e"
    and run: "download_parallel_file p sha msg xe url display dest r ks st = Some (ExitSuccess, st')"
  shows "\<exists>t. osFiles st' = (osFiles st)(dest \<mapsto> \<lparr>feData = write_at ex (osBaseOffset st) obj, feModTime = t\<rparr>) \<and>
      (ks = [] \<and> xeChtimesOk xe \<and> \<not> epNoUseServerTimestamps p \<and> omModTime (prMeta r) \<noteq> zero_time \<longrightarrow>
         t = omModTime (prMeta r)) \<and>
      (ks = [] \<longrightarrow> mgFile (jsSidecar st' dest) = None) \<and>
      osStdout st' = osStdout st \<and> osBaseOffset st' = osBaseOffset st + int (length obj)"
proof -
  note pl = sized_for_plan [OF sz]
  have nat: "prSize r = int (length obj)" "0 \<le> osBaseOffset st" "obj \<noteq> []"
    and off: "i64 (osBaseOffset st + prSize r) = osBaseOffset st + int (length obj)"
    using sz by (auto simp: sized_for_def plan_ok_def i64_id_nonneg)
  consider (complete) m where "job_setup p sha xe url display dest r ks st = Some (SetupComplete m)"
      "st' = st\<lparr>jsSidecar := (jsSidecar st)(dest := new_manager dest (mgFile m) (mgTmp m)),
         osBaseOffset := i64 (osBaseOffset st + prSize r)\<rparr>"
    | (failed) m where "job_setup p sha xe url display dest r ks st = Some (SetupFailed ExitSuccess m)"
    | (ran) fs chunks q0 fs' where "job_setup p sha xe url display dest r ks st = Some (SetupRun fs chunks)"
      "file_start p fs chunks = Some q0"
      "jbSink (plJob (net_run url (range_validator r) (adapter_options p) (xeEvents xe) q0)) = FileTo fs'"
      "after_file_workers p xe dest r
         (run_workers_exit msg (worker_results (xeArrival xe)
            (net_run url (range_validator r) (adapter_options p) (xeEvents xe) q0))
            (jbSched (plJob (net_run url (range_validator r) (adapter_options p) (xeEvents xe) q0))))
         fs' st = (ExitSuccess, st')"
    using run
    by (auto simp: download_parallel_file_def await_file_def split: option.splits file_setup.splits
        job_sink.splits if_splits elim!: continue_setup.elims)
  then show ?thesis
  proof cases
    case complete
    then have done0: "pending_count (mark_completed ks cs) = 0"
      using pl(3) by (auto simp: job_setup_def parallel_file_setup_def Let_def
          split: if_splits prod.splits res.splits)
    have all: "range_ok obj (osBaseOffset st) ex 0 (int (length obj))"
      by (rule range_ok_tiled [OF pl(2) all_completed_ranges [OF done0 pl(1) safe]])
    from framed_complete [OF framed_refl this nat(2,3)] have new: "ex = write_at ex (osBaseOffset st) obj" .
    have "ex \<noteq> []" using new nat(3) by (auto simp: write_at_def Let_def)
    then obtain f where f: "osFiles st dest = Some f" "ex = feData f"
      using ex by (auto split: option.splits)
    moreover have "ks \<noteq> []"
    proof
      assume "ks = []"
      then have "cs = []" using done0 pl(1)
        by (cases cs) (auto simp: pending_count_def mark_completed_def split: if_splits)
      then show False using pl(2) nat(3) by simp
    qed
    ultimately show ?thesis
      using complete(2) off new by (intro exI [of _ "feModTime f"]) (cases f, auto)
  next
    case failed
    then show ?thesis
      by (auto simp: job_setup_def parallel_file_setup_def Let_def
          split: option.splits if_splits prod.splits res.splits)
  next
    case ran
    let ?env = "(xeSetup xe)\<lparr>seExisting := map_option feData (osFiles st dest)\<rparr>"
    have ex': "ex = (case seExisting ?env of None \<Rightarrow> [] | Some d \<Rightarrow> d)"
      using ex by (auto split: option.split)
    note su = ran(1) [unfolded job_setup_def]
    note fs = parallel_file_setup_sound [OF sz doc ex' safe su]
    note q0 = file_start_inv [OF sz conn doc ex' safe pre su ran(2)]
    note at = sz q0 fs(3) setup_run_sidecar [OF su] net ran(3)
    note fin = after_file_workers_success [OF ran(4) pool_file_framed(4) [OF at]]
    have "fsData fs' = write_at ex (osBaseOffset st) obj"
      using pool_file_exact [OF at fin(1)] fs(2) by simp
    then show ?thesis using fin off by auto
  qed
qed

section \<open>A server for the witnesses\<close>

text \<open>It serves the given ranges of an object; bodies arrive in two segments.\<close>

definition range_server :: "bytes \<Rightarrow> (int \<times> int) list \<Rightarrow> http_client" where
  "range_server obj ranges rq =
     (case find (\<lambda>(a, b). header_get ''Range'' (rqHeader rq) = ''bytes='' @ fmt_int a @ ''-'' @ fmt_int b) ranges of
        None \<Rightarrow> NoAnswer []
      | Some (a, b) \<Rightarrow>
          Answer \<lparr>rsStatus = 206, rsHeader = [(''Content-Range'', content_range_text a b ''*'')],
            rsContentLength = b - a + 1, rsBody = subslice obj a (b - a + 1), rsURL = [],
            rsDisplay = [], rsScheme = [], rsPath = []\<rparr>)"

definition two_segments :: "bytes \<Rightarrow> body" where
  "two_segments b = \<lparr>boSegments = [take 1 b, drop 1 b], boFault = REof\<rparr>"

lemma range_server_truthful:
  assumes "\<forall>(a, b) \<in> set ranges. 0 \<le> a \<and> a \<le> b \<and> b < 2 ^ 63"
  shows "truthful obj (range_server obj ranges)"
  unfolding truthful_def
proof (intro allI impI)
  fix rq rs assume a: "range_server obj ranges rq = Answer rs \<and> rsStatus rs = 206"
  let ?P = "\<lambda>(a, b). header_get ''Range'' (rqHeader rq) = ''bytes='' @ fmt_int a @ ''-'' @ fmt_int b"
  obtain a b where f: "find ?P ranges = Some (a, b)"
    using a by (auto simp: range_server_def split: option.splits)
  have ab: "(a, b) \<in> set ranges" using f by (auto simp: find_Some_iff in_set_conv_nth)
  have rs: "rsHeader rs = [(''Content-Range'', content_range_text a b ''*'')]"
    "rsBody rs = subslice obj a (b - a + 1)"
    using a f by (auto simp: range_server_def)
  have "header_get ''Content-Range'' [(''Content-Range'', v)] = v" for v
    using canonical_Content_Range by (simp add: header_get_def)
  then show "\<exists>a b t. 0 \<le> a \<and> a \<le> b \<and> b < 2 ^ 63 \<and>
      header_get ''Content-Range'' (rsHeader rs) = content_range_text a b t \<and>
      rsBody rs = subslice obj a (b - a + 1)"
    using ab rs assms by (intro exI [of _ a] exI [of _ b] exI [of _ "''*''"]) auto
qed

text \<open>A worker at \<open>PFetch\<close> fetches its chunk and stores it.\<close>

definition net_moves :: "http_client \<Rightarrow> nat \<Rightarrow> gtime \<Rightarrow> net_event list" where
  "net_moves client w t =
     [NetFetch w t client two_segments, NetOther (JStep w (t + 1) (InWrite None)),
      NetOther (JStep w (t + 2) (InSidecar WriteOk)), NetOther (JStep w (t + 3) InOk),
      NetOther (JStep w (t + 4) InOk)]"

definition net_step :: "nat \<Rightarrow> gtime \<Rightarrow> net_event" where
  "net_step w t = NetOther (JStep w t InOk)"

text \<open>Two workers and two chunks, the second worker first; then both find nothing left.\<close>

definition two_chunk_events :: "http_client \<Rightarrow> net_event list" where
  "two_chunk_events client =
     [net_step 0 1, net_step 0 2, net_step 1 3, net_step 1 4] @
     net_moves client 1 5 @ net_moves client 0 10 @
     [net_step 0 15, net_step 0 16, net_step 1 17, net_step 1 18]"

definition one_chunk_events :: "http_client \<Rightarrow> net_event list" where
  "one_chunk_events client =
     [net_step 0 1, net_step 0 2] @ net_moves client 0 3 @
     [net_step 0 8, net_step 0 9, net_step 1 10, net_step 1 11]"

lemma chunk_events_ok:
  assumes "truthful obj client"
  shows "\<forall>e \<in> set (two_chunk_events client). net_ok obj e"
    and "\<forall>e \<in> set (one_chunk_events client). net_ok obj e"
proof -
  have "\<exists>t. b = body_rest (two_segments b) @ t" for b
    by (simp add: two_segments_def body_rest_def)
  then show "\<forall>e \<in> set (two_chunk_events client). net_ok obj e"
    "\<forall>e \<in> set (one_chunk_events client). net_ok obj e"
    using assms
    by (simp_all add: two_chunk_events_def one_chunk_events_def net_moves_def net_step_def net_ok_def)
qed

definition demo_seq_world :: seq_env where
  "demo_seq_world = \<lparr>sqOpen = (\<lambda>u off. Ret []), sqDestOk = True, sqCopyFails = None, sqNow = 1\<rparr>"

definition demo_world :: "net_event list \<Rightarrow> exec_env" where
  "demo_world es =
     \<lparr>xeSetup = demo_env, xeEvents = es, xeArrival = [0, 1], xeSyncOk = True,
      xeChtimesOk = True, xeCloseOk = True, xeSeq = demo_seq_world\<rparr>"

definition demo_output_plan :: "string list \<Rightarrow> execution_plan" where
  "demo_output_plan urls = default_plan\<lparr>epSplitSize := 2, epConnections := 2,
     epOutputMode := OutputSingle, epOutputFile := ''out'', epURLs := urls\<rparr>"

definition demo_probe_of :: "int \<Rightarrow> probe_result" where
  "demo_probe_of n = zero_probe\<lparr>prSize := n, prRangeCapable := True, prETag := ''e''\<rparr>"

definition demo_state :: job_state where
  "demo_state = \<lparr>osFiles = [''out'' \<mapsto> \<lparr>feData = [1, 2, 3, 4, 5, 6], feModTime = 5\<rparr>], osStdout = [], osPos = 0,
     osBaseOffset = 0, jsSidecar = (\<lambda>d. new_manager d None None)\<rparr>"

section \<open>Properties\<close>

text \<open>C5: A parallel download to a file, from set-up to finish, fresh or resumed from completed
  chunks that form a prefix and are in the file, from a server that labels its partial answers
  truthfully: for every interleaving, arrival of the bodies and failure, when it reports
  success the file is the old content with the object written at the output offset and nothing
  else changed, no other file and no output is touched, the offset moves behind the object,
  and a fresh download leaves no sidecar and the server's modification time.\<close>

theorem parallel_file_exact:
  assumes sz: "sized_for p r (osBaseOffset st) obj cs" and conn: "1 \<le> epConnections p"
    and ex: "ex = (case osFiles st dest of None \<Rightarrow> [] | Some f \<Rightarrow> feData f)"
    and doc: "doc_sound obj cs (osBaseOffset st) ex (mgFile (jsSidecar st dest))"
    and safe: "\<forall>k \<in> set ks. k < length cs \<longrightarrow> chunk_safe obj (osBaseOffset st) ex (cs ! k)"
    and pre: "prefix_completed (mark_completed ks cs)"
    and net: "\<forall>e \<in> set (xeEvents xe). net_ok obj e"
    and run: "download_parallel_file p sha msg xe url display dest r ks st = Some (ExitSuccess, st')"
  shows "\<exists>t. osFiles st' dest = Some \<lparr>feData = write_at ex (osBaseOffset st) obj, feModTime = t\<rparr> \<and>
    (ks = [] \<and> xeChtimesOk xe \<and> \<not> epNoUseServerTimestamps p \<and> omModTime (prMeta r) \<noteq> zero_time \<longrightarrow>
       t = omModTime (prMeta r)) \<and>
    (ks = [] \<longrightarrow> mgFile (jsSidecar st' dest) = None) \<and>
    (\<forall>f. f \<noteq> dest \<longrightarrow> osFiles st' f = osFiles st f) \<and> osStdout st' = osStdout st \<and>
    osBaseOffset st' = osBaseOffset st + int (length obj)"
  using download_parallel_file_result [OF sz conn ex doc safe pre net run] by auto

definition demo_download :: "(exit_code \<times> job_state) option" where
  "demo_download =
     download_parallel_file (demo_output_plan []) demo_sha (\<lambda>e. [])
       (demo_world (two_chunk_events (range_server demo_obj [(0, 1), (2, 3)])))
       ''u'' ''u'' ''out'' (demo_probe_of 4) [] demo_state"

text \<open>The old file was longer than the object; its tail stays.\<close>

theorem parallel_file_exact_witness:
  "map_option (\<lambda>(ec, st). (ec, map_option feData (osFiles st ''out''))) demo_download =
     Some (ExitSuccess, Some [10, 20, 30, 40, 5, 6])"
proof -
  have "map_option fst demo_download = Some ExitSuccess" by code_simp
  then obtain st' where d: "demo_download = Some (ExitSuccess, st')" by (cases demo_download) auto
  have sz: "sized_for (demo_output_plan []) (demo_probe_of 4) (osBaseOffset demo_state) demo_obj
      (map (plan_chunk 2 4) [0..<2])"
    by (simp add: sized_for_def demo_output_plan_def demo_probe_of_def demo_state_def demo_obj_def
        plan_ok_def plan_eq n_chunks_def)
  have conn: "1 \<le> epConnections (demo_output_plan [])" by (simp add: demo_output_plan_def)
  have old: "[1, 2, 3, 4, 5, 6] = (case osFiles demo_state ''out'' of None \<Rightarrow> [] | Some f \<Rightarrow> feData f)"
    by (simp add: demo_state_def)
  have doc: "doc_sound demo_obj (map (plan_chunk 2 4) [0..<2]) (osBaseOffset demo_state) [1, 2, 3, 4, 5, 6]
      (mgFile (jsSidecar demo_state ''out''))"
    by (simp add: demo_state_def new_manager_def)
  have pre: "prefix_completed (mark_completed [] (map (plan_chunk 2 4) [0..<2]))"
    by (intro all_pending_prefix) (simp add: all_pending_def mark_completed_def list_all_iff)
  have net: "\<forall>e \<in> set (xeEvents (demo_world (two_chunk_events (range_server demo_obj [(0, 1), (2, 3)])))).
      net_ok demo_obj e"
    using chunk_events_ok(1) [OF range_server_truthful, of "[(0, 1), (2, 3)]"] by (simp add: demo_world_def)
  have "write_at [1, 2, 3, 4, 5, 6] (osBaseOffset demo_state) demo_obj = [10, 20, 30, 40, 5, 6]"
    by code_simp
  then have "\<exists>t. osFiles st' ''out'' = Some \<lparr>feData = [10, 20, 30, 40, 5, 6], feModTime = t\<rparr>"
    using parallel_file_exact [OF sz conn old doc _ pre net d [unfolded demo_download_def]] by auto
  then show ?thesis using d by auto
qed

text \<open>A plan that downloads its URLs into one file, in parallel and without conditions, and a URL
  whose server has a range-capable object of a plannable size.\<close>

definition plain_output :: "execution_plan \<Rightarrow> bool" where
  "plain_output p \<longleftrightarrow>
     epOutputMode p = OutputSingle \<and> epOutputFile p \<noteq> [] \<and> \<not> epSpider p \<and> \<not> epNoClobber p \<and>
     epTimestampMode p = TimestampNone \<and> epContinueMode p = ContinueNone \<and>
     epBackground p = BackgroundNone \<and> \<not> epNoParallel p \<and> epConnections p > 1"

definition honest_job ::
  "execution_plan \<Rightarrow> (string \<Rightarrow> (http_err, probe_result) res) \<Rightarrow> (string \<Rightarrow> exec_env) \<Rightarrow>
     string \<times> probe_result \<times> bytes \<Rightarrow> bool" where
  "honest_job p prb world = (\<lambda>(url, r, obj).
     prb url = Ret r \<and> prRangeCapable r \<and> prSize r = int (length obj) \<and>
     plan_ok (epSplitSize p) (prSize r) \<and> (\<forall>e \<in> set (xeEvents (world url)). net_ok obj e))"

abbreviation job_bytes :: "(string \<times> probe_result \<times> bytes) list \<Rightarrow> bytes" where
  "job_bytes jobs \<equiv> concat (map (\<lambda>(url, r, obj). obj) jobs)"

lemma run_one_job_plain:
  assumes "plain_output p" and "honest_job p prb world (url, r, obj)"
    and "mgFile (jsSidecar st (epOutputFile p)) = None"
  shows "run_one_job p (state_env prb st) (osFiles st) url display =
    Some (ActParallelFile (effective_url r url) (epOutputFile p) r [])"
  using assms
  by (auto simp: run_one_job_def plain_output_def honest_job_def state_env_def first_dest_def
      Let_def resume_check_def sc_exists_def dispatch_def use_parallel_def plan_ok_def)

lemma execute_job_file [simp]:
  "execute_job p sha msg world url (ActParallelFile eff dest r ks) st =
     download_parallel_file p sha msg (world url) eff (sanitize_display_url url) dest r ks st"
  by (simp add: execute_job_def)

lemma write_at_end: "write_at old (int (length old)) d = old @ d"
  by (simp add: write_at_def Let_def)

lemma run_urls_concat:
  assumes p: "plain_output p" and jobs: "\<forall>j \<in> set jobs. honest_job p prb world j"
    and f: "osFiles st (epOutputFile p) = Some \<lparr>feData = old, feModTime = t\<rparr>"
    and b: "osBaseOffset st = int (length old)" "int (length (old @ job_bytes jobs)) < 2 ^ 63"
    and sc: "mgFile (jsSidecar st (epOutputFile p)) = None"
    and run: "run_urls p (state_env prb) (execute_job p sha msg world)
      (map fst jobs) ExitSuccess st = Some (ExitSuccess, st')"
  shows "\<exists>t'. osFiles st' (epOutputFile p) = Some \<lparr>feData = old @ job_bytes jobs, feModTime = t'\<rparr>"
  using jobs f b sc run
proof (induction jobs arbitrary: st old t)
  case (Cons j jobs)
  obtain url r obj where j: "j = (url, r, obj)" by (cases j)
  have h: "honest_job p prb world (url, r, obj)" using Cons.prems(1) j by simp
  let ?out = "epOutputFile p" and ?disp = "sanitize_display_url url"
  have act: "run_one_job p (state_env prb st) (osFiles st) url ?disp =
      Some (ActParallelFile (effective_url r url) ?out r [])"
    by (rule run_one_job_plain [OF p h Cons.prems(5)])
  obtain st1 where ex: "download_parallel_file p sha msg (world url) (effective_url r url) ?disp ?out r []
        st = Some (ExitSuccess, st1)"
    and rest: "run_urls p (state_env prb) (execute_job p sha msg world) (map fst jobs) ExitSuccess st1 =
      Some (ExitSuccess, st')"
    using Cons.prems(6) act p j
    by (auto simp: plain_output_def split: option.splits prod.splits if_splits)
  obtain cs where cs: "plan (epSplitSize p) (prSize r) = Some cs"
    using plan_layout.mk_total [of "epSplitSize p" "prSize r"] h by (auto simp: honest_job_def)
  have sz: "sized_for p r (osBaseOffset st) obj cs"
    using h cs Cons.prems(3,4) j by (auto simp: sized_for_def honest_job_def)
  have fresh: "mark_completed [] cs = cs" by (simp add: mark_completed_def map_idI)
  have pre: "prefix_completed (mark_completed [] cs)"
    using sized_for_plan(1) [OF sz] fresh
    by (auto intro!: all_pending_prefix simp: all_pending_def list_all_length)
  have old: "old = (case osFiles st ?out of None \<Rightarrow> [] | Some f \<Rightarrow> feData f)"
    using Cons.prems(2) by simp
  have "1 \<le> epConnections p" using p by (simp add: plain_output_def)
  note download_parallel_file_result [OF sz this old _ _ pre _ ex]
  moreover have "doc_sound obj cs (osBaseOffset st) old (mgFile (jsSidecar st ?out))"
    using Cons.prems(5) by simp
  moreover have "\<forall>e \<in> set (xeEvents (world url)). net_ok obj e"
    using h by (simp add: honest_job_def)
  ultimately obtain t1 where
    f1: "osFiles st1 ?out = Some \<lparr>feData = write_at old (osBaseOffset st) obj, feModTime = t1\<rparr>"
    and b1: "osBaseOffset st1 = osBaseOffset st + int (length obj)"
    and sc1: "mgFile (jsSidecar st1 ?out) = None"
    by auto
  have "osFiles st1 ?out = Some \<lparr>feData = old @ obj, feModTime = t1\<rparr>"
    using f1 Cons.prems(3) by (simp add: write_at_end)
  moreover have "osBaseOffset st1 = int (length (old @ obj))" using b1 Cons.prems(3) by simp
  moreover have "int (length ((old @ obj) @ job_bytes jobs)) < 2 ^ 63" using Cons.prems(4) j by simp
  ultimately have "\<exists>t'. osFiles st' ?out = Some \<lparr>feData = (old @ obj) @ job_bytes jobs, feModTime = t'\<rparr>"
    using Cons.IH [of st1 "old @ obj" t1] Cons.prems(1) sc1 rest by simp
  then show ?case using j by simp
qed simp

text \<open>C1: Several URLs with one output file: when the run succeeds, the file is the concatenation of
  their objects in the order of the command line, whatever was in it before, provided that no
  sidecar of it is left.\<close>

theorem output_concatenates:
  assumes "plain_output p" and "jobs \<noteq> []" and "epURLs p = map fst jobs"
    and "\<forall>j \<in> set jobs. honest_job p prb world j"
    and "int (length (job_bytes jobs)) < 2 ^ 63"
    and "mgFile (jsSidecar st (epOutputFile p)) = None"
    and "run p child detachOk createOk now (state_env prb) (execute_job p sha msg world) st =
      Some (ExitSuccess, st')"
  shows "map_option feData (osFiles st' (epOutputFile p)) = Some (job_bytes jobs)"
proof -
  let ?out = "epOutputFile p"
  let ?st = "st\<lparr>osPos := 0, osBaseOffset := 0, osFiles := (osFiles st)(?out \<mapsto> \<lparr>feData = [], feModTime = now\<rparr>)\<rparr>"
  have "run_urls p (state_env prb) (execute_job p sha msg world) (map fst jobs) ExitSuccess ?st =
      Some (ExitSuccess, st')"
    using assms(1-3,7) by (auto simp: run_def plain_output_def Let_def split: if_splits)
  from run_urls_concat [OF assms(1,4) _ _ _ _ this, of "[]" now] assms(5,6) show ?thesis by auto
qed

definition demo_urls :: "(string \<times> probe_result \<times> bytes) list" where
  "demo_urls = [(''a'', demo_probe_of 3, [10, 20, 30]), (''b'', demo_probe_of 1, [50])]"

definition demo_probes :: "string \<Rightarrow> (http_err, probe_result) res" where
  "demo_probes url = (if url = ''a'' then Ret (demo_probe_of 3) else Ret (demo_probe_of 1))"

definition demo_worlds :: "string \<Rightarrow> exec_env" where
  "demo_worlds url =
     demo_world (if url = ''a'' then two_chunk_events (range_server [10, 20, 30] [(0, 1), (2, 2)])
                 else one_chunk_events (range_server [50] [(0, 0)]))"

theorem output_concatenates_witness:
  "map_option (\<lambda>(ec, st). (ec, map_option feData (osFiles st ''out'')))
     (run (demo_output_plan [''a'', ''b'']) False True True 3 (state_env demo_probes)
        (execute_job (demo_output_plan [''a'', ''b'']) demo_sha (\<lambda>e. []) demo_worlds) demo_state) =
   Some (ExitSuccess, Some [10, 20, 30, 50])"
proof -
  let ?p = "demo_output_plan [''a'', ''b'']"
  let ?run = "run ?p False True True 3 (state_env demo_probes) (execute_job ?p demo_sha (\<lambda>e. []) demo_worlds)
    demo_state"
  have "map_option fst ?run = Some ExitSuccess" by code_simp
  then obtain st' where r: "?run = Some (ExitSuccess, st')" by (cases ?run) auto
  have p: "plain_output ?p" by (simp add: plain_output_def demo_output_plan_def default_plan_def)
  have u: "epURLs ?p = map fst demo_urls" by (simp add: demo_output_plan_def demo_urls_def)
  have h: "\<forall>j \<in> set demo_urls. honest_job ?p demo_probes demo_worlds j"
    using chunk_events_ok(1) [OF range_server_truthful, of "[(0, 1), (2, 2)]" "[10, 20, 30]"]
      chunk_events_ok(2) [OF range_server_truthful, of "[(0, 0)]" "[50]"]
    by (simp add: demo_urls_def honest_job_def demo_probes_def demo_worlds_def demo_world_def
        demo_probe_of_def demo_output_plan_def plan_ok_def)
  have sc: "mgFile (jsSidecar demo_state (epOutputFile ?p)) = None"
    by (simp add: demo_state_def new_manager_def)
  have "map_option feData (osFiles st' (epOutputFile ?p)) = Some (job_bytes demo_urls)"
    by (rule output_concatenates [OF p _ u h _ sc r]) (simp_all add: demo_urls_def)
  then show ?thesis using r by (simp add: demo_output_plan_def demo_urls_def)
qed

end
