(* ===== verification/Job_Stream_Props.thy ===== *)
theory Job_Stream_Props
  imports Job_Exec_Props
begin

text \<open>
  Whole downloads to the standard output, from a truthful server: it receives exactly the
  objects. And a closed run over two invocations that shows what resuming does with \<open>-O\<close>.
\<close>

section \<open>Streams\<close>

text \<open>A parallel download to the standard output, from a truthful server: when it reports
  success, the output has grown by the object, complete and in order, and nothing else of the
  state has changed.\<close>

theorem parallel_stream_exact:
  assumes pl: "plan_ok (epSplitSize p) (prSize r)" "prSize r = int (length obj)"
    and conn: "1 \<le> epConnections p"
    and net: "\<forall>e \<in> set (xeEvents xe). net_ok obj e"
    and run: "download_parallel_stream p msg xe url r st = Some (ExitSuccess, st')"
  shows "st' = st\<lparr>osStdout := osStdout st @ obj\<rparr>"
proof -
  obtain q0 cs where q0: "stream_start p r = Some q0" "plan (epSplitSize p) (prSize r) = Some cs"
    "pool_inv obj cs q0"
    using stream_start_inv [OF pl conn] by blast
  obtain es where es: "net_run url (range_validator r) (adapter_options p) (xeEvents xe) q0 = pool_run es q0"
    "answers obj es q0"
    using net_run_answers [OF q0(3) net pl(1) q0(2) pl(2)] by blast
  obtain y werr where y: "jbSink (plJob (pool_run es q0)) = StreamTo y" "syPc y = WReturned werr"
    "stream_exit (run_workers_exit msg (worker_results (xeArrival xe) (pool_run es q0))
       (jbSched (plJob (pool_run es q0)))) werr = ExitSuccess"
    "st' = st\<lparr>osStdout := osStdout st @ syOut y\<rparr>"
    using run q0(1) es(1)
    by (auto simp: download_parallel_stream_def await_stream_def
        split: job_sink.splits writer_pc.splits if_splits)
  from stream_job_correct [OF pl conn q0(1) es(2) y(1-3)] y(4) show ?thesis by simp
qed

fun via_net :: "http_client \<Rightarrow> job_event \<Rightarrow> net_event" where
  "via_net client (JStep w now (InBody d)) = NetFetch w now client two_segments"
| "via_net client e = NetOther e"

definition demo_stream_world :: exec_env where
  "demo_stream_world =
     demo_world (map (via_net (range_server demo_obj [(0, 1), (2, 3)])) demo_stream_events)"

lemma demo_stream_world_ok: "\<forall>e \<in> set (xeEvents demo_stream_world). net_ok demo_obj e"
proof -
  have "truthful demo_obj (range_server demo_obj [(0, 1), (2, 3)])"
    by (rule range_server_truthful) simp
  moreover have "\<exists>t. b = body_rest (two_segments b) @ t" for b
    by (simp add: two_segments_def body_rest_def)
  ultimately show ?thesis
    by (simp add: demo_stream_world_def demo_world_def demo_stream_events_def stream_moves_def net_ok_def)
qed

definition demo_stream_download :: "(exit_code \<times> job_state) option" where
  "demo_stream_download =
     download_parallel_stream (demo_stream_plan 4 2) (\<lambda>e. []) demo_stream_world ''u'' (demo_probe_of 4)
       (demo_state\<lparr>osStdout := [9]\<rparr>)"

theorem parallel_stream_exact_witness:
  "map_option (\<lambda>(ec, st). (ec, osStdout st)) demo_stream_download =
     Some (ExitSuccess, [9, 10, 20, 30, 40])"
proof -
  have "map_option fst demo_stream_download = Some ExitSuccess" by code_simp
  then obtain st' where d: "demo_stream_download = Some (ExitSuccess, st')"
    by (cases demo_stream_download) auto
  have "st' = (demo_state\<lparr>osStdout := [9]\<rparr>)\<lparr>osStdout := osStdout (demo_state\<lparr>osStdout := [9]\<rparr>) @ demo_obj\<rparr>"
    by (rule parallel_stream_exact [OF _ _ _ demo_stream_world_ok d [unfolded demo_stream_download_def]])
      (simp_all add: demo_stream_plan_def demo_plan_def demo_probe_of_def plan_ok_def demo_obj_def)
  then show ?thesis unfolding d by (simp add: demo_obj_def)
qed

text \<open>Several URLs on the standard output.\<close>

definition plain_stdout :: "execution_plan \<Rightarrow> bool" where
  "plain_stdout p \<longleftrightarrow>
     epOutputMode p = OutputStdout \<and> \<not> epSpider p \<and> epBackground p = BackgroundNone \<and>
     \<not> epNoParallel p \<and> epConnections p > 1"

lemma run_one_job_stdout:
  assumes "plain_stdout p" and "honest_job p prb world (url, r, obj)"
  shows "run_one_job p (state_env prb st) (osFiles st) url display =
    Some (ActParallelStream (effective_url r url) r)"
  using assms
  by (auto simp: run_one_job_def plain_stdout_def honest_job_def state_env_def first_dest_def
      Let_def dispatch_def use_parallel_def plan_ok_def)

lemma execute_job_stream [simp]:
  "execute_job p sha msg world url (ActParallelStream eff r) st =
     download_parallel_stream p msg (world url) eff r st"
  by (simp add: execute_job_def)

lemma run_urls_stdout:
  assumes p: "plain_stdout p" and jobs: "\<forall>j \<in> set jobs. honest_job p prb world j"
    and run: "run_urls p (state_env prb) (execute_job p sha msg world)
      (map fst jobs) ExitSuccess st = Some (ExitSuccess, st')"
  shows "st' = st\<lparr>osStdout := osStdout st @ job_bytes jobs\<rparr>"
  using jobs run
proof (induction jobs arbitrary: st)
  case (Cons j jobs)
  obtain url r obj where j: "j = (url, r, obj)" by (cases j)
  have h: "honest_job p prb world (url, r, obj)" using Cons.prems(1) j by simp
  obtain st1 where ex: "download_parallel_stream p msg (world url) (effective_url r url) r st =
        Some (ExitSuccess, st1)"
    and rest: "run_urls p (state_env prb) (execute_job p sha msg world) (map fst jobs) ExitSuccess st1 =
      Some (ExitSuccess, st')"
    using Cons.prems(2) run_one_job_stdout [OF p h, of st "sanitize_display_url url"] p j
    by (auto simp: plain_stdout_def split: option.splits prod.splits if_splits)
  have "st1 = st\<lparr>osStdout := osStdout st @ obj\<rparr>"
    using h p by (intro parallel_stream_exact [OF _ _ _ _ ex]) (auto simp: honest_job_def plain_stdout_def)
  moreover have "st' = st1\<lparr>osStdout := osStdout st1 @ job_bytes jobs\<rparr>"
    using Cons.IH [OF _ rest] Cons.prems(1) by simp
  ultimately show ?case using j by simp
qed simp

text \<open>C6: Several URLs on the standard output: when the run succeeds, exactly their objects have been
  written, complete and in the order of the command line, whatever the interleaving of
  workers and writer and the speculative duplicates, and no file is touched.\<close>

theorem stdout_concatenates:
  assumes "plain_stdout p" and "jobs \<noteq> []" and "epURLs p = map fst jobs"
    and "\<forall>j \<in> set jobs. honest_job p prb world j"
    and "run p child detachOk createOk now (state_env prb) (execute_job p sha msg world) st =
      Some (ExitSuccess, st')"
  shows "osStdout st' = osStdout st @ job_bytes jobs \<and> osFiles st' = osFiles st"
proof -
  have "run_urls p (state_env prb) (execute_job p sha msg world) (map fst jobs) ExitSuccess
      (st\<lparr>osPos := 0, osBaseOffset := 0\<rparr>) = Some (ExitSuccess, st')"
    using assms(1-3,5) by (auto simp: run_def plain_stdout_def Let_def split: if_splits)
  from run_urls_stdout [OF assms(1,4) this] show ?thesis by simp
qed

theorem stdout_concatenates_witness:
  "map_option (\<lambda>(ec, st). (ec, osStdout st))
     (run ((demo_stream_plan 4 2)\<lparr>epOutputMode := OutputStdout, epURLs := [''u'']\<rparr>) False True True 3
        (state_env (\<lambda>u. Ret (demo_probe_of 4)))
        (execute_job ((demo_stream_plan 4 2)\<lparr>epOutputMode := OutputStdout, epURLs := [''u'']\<rparr>)
           demo_sha (\<lambda>e. []) (\<lambda>u. demo_stream_world)) demo_state) =
     Some (ExitSuccess, [10, 20, 30, 40])"
proof -
  let ?p = "(demo_stream_plan 4 2)\<lparr>epOutputMode := OutputStdout, epURLs := [''u'']\<rparr>"
  let ?prb = "\<lambda>u :: string. Ret (demo_probe_of 4) :: (http_err, probe_result) res"
  let ?run = "run ?p False True True 3 (state_env ?prb)
    (execute_job ?p demo_sha (\<lambda>e. []) (\<lambda>u. demo_stream_world)) demo_state"
  let ?jobs = "[(''u'', demo_probe_of 4, demo_obj)]"
  have "map_option fst ?run = Some ExitSuccess" by code_simp
  then obtain st' where r: "?run = Some (ExitSuccess, st')" by (cases ?run) auto
  have p: "plain_stdout ?p"
    by (simp add: plain_stdout_def demo_stream_plan_def demo_plan_def default_plan_def)
  have h: "\<forall>j \<in> set ?jobs. honest_job ?p ?prb (\<lambda>u. demo_stream_world) j"
    using demo_stream_world_ok
    by (simp add: honest_job_def demo_probe_of_def demo_obj_def demo_stream_plan_def demo_plan_def plan_ok_def)
  have "osStdout st' = osStdout demo_state @ job_bytes ?jobs"
    using stdout_concatenates [OF p _ _ h r] by simp
  then show ?thesis using r by (simp add: demo_state_def demo_obj_def)
qed

section \<open>An interrupted download and its repetition\<close>

text \<open>The first run stores chunk 0 and is cancelled, the
  second fetches chunk 1.\<close>

definition interrupted_events :: "http_client \<Rightarrow> net_event list" where
  "interrupted_events client =
     [net_step 0 1, net_step 0 2, net_step 1 3, net_step 1 4] @ net_moves client 0 5 @
     [NetOther (JStep 1 10 InReadFails), net_step 1 11, NetOther JCancel,
      net_step 0 12, net_step 0 13, net_step 1 14, net_step 1 15]"

definition demo_run :: "net_event list \<Rightarrow> job_state \<Rightarrow> (exit_code \<times> job_state) option" where
  "demo_run es st =
     run (demo_output_plan [''u'']) False True True 3 (state_env (\<lambda>u. Ret (demo_probe_of 4)))
       (execute_job (demo_output_plan [''u'']) demo_sha (\<lambda>e. []) (\<lambda>u. demo_world es)) st"

definition outcome :: "(exit_code \<times> job_state) option \<Rightarrow> (exit_code \<times> bytes option) option" where
  "outcome = map_option (\<lambda>(ec, st). (ec, map_option feData (osFiles st ''out'')))"


end
