(* ===== verification/Main_Program.thy ===== *)
theory Main_Program
  imports Cli_Parser Runner
begin

text \<open>
  The program, \<open>cmd/pget/main.go\<close>, and its detachment, \<open>internal/job/background.go\<close>: the
  arguments are parsed, a plan that asks for the background is handed to a child process with
  the same arguments less the background options, and any other plan is run. The environment
  variables are a function; starting the child is an argument. The theory shows which command
  lines the child reads as its parent did.
\<close>

section \<open>Detaching\<close>

definition child_env_marker :: string where
  "child_env_marker = ''PGET_BACKGROUND_CHILD''"

definition is_background_child :: "(string \<Rightarrow> string) \<Rightarrow> bool" where
  "is_background_child getenv \<longleftrightarrow> getenv child_env_marker = ''1''"

definition background_word :: "string \<Rightarrow> bool" where
  "background_word a \<longleftrightarrow> a = ''-b'' \<or> a = ''--background''"

definition child_args :: "string list \<Rightarrow> string list" where
  "child_args args = filter (\<lambda>a. \<not> background_word a) args"

text \<open>The command of the child: executable, arguments and environment.\<close>

type_synonym command = "string \<times> string list \<times> (string \<Rightarrow> string)"

definition detach_to_background ::
  "string + string \<Rightarrow> (command \<Rightarrow> string option) \<Rightarrow> string list \<Rightarrow> (string \<Rightarrow> string) \<Rightarrow> string + command" where
  "detach_to_background executable start args getenv =
     (case executable of
        Inl e \<Rightarrow> Inl (''find executable: '' @ e)
      | Inr exe \<Rightarrow>
          let cmd = (exe, child_args args, getenv(child_env_marker := ''1''))
          in case start cmd of
               Some e \<Rightarrow> Inl (''start background child: '' @ e)
             | None \<Rightarrow> Inr cmd)"

section \<open>The program\<close>

text \<open>How a process ends: its exit code, the child it started, and the files and output.\<close>

type_synonym process_end = "exit_code \<times> command option \<times> output_state"

text \<open>\<open>runner\<close> is \<open>Run\<close> of a plan in a process that is (\<open>True\<close>) or is not the background child.
  \<open>None\<close> is a panic.\<close>

definition main_program ::
  "(string \<Rightarrow> duration option) \<Rightarrow> (string \<Rightarrow> string option) \<Rightarrow> string + string \<Rightarrow>
     (command \<Rightarrow> string option) \<Rightarrow>
     (execution_plan \<Rightarrow> bool \<Rightarrow> output_state \<Rightarrow> (exit_code \<times> output_state) option) \<Rightarrow>
     (string \<Rightarrow> string) \<Rightarrow> string list \<Rightarrow> output_state \<Rightarrow> process_end option" where
  "main_program secs readFile executable start runner getenv args st =
     (case cli_parse secs readFile args of
        Panic \<Rightarrow> None
      | Err e \<Rightarrow> Some (if e = ExitZero then ExitSuccess else ExitParseError, None, st)
      | Ret p \<Rightarrow>
          if epBackground p = BackgroundChild \<and> \<not> is_background_child getenv then
            (case detach_to_background executable start args getenv of
               Inl e \<Rightarrow> Some (ExitGenericError, None, st)
             | Inr cmd \<Rightarrow> Some (ExitSuccess, Some cmd, st))
          else map_option (\<lambda>(ec, st'). (ec, None, st')) (runner p (is_background_child getenv) st))"

section \<open>Command lines in which the background options are options\<close>

text \<open>Whether a word consumes the next argument as its value.\<close>

fun short_takes :: "string \<Rightarrow> bool" where
  "short_takes [] = False"
| "short_takes (c # cs) =
     (if byte_in 0x80 0xFF c then multibyte (c # cs) = 0 \<and> short_takes cs
      else case opt_by_short c of
        None \<Rightarrow> False
      | Some o' \<Rightarrow> if oArg o' = [] then short_takes cs else cs = [])"

definition long_takes :: "string \<Rightarrow> bool" where
  "long_takes arg =
     (let (name, v) = (case split_two (CHR ''='') (drop 2 arg) of
             None \<Rightarrow> (drop 2 arg, []) | Some nv \<Rightarrow> nv)
      in case opt_by_name name of None \<Rightarrow> False | Some o' \<Rightarrow> v = [] \<and> oArg o' \<noteq> [])"

definition takes_next :: "string \<Rightarrow> bool" where
  "takes_next arg \<longleftrightarrow>
     (if has_prefix arg ''--'' then long_takes arg
      else has_prefix arg ''-'' \<and> length arg > 1 \<and> \<not> is_negative_number arg \<and>
        drop 1 arg \<noteq> ''nc'' \<and> drop 1 arg \<noteq> ''nv'' \<and> short_takes (drop 1 arg))"

text \<open>No value of an option and nothing after \<open>--\<close> is spelt like a background option.\<close>

fun plain_background :: "string list \<Rightarrow> bool" where
  "plain_background [] = True"
| "plain_background (arg # rest) =
     (if arg = ''--'' then list_all (\<lambda>a. \<not> background_word a) rest
      else if takes_next arg then
        (case rest of [] \<Rightarrow> True | w # ws \<Rightarrow> \<not> background_word w \<and> plain_background ws)
      else plain_background rest)"

section \<open>The background setting does not influence the parser\<close>

definition foreground :: "execution_plan \<Rightarrow> execution_plan" where
  "foreground e = e\<lparr>epBackground := BackgroundNone\<rparr>"

definition nobg :: "parser \<Rightarrow> parser" where
  "nobg p = p\<lparr>paPlan := foreground (paPlan p)\<rparr>"

fun map_ret :: "('a \<Rightarrow> 'b) \<Rightarrow> ('e, 'a) res \<Rightarrow> ('e, 'b) res" where
  "map_ret f (Ret x) = Ret (f x)"
| "map_ret f (Err e) = Err e"
| "map_ret f Panic = Panic"

lemma map_ret_Ret: "map_ret f r = Ret y \<longleftrightarrow> (\<exists>x. r = Ret x \<and> f x = y)"
  by (cases r) auto

lemma set_plan_nobg:
  assumes "\<And>e. foreground (f (foreground e)) = foreground (f e)"
  shows "map_ret nobg (set_plan f (nobg p)) = map_ret nobg (set_plan f p)"
  by (simp add: set_plan_def nobg_def assms)

lemma set_flag_nobg: "map_ret nobg (set_flag name (nobg p)) = map_ret nobg (set_flag name p)"
  by (simp add: set_flag_def set_plan_def nobg_def foreground_def)

lemma map_ret_bind: "map_ret f (res_bind r g) = res_bind r (\<lambda>x. map_ret f (g x))"
  by (cases r) simp_all

lemma header_nobg:
  "nobg ((nobg p)\<lparr>paHeaders := paHeaders (nobg p) @ hs\<rparr>) = nobg (p\<lparr>paHeaders := paHeaders p @ hs\<rparr>)"
  by (simp add: nobg_def foreground_def)

lemma set_option_nobg: "map_ret nobg (set_option secs o' v (nobg p)) = map_ret nobg (set_option secs o' v p)"
  unfolding set_option_def Let_def
  by (simp add: set_flag_nobg set_plan_nobg header_nobg foreground_def map_ret_bind split: option.split)

lemma set_option_bg:
  "set_option secs o' v p = Ret p' \<Longrightarrow> epBackground (paPlan p') =
     (if oLong o' = ''background'' then BackgroundChild else epBackground (paPlan p))"
  by (auto simp: set_option_def set_flag_def set_plan_def Let_def res_bind_Ret
      split: if_splits option.splits)

text \<open>Parsers that differ in the background setting at most; the second has it only where the
  first has.\<close>

definition same_fg :: "parser \<Rightarrow> parser \<Rightarrow> bool" where
  "same_fg p q \<longleftrightarrow> nobg p = nobg q \<and>
     (epBackground (paPlan q) = BackgroundChild \<longrightarrow> epBackground (paPlan p) = BackgroundChild)"

lemma set_option_same:
  assumes "set_option secs o' v p = Ret p'" and "same_fg p q"
  obtains q' where "set_option secs o' v q = Ret q'" and "same_fg p' q'"
proof -
  have "map_ret nobg (set_option secs o' v p) = map_ret nobg (set_option secs o' v q)"
    using set_option_nobg [of secs o' v p] set_option_nobg [of secs o' v q] assms(2)
    by (simp add: same_fg_def)
  then have "map_ret nobg (set_option secs o' v q) = Ret (nobg p')" using assms(1) by simp
  then obtain q' where q': "set_option secs o' v q = Ret q'" "nobg p' = nobg q'"
    by (auto simp: map_ret_Ret)
  moreover have "same_fg p' q'"
    using q'(2) assms(2) set_option_bg [OF assms(1)] set_option_bg [OF q'(1)]
    by (simp add: same_fg_def)
  ultimately show ?thesis using that by blast
qed

lemma set_background:
  assumes "oLong o' = ''background''"
  shows "\<exists>p'. set_option secs o' v p = Ret p' \<and> nobg p' = nobg p \<and>
    epBackground (paPlan p') = BackgroundChild"
  using assms
  by (simp add: set_option_def set_flag_def set_plan_def Let_def nobg_def foreground_def)

lemma parse_long_same:
  assumes "parse_long_option secs arg rest p = Ret (p', k)" and "same_fg p q"
    and "long_takes arg \<Longrightarrow> rest \<noteq> [] \<Longrightarrow> rest' \<noteq> [] \<and> hd rest' = hd rest"
  obtains q' where "parse_long_option secs arg rest' q = Ret (q', k)" and "same_fg p' q'"
    and "k = (if long_takes arg then 1 else 0)" and "long_takes arg \<Longrightarrow> rest \<noteq> []"
proof -
  obtain name v where nv: "(case split_two (CHR ''='') (drop 2 arg) of
      None \<Rightarrow> (drop 2 arg, []) | Some nv \<Rightarrow> nv) = (name, v)" by fastforce
  obtain o' where o': "opt_by_name name = Some o'"
    using assms(1) nv by (auto simp: parse_long_option_def split: option.splits)
  have takes: "long_takes arg \<longleftrightarrow> v = [] \<and> oArg o' \<noteq> []"
    using nv o' by (simp add: long_takes_def)
  show ?thesis
  proof (cases "long_takes arg")
    case True
    then obtain w ws where rest: "rest = w # ws"
      using assms(1) nv o' takes by (auto simp: parse_long_option_def split: list.splits)
    then have "set_option secs o' w p = Ret p'" "k = 1"
      using assms(1) nv o' takes True by (auto simp: parse_long_option_def res_bind_Ret)
    then obtain q' where "set_option secs o' w q = Ret q'" "same_fg p' q'"
      using set_option_same assms(2) by blast
    moreover obtain ws' where "rest' = w # ws'" using assms(3) True rest by (cases rest') auto
    ultimately show ?thesis
      using nv o' takes True rest \<open>k = 1\<close> by (intro that [of q']) (simp_all add: parse_long_option_def)
  next
    case False
    then have "set_option secs o' v p = Ret p'" "k = 0"
      using assms(1) nv o' takes by (auto simp: parse_long_option_def res_bind_Ret)
    then obtain q' where "set_option secs o' v q = Ret q'" "same_fg p' q'"
      using set_option_same assms(2) by blast
    then show ?thesis
      using nv o' takes False \<open>k = 0\<close> by (intro that [of q']) (auto simp: parse_long_option_def)
  qed
qed

lemma short_loop_same:
  assumes "short_loop secs flags rest p = Ret (p', k)" and "same_fg p q"
    and "short_takes flags \<Longrightarrow> rest \<noteq> [] \<Longrightarrow> rest' \<noteq> [] \<and> hd rest' = hd rest"
  shows "(\<exists>q'. short_loop secs flags rest' q = Ret (q', k) \<and> same_fg p' q') \<and>
    k = (if short_takes flags then 1 else 0) \<and> (short_takes flags \<longrightarrow> rest \<noteq> [])"
  using assms
proof (induction flags arbitrary: p q)
  case (Cons c cs)
  show ?case
  proof (cases "byte_in 0x80 0xFF c")
    case True
    then show ?thesis using Cons by (auto split: if_splits)
  next
    case False
    then obtain o' where o': "opt_by_short c = Some o'"
      using Cons.prems(1) by (auto split: option.splits)
    show ?thesis
    proof (cases "oArg o' = []")
      case True
      then obtain p1 where p1: "set_option secs o' [] p = Ret p1" "short_loop secs cs rest p1 = Ret (p', k)"
        using Cons.prems(1) False o' by (auto simp: res_bind_Ret)
      then obtain q1 where q1: "set_option secs o' [] q = Ret q1" "same_fg p1 q1"
        using set_option_same Cons.prems(2) by blast
      have "short_takes cs \<Longrightarrow> rest \<noteq> [] \<Longrightarrow> rest' \<noteq> [] \<and> hd rest' = hd rest"
        using Cons.prems(3) False o' True by simp
      from Cons.IH [OF p1(2) q1(2) this] show ?thesis
        using q1(1) False o' True by (cases "short_takes cs") auto
    next
      case arg: False
      show ?thesis
      proof (cases "cs = []")
        case True
        then obtain w ws where rest: "rest = w # ws"
          using Cons.prems(1) False o' arg by (cases rest) auto
        then have w: "set_option secs o' w p = Ret p'" "k = 1"
          using Cons.prems(1) False o' arg True by (auto simp: res_bind_Ret)
        then obtain q' where "set_option secs o' w q = Ret q'" "same_fg p' q'"
          using set_option_same Cons.prems(2) by blast
        moreover obtain ws' where "rest' = w # ws'"
          using Cons.prems(3) False o' arg True rest by (cases rest') auto
        ultimately show ?thesis using False o' arg True rest w(2) by simp
      next
        case cs: False
        then have w: "set_option secs o' cs p = Ret p'" "k = 0"
          using Cons.prems(1) False o' arg by (auto simp: res_bind_Ret)
        then obtain q' where "set_option secs o' cs q = Ret q'" "same_fg p' q'"
          using set_option_same Cons.prems(2) by blast
        then show ?thesis using False o' arg cs w(2) by simp
      qed
    qed
  qed
qed simp

lemma set_named_same:
  assumes "set_named secs name p = Ret p'" and "same_fg p q"
  shows "\<exists>q'. set_named secs name q = Ret q' \<and> same_fg p' q'"
  using assms set_option_same
  by (auto simp: set_named_def split: option.splits) blast

lemma parse_short_same:
  assumes "parse_short_options secs flags rest p = Ret (p', k)" and "same_fg p q"
    and "flags \<noteq> ''nc'' \<and> flags \<noteq> ''nv'' \<and> short_takes flags \<Longrightarrow> rest \<noteq> [] \<Longrightarrow>
      rest' \<noteq> [] \<and> hd rest' = hd rest"
  shows "(\<exists>q'. parse_short_options secs flags rest' q = Ret (q', k) \<and> same_fg p' q') \<and>
    k = (if flags \<noteq> ''nc'' \<and> flags \<noteq> ''nv'' \<and> short_takes flags then 1 else 0) \<and>
    (flags \<noteq> ''nc'' \<and> flags \<noteq> ''nv'' \<and> short_takes flags \<longrightarrow> rest \<noteq> [])"
proof (cases "flags = ''nc'' \<or> flags = ''nv''")
  case True
  then show ?thesis
  proof
    assume nc: "flags = ''nc''"
    then obtain p1 where "set_named secs ''no-clobber'' p = Ret p1" "set_named secs ''continue'' p1 = Ret p'"
      "k = 0" using assms(1) by (auto simp: parse_short_options_def res_bind_Ret)
    moreover from this obtain q1 where "set_named secs ''no-clobber'' q = Ret q1" "same_fg p1 q1"
      using set_named_same assms(2) by blast
    moreover from calculation obtain q' where "set_named secs ''continue'' q1 = Ret q'" "same_fg p' q'"
      using set_named_same by blast
    ultimately show ?thesis using nc by (simp add: parse_short_options_def)
  next
    assume nv: "flags = ''nv''"
    then have p1: "set_named secs ''no-verbose'' p = Ret p'" "k = 0"
      using assms(1) by (auto simp: parse_short_options_def res_bind_Ret)
    then obtain q' where "set_named secs ''no-verbose'' q = Ret q'" "same_fg p' q'"
      using set_named_same assms(2) by blast
    then show ?thesis using nv p1 by (simp add: parse_short_options_def)
  qed
next
  case False
  then have loop: "short_loop secs flags rest p = Ret (p', k)"
    using assms(1) by (simp add: parse_short_options_def)
  have "short_takes flags \<Longrightarrow> rest \<noteq> [] \<Longrightarrow> rest' \<noteq> [] \<and> hd rest' = hd rest"
    using assms(3) False by simp
  from short_loop_same [OF loop assms(2) this] show ?thesis
    using False by (cases "short_takes flags") (auto simp: parse_short_options_def)
qed

text \<open>A background option by itself changes the background setting only.\<close>

lemma parse_background:
  assumes "background_word a"
  shows "\<exists>p'. parse_options secs (a # rest) p = parse_options secs rest p' \<and> nobg p' = nobg p \<and>
    epBackground (paPlan p') = BackgroundChild"
proof -
  let ?o = "opt ''background'' CHR ''b'' []"
  obtain p' where p': "set_option secs ?o [] p = Ret p'"
    "nobg p' = nobg p \<and> epBackground (paPlan p') = BackgroundChild"
    using set_background [of ?o secs "[]" p] by (auto simp: opt_def)
  have n: "opt_by_name ''background'' = Some ?o" and s: "opt_by_short CHR ''b'' = Some ?o"
    by (simp_all add: opt_by_name_def opt_by_short_def cli_options_def opt_def no_short_def)
  have o: "oArg ?o = []" by (simp add: opt_def)
  have b: "\<not> byte_in 0x80 0xFF CHR ''b''" by (simp add: byte_in_def)
  have "parse_long_option secs ''--background'' rest p = Ret (p', 0)"
    using n o p' by (simp add: parse_long_option_def)
  moreover have "parse_short_options secs ''b'' rest p = Ret (p', 0)"
    using s o b p' by (simp add: parse_short_options_def)
  ultimately have "parse_options secs (a # rest) p = parse_options secs rest p'"
    using assms by (auto simp: background_word_def has_prefix_def is_negative_number_def is_digit_def
        less_eq_char_def)
  then show ?thesis using p'(2) by blast
qed

text \<open>Filtering keeps the value of an option whose value is not spelt like one.\<close>

lemma child_args_Cons [simp]:
  "child_args [] = []"
  "child_args (a # rest) = (if background_word a then child_args rest else a # child_args rest)"
  by (simp_all add: child_args_def)

lemma takes_value:
  assumes "plain_background (arg # rest)" and "takes_next arg" and "arg \<noteq> ''--''" and "rest \<noteq> []"
  shows "child_args rest \<noteq> [] \<and> hd (child_args rest) = hd rest \<and>
    drop 1 (child_args rest) = child_args (drop 1 rest) \<and> plain_background (drop 1 rest)"
  using assms by (cases rest) auto

lemma drop_child:
  assumes "plain_background (arg # rest)" and "arg \<noteq> ''--''"
    and "k = (if takes_next arg then 1 else 0)" and "takes_next arg \<longrightarrow> rest \<noteq> []"
  shows "drop k (child_args rest) = child_args (drop k rest) \<and> plain_background (drop k rest)"
  using assms takes_value [of arg rest] by (cases "takes_next arg") auto

lemma parse_options_child:
  assumes "parse_options secs args p = Ret (p', pos)" and "same_fg p q" and "plain_background args"
  shows "\<exists>q'. parse_options secs (child_args args) q = Ret (q', pos) \<and> same_fg p' q'"
  using assms
proof (induction "length args" arbitrary: args p q pos rule: less_induct)
  case less
  show ?case
  proof (cases args)
    case Nil
    then show ?thesis using less.prems by auto
  next
    case (Cons arg rest)
    show ?thesis
    proof (cases "background_word arg")
      case True
      then have "\<not> takes_next arg" "arg \<noteq> ''--''"
        by (auto simp: background_word_def takes_next_def long_takes_def has_prefix_def opt_by_name_def
            cli_options_def opt_def opt_by_short_def no_short_def byte_in_def)
      moreover obtain p1 where "parse_options secs args p = parse_options secs rest p1"
        "nobg p1 = nobg p" "epBackground (paPlan p1) = BackgroundChild"
        using parse_background [OF True] Cons by blast
      ultimately show ?thesis
        using less.hyps [of rest p1 pos q] less.prems True Cons by (simp add: same_fg_def)
    next
      case False
      have child: "child_args args = arg # child_args rest" using False Cons by simp
      have tail: "\<exists>q'. parse_options secs (child_args (drop k rest)) q1 = Ret (q', ps) \<and> same_fg p' q'"
        if "parse_options secs (drop k rest) p1 = Ret (p', ps)" "same_fg p1 q1"
          "plain_background (drop k rest)" for k p1 q1 ps
        using less.hyps [OF _ that] Cons by simp
      consider (dashes) "arg = ''--''" | (long) "arg \<noteq> ''--''" "has_prefix arg ''--''"
        | (short) "\<not> has_prefix arg ''--''" "arg \<noteq> ''-''" "has_prefix arg ''-''" "length arg > 1"
            "\<not> is_negative_number arg"
        | (plain) "\<not> has_prefix arg ''--''" "arg = ''-'' \<or> \<not> (has_prefix arg ''-'' \<and> length arg > 1) \<or>
            is_negative_number arg"
        by blast
      then show ?thesis
      proof cases
        case dashes
        then have "child_args rest = rest"
          using less.prems(3) Cons by (simp add: child_args_def list_all_iff)
        then show ?thesis using dashes less.prems child Cons by (simp add: same_fg_def) 
      next
        case plain
        then have ne: "arg \<noteq> ''--''" by (auto simp: has_prefix_def)
        then obtain ps where "parse_options secs rest p = Ret (p', ps)" "pos = arg # ps"
          using less.prems(1) plain Cons by (auto simp: Let_def res_bind_Ret split: if_splits)
        moreover have "plain_background rest"
          using less.prems(3) Cons ne plain by (auto simp: takes_next_def split: if_splits)
        ultimately obtain q' where "parse_options secs (child_args rest) q = Ret (q', ps)" "same_fg p' q'"
          using tail [of 0 p ps q] less.prems(2) by auto
        then show ?thesis using plain ne child \<open>pos = arg # ps\<close> by (auto simp: Let_def)
      next
        case long
        then have takes: "takes_next arg = long_takes arg" by (simp add: takes_next_def)
        obtain p1 k where p1: "parse_long_option secs arg rest p = Ret (p1, k)"
          "parse_options secs (drop k rest) p1 = Ret (p', pos)"
          using less.prems(1) long Cons by (auto simp: Let_def res_bind_Ret has_prefix_def split: if_splits)
        have "long_takes arg \<Longrightarrow> rest \<noteq> [] \<Longrightarrow> child_args rest \<noteq> [] \<and> hd (child_args rest) = hd rest"
          using takes_value [of arg rest] less.prems(3) Cons long takes by blast
        from parse_long_same [OF p1(1) less.prems(2) this]
        obtain q1 where q1: "parse_long_option secs arg (child_args rest) q = Ret (q1, k)" "same_fg p1 q1"
          "k = (if takes_next arg then 1 else 0)" "takes_next arg \<longrightarrow> rest \<noteq> []"
          unfolding takes by blast
        then have d: "drop k (child_args rest) = child_args (drop k rest)" "plain_background (drop k rest)"
          using drop_child [of arg rest k] less.prems(3) Cons long by auto
        show ?thesis
          using tail [OF p1(2) q1(2) d(2)] q1(1) d(1) long child
          by (auto simp: Let_def has_prefix_def)
      next
        case short
        then have ne: "arg \<noteq> ''--''" by (auto simp: has_prefix_def)
        have takes: "takes_next arg \<longleftrightarrow> drop 1 arg \<noteq> ''nc'' \<and> drop 1 arg \<noteq> ''nv'' \<and> short_takes (drop 1 arg)"
          using short by (simp add: takes_next_def)
        obtain p1 k where p1: "parse_short_options secs (drop 1 arg) rest p = Ret (p1, k)"
          "parse_options secs (drop k rest) p1 = Ret (p', pos)"
          using less.prems(1) short ne Cons by (auto simp: Let_def res_bind_Ret split: if_splits)
        have "drop 1 arg \<noteq> ''nc'' \<and> drop 1 arg \<noteq> ''nv'' \<and> short_takes (drop 1 arg) \<Longrightarrow> rest \<noteq> [] \<Longrightarrow>
            child_args rest \<noteq> [] \<and> hd (child_args rest) = hd rest"
          using takes_value [of arg rest] less.prems(3) Cons ne unfolding takes by blast
        from parse_short_same [OF p1(1) less.prems(2) this]
        obtain q1 where q1: "parse_short_options secs (drop 1 arg) (child_args rest) q = Ret (q1, k)"
          "same_fg p1 q1" "k = (if takes_next arg then 1 else 0)" "takes_next arg \<longrightarrow> rest \<noteq> []"
          unfolding takes by blast
        then have d: "drop k (child_args rest) = child_args (drop k rest)" "plain_background (drop k rest)"
          using drop_child [of arg rest k] less.prems(3) Cons ne by auto
        show ?thesis
          using tail [OF p1(2) q1(2) d(2)] q1(1) d(1) short ne child
          by (auto simp: Let_def)
      qed
    qed
  qed
qed

section \<open>Running in the background\<close>

lemma foreground_update: "foreground e' = foreground e \<Longrightarrow> e' = e\<lparr>epBackground := epBackground e'\<rparr>"
  by (cases e; cases e') (simp add: foreground_def)

lemma same_fg_update:
  assumes "same_fg p q"
  obtains b where "q = p\<lparr>paPlan := (paPlan p)\<lparr>epBackground := b\<rparr>\<rparr>"
    and "b = BackgroundChild \<longrightarrow> epBackground (paPlan p) = BackgroundChild"
proof
  have n: "nobg q = nobg p" and b: "epBackground (paPlan q) = BackgroundChild \<longrightarrow>
      epBackground (paPlan p) = BackgroundChild"
    using assms by (simp_all add: same_fg_def)
  have "paPlan (nobg q) = paPlan (nobg p)" "paHeaders (nobg q) = paHeaders (nobg p)"
    using n by simp_all
  then have "foreground (paPlan q) = foreground (paPlan p)" "paHeaders q = paHeaders p"
    by (simp_all add: nobg_def)
  from foreground_update [OF this(1)] this(2)
  show "q = p\<lparr>paPlan := (paPlan p)\<lparr>epBackground := epBackground (paPlan q)\<rparr>\<rparr>"
    by (cases p; cases q) simp
  show "epBackground (paPlan q) = BackgroundChild \<longrightarrow> epBackground (paPlan p) = BackgroundChild"
    by (rule b)
qed

lemma validate_background:
  assumes "validate p = Ret e" and "b = BackgroundChild \<longrightarrow> epBackground (paPlan p) = BackgroundChild"
  shows "validate (p\<lparr>paPlan := (paPlan p)\<lparr>epBackground := b\<rparr>\<rparr>) = Ret (e\<lparr>epBackground := b\<rparr>)"
  using assms by (auto simp: validate_def Let_def res_bind_Ret split: if_splits)

lemma job_background:
  "first_dest (e\<lparr>epBackground := b\<rparr>) display = first_dest e display"
  "dispatch (e\<lparr>epBackground := b\<rparr>) url dest r ks = dispatch e url dest r ks"
  by (simp_all add: first_dest_def dispatch_def use_parallel_def Let_def split: output_mode.split)

lemma run_one_job_background:
  "run_one_job (e\<lparr>epBackground := b\<rparr>) env fs url display = run_one_job e env fs url display"
  by (simp add: run_one_job_def job_background cong del: if_weak_cong option.case_cong_weak
      resume_decision.case_cong_weak res.case_cong_weak)

lemma run_urls_background:
  "run_urls (e\<lparr>epBackground := b\<rparr>) env execute urls worst st = run_urls e env execute urls worst st"
  by (induction urls arbitrary: worst st)
     (simp_all add: run_one_job_background split: option.split job_action.split prod.split)

lemma run_foreground:
  "run (foreground e) False detachOk createOk now env execute st =
   run (e\<lparr>epBackground := b\<rparr>) True detachOk createOk now env execute st"
  by (simp add: run_def foreground_def run_urls_background Let_def)

lemma background_urls:
  "e\<lparr>epBackground := b, epURLs := us\<rparr> = e\<lparr>epURLs := us, epBackground := b\<rparr>"
  by (cases e) simp

text \<open>C26: A command line in which no option's value and nothing after \<open>--\<close> is spelt like a
  background option is read by the background child as by its parent, but for the background
  setting; and the child, which is told by its environment not to detach again, runs that plan
  to the end a foreground process would reach.\<close>

theorem child_same_run:
  assumes "cli_parse secs readFile args = Ret e" and "plain_background args"
    and "runner = (\<lambda>p child st. run p child detachOk createOk now env execute st)"
  shows "\<exists>e'. cli_parse secs readFile (child_args args) = Ret e' \<and> foreground e' = foreground e \<and>
    main_program secs readFile executable start runner (getenv(child_env_marker := ''1''))
        (child_args args) st =
      map_option (\<lambda>(ec, st'). (ec, None, st')) (runner (foreground e) False st)"
proof -
  let ?p0 = "\<lparr>paPlan = default_plan, paHeaders = []\<rparr>"
  obtain p pos where p: "parse_options secs args ?p0 = Ret (p, pos)"
    using assms(1) by (auto simp: cli_parse_def res_bind_Ret)
  obtain q where q: "parse_options secs (child_args args) ?p0 = Ret (q, pos)" "same_fg p q"
    using parse_options_child [OF p _ assms(2), of ?p0] by (auto simp: same_fg_def)
  obtain b where b: "q = p\<lparr>paPlan := (paPlan p)\<lparr>epBackground := b\<rparr>\<rparr>"
    "b = BackgroundChild \<longrightarrow> epBackground (paPlan p) = BackgroundChild"
    using q(2) by (rule same_fg_update)
  have v: "validate (p\<lparr>paPlan := (paPlan p)\<lparr>epBackground := b, epURLs := us\<rparr>\<rparr>) =
      Ret (e\<lparr>epBackground := b\<rparr>)"
    if "validate (p\<lparr>paPlan := (paPlan p)\<lparr>epURLs := us\<rparr>\<rparr>) = Ret e" for us
    using validate_background [OF that, of b] b(2) by (simp add: background_urls)
  have e': "cli_parse secs readFile (child_args args) = Ret (e\<lparr>epBackground := b\<rparr>)"
    using assms(1) p q(1) b v
    by (auto simp: cli_parse_def Let_def split: if_splits option.splits)
  have "runner (e\<lparr>epBackground := b\<rparr>) True st = runner (foreground e) False st"
    unfolding assms(3) by (simp add: run_foreground [of e _ _ _ _ _ _ b])
  then show ?thesis
    using e' by (simp add: main_program_def is_background_child_def child_env_marker_def foreground_def)
qed

theorem child_same_run_witness:
  "\<exists>e. cli_parse (\<lambda>s. None) (\<lambda>f. None) (child_args [''-b'', ''-t'', ''3'', ''u'']) = Ret e \<and>
     epMaxTries e = 3 \<and> epURLs e = [''u'']"
proof -
  have "(case cli_parse (\<lambda>s. None) (\<lambda>f. None) [''-b'', ''-t'', ''3'', ''u''] of
      Ret e \<Rightarrow> epMaxTries e = 3 \<and> epURLs e = [''u''] | _ \<Rightarrow> False)" by code_simp
  then obtain e where e: "cli_parse (\<lambda>s. None) (\<lambda>f. None) [''-b'', ''-t'', ''3'', ''u''] = Ret e"
    "epMaxTries e = 3" "epURLs e = [''u'']" by (auto split: res.splits)
  have plain: "plain_background [''-b'', ''-t'', ''3'', ''u'']" by code_simp
  obtain e' where e': "cli_parse (\<lambda>s. None) (\<lambda>f. None) (child_args [''-b'', ''-t'', ''3'', ''u'']) = Ret e'"
    "foreground e' = foreground e"
    using child_same_run [OF e(1) plain refl] by blast
  obtain b where "e' = e\<lparr>epBackground := b\<rparr>" using foreground_update [OF e'(2)] by blast
  then show ?thesis using e'(1) e(2,3) by simp
qed

text \<open>Without that condition the child can read something else: a value that is spelt like a
  background option is dropped, and the option takes the URL instead.\<close>

lemma child_loses_value:
  "child_args [''--user-agent'', ''-b'', ''u''] = [''--user-agent'', ''u''] \<and>
   cli_parse secs readFile [''--user-agent'', ''u''] = Ret (default_plan\<lparr>epUserAgent := ''u''\<rparr>)"
proof -
  have "opt_by_name ''user-agent'' = Some (opt ''user-agent'' no_short ''STRING'')"
    by (simp add: opt_by_name_def cli_options_def opt_def)
  then have "parse_long_option secs ''--user-agent'' [''u''] p =
      Ret (p\<lparr>paPlan := (paPlan p)\<lparr>epUserAgent := ''u''\<rparr>\<rparr>, 1)" for p
    by (simp add: parse_long_option_def set_option_def opt_def set_plan_def)
  then show ?thesis
    by (simp add: cli_parse_def validate_def Let_def default_plan_def default_buffer_size_def
        default_split_size_def has_prefix_def background_word_def)
qed

end
