(* ===== verification/Version.thy ===== *)
theory Version
  imports Go_Strings
begin

text \<open>
  The version string, \<open>internal/version/version.go\<close>. The package variables \<open>Version\<close> and
  \<open>Commit\<close> are a record; \<open>init\<close> fills them from the build information that the Go tool chain
  embeds (\<open>debug.ReadBuildInfo\<close>, an argument: \<open>None\<close> when there is none). The lemmas say which
  commit is reported for a build from a checkout and for one from a pseudo-version.
\<close>

section \<open>Build information\<close>

text \<open>\<open>debug.BuildInfo\<close>, as far as the code reads it: \<open>Main.Version\<close> and \<open>Settings\<close>.\<close>

record build_info =
  biMainVersion :: string
  biSettings :: "(string \<times> string) list"

record version_vars =
  vvVersion :: string
  vvCommit :: string

definition default_vars :: version_vars where
  "default_vars = \<lparr>vvVersion = ''dev'', vvCommit = ''unknown''\<rparr>"

fun vcs_revision_in :: "(string \<times> string) list \<Rightarrow> string option" where
  "vcs_revision_in [] = None"
| "vcs_revision_in ((k, v) # rest) =
     (if k = ''vcs.revision'' then Some (if length v > 7 then take 7 v else v)
      else vcs_revision_in rest)"

definition vcs_revision :: "build_info \<Rightarrow> string option" where
  "vcs_revision info = vcs_revision_in (biSettings info)"

definition commit_from_pseudo_version :: "string \<Rightarrow> string" where
  "commit_from_pseudo_version v =
     (if \<not> has_prefix v ''v0.0.0-'' then []
      else case last_index_char v (CHR ''-'') of
        None \<Rightarrow> []
      | Some idx \<Rightarrow>
          let hash = drop (idx + 1) v
          in if length hash \<ge> 7 then take 7 hash else [])"

section \<open>The package's initialisation and its string\<close>

definition version_init :: "build_info option \<Rightarrow> version_vars \<Rightarrow> version_vars" where
  "version_init bi vv =
     (if vvVersion vv \<noteq> ''dev'' then vv
      else case bi of
        None \<Rightarrow> vv
      | Some info \<Rightarrow>
          let vv1 = (case vcs_revision info of
                  Some commit \<Rightarrow> vv\<lparr>vvCommit := commit\<rparr>
                | None \<Rightarrow>
                    let commit = commit_from_pseudo_version (biMainVersion info)
                    in if commit \<noteq> [] then vv\<lparr>vvCommit := commit\<rparr> else vv)
          in if biMainVersion info \<noteq> [] \<and> biMainVersion info \<noteq> ''(devel)''
             then vv1\<lparr>vvVersion := biMainVersion info\<rparr> else vv1)"

definition version_string :: "version_vars \<Rightarrow> string" where
  "version_string vv =
     (if vvVersion vv \<noteq> ''dev'' \<and> \<not> has_prefix (vvVersion vv) ''v0.0.0-'' then
        (if vvCommit vv \<noteq> ''unknown''
         then ''pget '' @ vvVersion vv @ '' ('' @ vvCommit vv @ '')''
         else ''pget '' @ vvVersion vv)
      else if vvCommit vv \<noteq> ''unknown'' then ''pget '' @ vvCommit vv
      else ''pget dev (unknown)'')"

section \<open>Which commit is reported\<close>

lemma last_index_char_append:
  "c \<notin> set r \<Longrightarrow> last_index_char (s @ c # r) c = Some (length s)"
proof -
  have "last_index_char r c = None" if "c \<notin> set r" for r
    using that by (induction r) auto
  then show "c \<notin> set r \<Longrightarrow> ?thesis" by (induction s) auto
qed

lemma pseudo_version_commit:
  assumes "CHR ''-'' \<notin> set hash" and "7 \<le> length hash"
  shows "commit_from_pseudo_version (''v0.0.0-'' @ stamp @ ''-'' @ hash) = take 7 hash"
  using last_index_char_append [OF assms(1), of "''v0.0.0-'' @ stamp"] assms(2)
  by (simp add: commit_from_pseudo_version_def has_prefix_def)

text \<open>A build by \<open>go install\<close> of an untagged revision has no settings and a pseudo-version: the
  printed string is the name and the first seven digits of the revision. The \<open>vcs.revision\<close>
  of a checkout has precedence; a tagged version is printed with the commit behind it.\<close>

theorem version_reports_commit:
  assumes "CHR ''-'' \<notin> set hash" and "7 \<le> length hash" and "take 7 hash \<noteq> ''unknown''"
    and "list_all (\<lambda>(k, v). k \<noteq> ''vcs.revision'') settings"
  shows "version_string (version_init (Some \<lparr>biMainVersion = ''v0.0.0-'' @ stamp @ ''-'' @ hash,
           biSettings = settings\<rparr>) default_vars) = ''pget '' @ take 7 hash \<and>
    version_string (version_init (Some \<lparr>biMainVersion = mv,
           biSettings = settings @ (''vcs.revision'', hash) # others\<rparr>) default_vars) =
         (if mv = [] \<or> mv = ''(devel)'' \<or> mv = ''dev'' \<or> has_prefix mv ''v0.0.0-''
          then ''pget '' @ take 7 hash else ''pget '' @ mv @ '' ('' @ take 7 hash @ '')'')"
proof (intro conjI)
  have none: "vcs_revision_in settings = None"
    using assms(4) by (induction settings) auto
  have ne: "take 7 hash \<noteq> []" using assms(2) by auto
  show "version_string (version_init (Some \<lparr>biMainVersion = ''v0.0.0-'' @ stamp @ ''-'' @ hash,
           biSettings = settings\<rparr>) default_vars) = ''pget '' @ take 7 hash"
    using pseudo_version_commit [OF assms(1,2), of stamp] none ne assms(3)
    by (simp add: version_init_def default_vars_def vcs_revision_def version_string_def
        has_prefix_def Let_def)
  have "vcs_revision_in (settings @ (''vcs.revision'', hash) # others) = Some (take 7 hash)"
    using assms(2,4) by (induction settings) auto
  then show "version_string (version_init (Some \<lparr>biMainVersion = mv,
           biSettings = settings @ (''vcs.revision'', hash) # others\<rparr>) default_vars) =
         (if mv = [] \<or> mv = ''(devel)'' \<or> mv = ''dev'' \<or> has_prefix mv ''v0.0.0-''
          then ''pget '' @ take 7 hash else ''pget '' @ mv @ '' ('' @ take 7 hash @ '')'')"
    using assms(3)
    by (simp add: version_init_def default_vars_def vcs_revision_def version_string_def Let_def)
qed

theorem version_reports_commit_witness:
  "version_string (version_init (Some \<lparr>biMainVersion = ''v0.0.0-20240102030405-abcdef012345'',
     biSettings = []\<rparr>) default_vars) = ''pget abcdef0''"
  using version_reports_commit [of "''abcdef012345''" "[]" "''20240102030405''"] by simp

end
