(* ===== verification/Go_Float.thy ===== *)
theory Go_Float
  imports Complex_Main Go_Strings "HOL-Library.Log_Nat"
begin

text \<open>
  Go's \<open>float64\<close>, as far as the progress display and the statistics use it: a number is a
  rational, and every operation rounds its exact result to the nearest rational with a 53-bit
  mantissa, ties to even (\<open>fl\<close>). Infinities and NaN are values of their own; the two zeros are
  one; magnitudes stay between \<open>2^-1022\<close> and \<open>2^1024\<close>, where there is neither overflow nor a
  subnormal number. \<open>fl_le\<close> and \<open>fl_ge\<close> bound a rounded value by any number of the format, and
  \<open>fl_error\<close> its distance from the exact one.
\<close>

section \<open>Rounding\<close>

definition exp2 :: "int \<Rightarrow> rat" where
  "exp2 e = (if 0 \<le> e then 2 ^ nat e else 1 / 2 ^ nat (- e))"

text \<open>To the nearest integer, ties to even.\<close>

definition half_even :: "rat \<Rightarrow> int" where
  "half_even q =
     (let f = \<lfloor>q\<rfloor>; r = q - of_int f
      in if r < 1 / 2 then f else if r > 1 / 2 then f + 1 else if even f then f else f + 1)"

text \<open>The binary exponent of a positive rational.\<close>

definition exponent2 :: "rat \<Rightarrow> int" where
  "exponent2 q =
     (case quotient_of q of (a, b) \<Rightarrow>
        let l = bitlen a - bitlen b in if exp2 l \<le> q then l else l - 1)"

definition fl :: "rat \<Rightarrow> rat" where
  "fl q =
     (if q = 0 then 0
      else let u = exp2 (exponent2 \<bar>q\<bar> - 52) in sgn q * (of_int (half_even (\<bar>q\<bar> / u)) * u))"

lemma exp2_pos [simp]: "0 < exp2 e" "exp2 e \<noteq> 0"
  by (simp_all add: exp2_def)

lemma exp2_add: "exp2 (a + b) = exp2 a * exp2 b"
proof -
  have "exp2 e = 2 powi e" for e
    by (auto simp: exp2_def power_int_def field_simps)
  then show ?thesis by (simp add: power_int_add)
qed

lemma exp2_nat: "exp2 (int n) = 2 ^ n"
  by (simp add: exp2_def)

lemma exp2_Suc: "exp2 (e + 1) = 2 * exp2 e"
  using exp2_add [of e 1] by (simp add: exp2_def)

lemma exp2_mono: "a \<le> b \<Longrightarrow> exp2 a \<le> exp2 b"
proof -
  assume "a \<le> b"
  then obtain n where "b = a + int n" using zle_iff_zadd by blast
  then show ?thesis by (simp add: exp2_add exp2_nat)
qed

lemma exp2_less: "a < b \<Longrightarrow> exp2 a < exp2 b"
proof -
  assume "a < b"
  then have "exp2 (a + 1) \<le> exp2 b" by (intro exp2_mono) simp
  moreover have "exp2 a < exp2 (a + 1)" by (simp add: exp2_Suc)
  ultimately show ?thesis by linarith
qed

lemma exponent2_bounds:
  assumes "0 < q"
  shows "exp2 (exponent2 q) \<le> q" and "q < exp2 (exponent2 q + 1)"
proof -
  obtain a b where ab: "quotient_of q = (a, b)" by fastforce
  have b: "0 < b" using quotient_of_denom_pos [OF ab] .
  have q: "q = of_int a / of_int b" using quotient_of_div [OF ab] .
  have a: "0 < a" using assms q b by (simp add: zero_less_divide_iff)
  let ?l = "bitlen a - bitlen b"
  have bit: "exp2 (bitlen x - 1) \<le> of_int x \<and> of_int x < exp2 (bitlen x)" if "0 < x" for x
  proof -
    have "1 \<le> bitlen x" using that bitlen_eq_zero_iff [of x] bitlen_nonneg [of x] by linarith
    then show ?thesis
      using bitlen_bounds [OF that] by (simp add: exp2_def)
  qed
  have "exp2 (bitlen a - 1) * of_int b < of_int a * exp2 (bitlen b)"
    using bit [OF a] bit [OF b] b a by (intro mult_le_less_imp_less) auto
  moreover have "exp2 (bitlen a - 1) = exp2 (?l - 1) * exp2 (bitlen b)"
    by (simp flip: exp2_add)
  ultimately have low: "exp2 (?l - 1) < q"
    using b by (simp add: q field_simps)
  have "of_int a * exp2 (bitlen b - 1) < exp2 (bitlen a) * of_int b"
    using bit [OF a] bit [OF b] b a by (intro mult_less_le_imp_less) auto
  moreover have "exp2 (bitlen a) = exp2 (?l + 1) * exp2 (bitlen b - 1)"
    by (simp flip: exp2_add)
  ultimately have high: "q < exp2 (?l + 1)"
    using b by (simp add: q field_simps)
  show "exp2 (exponent2 q) \<le> q" "q < exp2 (exponent2 q + 1)"
    using low high by (auto simp: exponent2_def ab Let_def)
qed

lemma half_even_le: "q \<le> of_int k \<Longrightarrow> half_even q \<le> k"
proof -
  assume q: "q \<le> of_int k"
  show ?thesis
  proof (cases "\<lfloor>q\<rfloor> = k")
    case True
    then have "q - of_int \<lfloor>q\<rfloor> = 0" using q of_int_floor_le [of q] by simp
    then show ?thesis using True by (simp add: half_even_def Let_def)
  next
    case False
    have "of_int \<lfloor>q\<rfloor> \<le> (of_int k :: rat)" using q of_int_floor_le [of q] by linarith
    then have "\<lfloor>q\<rfloor> + 1 \<le> k" using False by simp
    then show ?thesis by (auto simp: half_even_def Let_def)
  qed
qed

lemma half_even_ge: "of_int k \<le> q \<Longrightarrow> k \<le> half_even q"
proof -
  assume "of_int k \<le> q"
  then have "k \<le> \<lfloor>q\<rfloor>" by (simp add: le_floor_iff)
  then show ?thesis by (auto simp: half_even_def Let_def)
qed

lemma half_even_error: "\<bar>of_int (half_even q) - q\<bar> \<le> 1 / 2"
proof -
  have "of_int \<lfloor>q\<rfloor> \<le> q" "q < of_int \<lfloor>q\<rfloor> + 1" using floor_correct [of q] by simp_all
  then show ?thesis by (auto simp: half_even_def Let_def abs_le_iff)
qed

text \<open>The numbers of the format.\<close>

definition representable :: "rat \<Rightarrow> bool" where
  "representable d \<longleftrightarrow> (\<exists>k e. d = of_int k * exp2 e \<and> \<bar>k\<bar> < 2 ^ 53)"

text \<open>A number of the format above the exponent of \<open>q\<close> is a multiple of the unit of \<open>q\<close>.\<close>

lemma representable_multiple:
  assumes "representable d" and "exp2 (e + 52) \<le> d"
  obtains n where "d = of_int n * exp2 e"
proof -
  obtain k j where d: "d = of_int k * exp2 j" "\<bar>k\<bar> < 2 ^ 53" using assms(1) by (auto simp: representable_def)
  have "of_int k < (2 :: rat) ^ 53" using d(2) by (metis abs_less_iff of_int_less_iff of_int_numeral of_int_power)
  then have "d < 2 ^ 53 * exp2 j" unfolding d(1) by (intro mult_strict_right_mono) simp_all
  moreover have "exp2 53 = 2 ^ 53" by (simp add: exp2_def)
  ultimately have "exp2 (e + 52) < exp2 (53 + j)" using assms(2) exp2_add [of 53 j] by simp
  then have "e + 52 < 53 + j" using exp2_mono [of "53 + j" "e + 52"] by linarith
  then have "e \<le> j" by simp
  then obtain m where "j = e + int m" using zle_iff_zadd by blast
  then have "d = of_int (k * 2 ^ m) * exp2 e" using d(1) by (simp add: exp2_add exp2_nat)
  then show ?thesis using that by blast
qed

lemma fl_pos: "0 < q \<Longrightarrow> fl q = of_int (half_even (q / exp2 (exponent2 q - 52))) * exp2 (exponent2 q - 52)"
  by (simp add: fl_def Let_def)

lemma fl_le:
  assumes q: "0 < q" and d: "representable d" and le: "q \<le> d"
  shows "fl q \<le> d"
proof -
  let ?e = "exponent2 q - 52"
  note b = exponent2_bounds [OF q]
  have "exp2 (?e + 52) \<le> d" using b(1) le by simp
  from representable_multiple [OF d this] obtain n where n: "d = of_int n * exp2 ?e" .
  have "q / exp2 ?e \<le> of_int n" using le n by (simp add: divide_le_eq)
  then have "half_even (q / exp2 ?e) \<le> n" by (rule half_even_le)
  then show ?thesis using fl_pos [OF q] n by simp
qed

lemma fl_ge:
  assumes q: "0 < q" and d: "representable d" and le: "d \<le> q"
  shows "d \<le> fl q"
proof -
  let ?e = "exponent2 q - 52"
  note b = exponent2_bounds [OF q]
  have low: "exp2 (?e + 52) \<le> q" using b(1) by simp
  have n: "d = of_int n * exp2 ?e \<Longrightarrow> d \<le> fl q" for n
  proof -
    assume n: "d = of_int n * exp2 ?e"
    have "of_int n \<le> q / exp2 ?e" using le n by (simp add: le_divide_eq)
    then have "n \<le> half_even (q / exp2 ?e)" by (rule half_even_ge)
    then show "d \<le> fl q" using fl_pos [OF q] n by simp
  qed
  show ?thesis
  proof (cases "exp2 (?e + 52) \<le> d")
    case True
    then show ?thesis using representable_multiple [OF d True] n by blast
  next
    case False
    have "exp2 52 = 2 ^ 52" by (simp add: exp2_def)
    then have u: "exp2 (?e + 52) = of_int (2 ^ 52) * exp2 ?e" using exp2_add [of ?e 52] by simp
    have "of_int (2 ^ 52) \<le> q / exp2 ?e" using low u by (simp only: le_divide_eq exp2_pos if_True)
    then have "2 ^ 52 \<le> half_even (q / exp2 ?e)" by (rule half_even_ge)
    then have "of_int (2 ^ 52) * exp2 ?e \<le> of_int (half_even (q / exp2 ?e)) * exp2 ?e"
      by (intro mult_right_mono) (simp_all only: of_int_le_iff exp2_pos less_imp_le)
    then have "exp2 (?e + 52) \<le> fl q" using fl_pos [OF q] u by (simp only:)
    then show ?thesis using False by linarith
  qed
qed

lemma fl_0 [simp]: "fl 0 = 0"
  by (simp add: fl_def)

lemma fl_exact: "0 \<le> d \<Longrightarrow> representable d \<Longrightarrow> fl d = d"
  by (cases "d = 0") (auto intro!: antisym fl_le fl_ge)

lemma fl_nonneg: "0 \<le> q \<Longrightarrow> 0 \<le> fl q"
proof (cases "q = 0")
  case False
  assume "0 \<le> q"
  have "representable 0" unfolding representable_def by (intro exI [of _ 0]) simp
  then show ?thesis using fl_ge [of q 0] False \<open>0 \<le> q\<close> by simp
qed simp

lemma fl_error:
  assumes "exp2 e \<le> q" and "q < exp2 (e + 1)"
  shows "\<bar>fl q - q\<bar> \<le> exp2 (e - 53)"
proof -
  have q: "0 < q" using assms(1) exp2_pos [of e] by linarith
  note b = exponent2_bounds [OF q]
  have "e = exponent2 q"
  proof (rule antisym)
    show "e \<le> exponent2 q" using assms(1) b(2) exp2_mono [of "exponent2 q + 1" e] by linarith
    show "exponent2 q \<le> e" using assms(2) b(1) exp2_mono [of "e + 1" "exponent2 q"] by linarith
  qed
  let ?u = "exp2 (e - 52)"
  have "\<bar>of_int (half_even (q / ?u)) - q / ?u\<bar> * ?u \<le> 1 / 2 * ?u"
    by (intro mult_right_mono half_even_error) (simp add: less_imp_le)
  moreover have "fl q - q = (of_int (half_even (q / ?u)) - q / ?u) * ?u"
    using fl_pos [OF q] \<open>e = exponent2 q\<close> by (simp add: left_diff_distrib)
  then have "\<bar>fl q - q\<bar> = \<bar>of_int (half_even (q / ?u)) - q / ?u\<bar> * ?u"
    by (simp only: abs_mult abs_of_pos exp2_pos)
  moreover have "1 / 2 * ?u = exp2 (e - 53)" using exp2_Suc [of "e - 53"] by simp
  ultimately show ?thesis by simp
qed

lemma representable_int: "\<bar>k\<bar> < 2 ^ 53 \<Longrightarrow> representable (of_int k)"
  unfolding representable_def by (intro exI [of _ k] exI [of _ 0]) (simp add: exp2_def)

lemma representable_div: "\<bar>k\<bar> < 2 ^ 53 \<Longrightarrow> representable (of_int k / 2 ^ n)"
  unfolding representable_def
  by (intro exI [of _ k] exI [of _ "- int n"]) (auto simp: exp2_def)

section \<open>Values and operations\<close>

datatype gofloat = Num rat | PosInf | NegInf | NotNum

definition f_of_int :: "int \<Rightarrow> gofloat" where
  "f_of_int n = Num (fl (of_int n))"

fun f_div :: "gofloat \<Rightarrow> gofloat \<Rightarrow> gofloat" where
  "f_div (Num a) (Num b) =
     (if b \<noteq> 0 then Num (fl (a / b)) else if a = 0 then NotNum else if a > 0 then PosInf else NegInf)"
| "f_div (Num a) PosInf = Num 0"
| "f_div (Num a) NegInf = Num 0"
| "f_div PosInf (Num b) = (if b \<ge> 0 then PosInf else NegInf)"
| "f_div NegInf (Num b) = (if b \<ge> 0 then NegInf else PosInf)"
| "f_div _ _ = NotNum"

text \<open>Products are formed with finite positive factors only.\<close>

fun f_scale :: "gofloat \<Rightarrow> rat \<Rightarrow> gofloat" where
  "f_scale (Num a) b = Num (fl (a * b))"
| "f_scale x b = x"

fun f_ge :: "gofloat \<Rightarrow> rat \<Rightarrow> bool" where
  "f_ge (Num a) b = (a \<ge> b)"
| "f_ge PosInf b = True"
| "f_ge _ b = False"

fun f_positive :: "gofloat \<Rightarrow> bool" where
  "f_positive (Num a) = (a > 0)"
| "f_positive PosInf = True"
| "f_positive _ = False"

text \<open>The conversion to \<open>int64\<close> truncates; what it does out of range depends on the
  architecture, here the most negative number of amd64.\<close>

definition rat_trunc :: "rat \<Rightarrow> int" where
  "rat_trunc q = (if q \<ge> 0 then \<lfloor>q\<rfloor> else - \<lfloor>- q\<rfloor>)"

fun f_int :: "gofloat \<Rightarrow> int" where
  "f_int (Num q) = (if in_i64 (rat_trunc q) then rat_trunc q else - (2 ^ 63))"
| "f_int _ = - (2 ^ 63)"

text \<open>\<open>d.Seconds()\<close>, \<open>d.Minutes()\<close> and \<open>d.Hours()\<close>: quotient and remainder are converted and
  added.\<close>

definition dur_float :: "duration \<Rightarrow> duration \<Rightarrow> gofloat" where
  "dur_float unit' d =
     Num (fl (fl (of_int (d sdiv unit')) + fl (fl (of_int (d smod unit')) / of_int unit')))"

definition dur_seconds :: "duration \<Rightarrow> gofloat" where
  "dur_seconds = dur_float (seconds 1)"

definition dur_minutes :: "duration \<Rightarrow> gofloat" where
  "dur_minutes = dur_float (seconds 60)"

definition dur_hours :: "duration \<Rightarrow> gofloat" where
  "dur_hours = dur_float (seconds 3600)"

lemma fl_int: "0 \<le> n \<Longrightarrow> n < 2 ^ 53 \<Longrightarrow> fl (of_int n) = of_int n"
  by (intro fl_exact representable_int) simp_all

lemma rat_trunc_between: "of_int n \<le> q \<Longrightarrow> q < of_int n + 1 \<Longrightarrow> 0 \<le> n \<Longrightarrow> rat_trunc q = n"
proof -
  assume a: "of_int n \<le> q" "q < of_int n + 1" "0 \<le> n"
  have "(0::rat) \<le> of_int n" using a(3) by simp
  then have "0 \<le> q" using a(1) by linarith
  then show ?thesis using a by (simp add: rat_trunc_def floor_unique)
qed

text \<open>For a non-negative duration the integer part of the converted value is exact: the error
  of the fraction does not reach the next integer.\<close>

lemma f_int_dur:
  assumes d: "0 \<le> d" "d < 2 ^ 63" and u: "unit' \<in> {seconds 1, seconds 60, seconds 3600}"
    and whole: "d mod seconds 1 = 0"
  shows "f_int (dur_float unit' d) = d div unit'"
proof -
  have pos: "0 < unit'" "unit' < 2 ^ 42" "seconds 1 \<le> unit'"
    and dv: "seconds 1 dvd unit'" using u by (auto simp: seconds_def)
  let ?q = "d div unit'" and ?r = "d mod unit'"
  have q: "0 \<le> ?q" using d pos by (simp add: pos_imp_zdiv_nonneg_iff)
  have "?q \<le> d div seconds 1" using d pos by (intro zdiv_mono2) (auto simp: seconds_def)
  also have "\<dots> \<le> 2 ^ 63 div seconds 1" using d by (intro zdiv_mono1) (simp_all add: seconds_def)
  finally have q0: "?q \<le> 2 ^ 63 div seconds 1" .
  then have q': "?q < 2 ^ 34" by (simp add: seconds_def)
  have r: "0 \<le> ?r" "?r < unit'" using pos by simp_all
  have "seconds 1 dvd d" using whole by (simp add: dvd_eq_mod_eq_0)
  then have "seconds 1 dvd ?r" using dv by (simp add: dvd_mod)
  then have r': "?r \<le> unit' - seconds 1" using r dv by (auto simp: dvd_def seconds_def)
  have sd: "d sdiv unit' = ?q" using d pos by (simp add: sdiv_nonneg)
  have sm: "d smod unit' = ?r"
    using d pos by (simp add: signed_modulo_int_def sgn_if)
  let ?f = "of_int ?r / of_int unit' :: rat"
  have frac: "0 \<le> ?f" "?f \<le> 4095 / 4096"
    using r r' pos u by (auto simp: divide_le_eq seconds_def) 
  have f: "0 \<le> fl ?f" "fl ?f \<le> 4095 / 4096"
  proof -
    show "0 \<le> fl ?f" by (rule fl_nonneg [OF frac(1)])
    have rep: "representable (4095 / 4096)" using representable_div [of 4095 12] by simp
    show "fl ?f \<le> 4095 / 4096"
    proof (cases "?f = 0")
      case False
      then have "0 < ?f" using frac(1) by linarith
      from fl_le [OF this rep frac(2)] show ?thesis .
    next
      case True
      show ?thesis unfolding True by simp
    qed
  qed
  let ?s = "of_int ?q + fl ?f"
  have "?r < 2 ^ 53" by (rule less_trans [OF r(2) less_trans [OF pos(2)]]) simp
  with r(1) have "fl (of_int ?r) = of_int ?r" by (rule fl_int)
  moreover have "fl (of_int ?q) = of_int ?q" using q q' by (intro fl_int) simp_all
  ultimately have df: "dur_float unit' d = Num (fl ?s)" by (simp add: dur_float_def sd sm)
  have "representable (of_int (4096 * ?q + 4095) / 2 ^ 12)"
    using q q' by (intro representable_div) simp
  moreover have "of_int (4096 * ?q + 4095) / 2 ^ 12 = (of_int ?q + 4095 / 4096 :: rat)"
    by (simp add: field_simps)
  ultimately have up: "representable (of_int ?q + 4095 / 4096)" by (simp only:)
  have lo: "representable (of_int ?q)" using q q' by (intro representable_int) simp
  have "of_int ?q \<le> fl ?s \<and> fl ?s \<le> of_int ?q + 4095 / 4096"
  proof (cases "?s = 0")
    case True
    have "(0 :: rat) \<le> of_int ?q" using q by simp
    then have "?s = 0 \<and> of_int ?q = (0 :: rat)" using True f by linarith
    then show ?thesis unfolding True by simp
  next
    case False
    have "(0 :: rat) \<le> of_int ?q" using q by simp
    then have "0 < ?s" using False f by linarith
    then show ?thesis using fl_ge [OF _ lo] fl_le [OF _ up] f by (simp only: add_left_mono le_add_same_cancel1)
  qed
  then have "rat_trunc (fl ?s) = ?q" using q by (intro rat_trunc_between) linarith+
  moreover have "in_i64 ?q" using q q' by (simp add: in_i64_def)
  ultimately show ?thesis by (simp add: df)
qed

section \<open>Text\<close>

text \<open>The verbs \<open>%.0f\<close> and \<open>%.1f\<close>, correctly rounded.\<close>

fun fmt_f0 :: "gofloat \<Rightarrow> string" where
  "fmt_f0 (Num q) = (if q < 0 then ''-'' else []) @ fmt_nat (nat (half_even \<bar>q\<bar>))"
| "fmt_f0 PosInf = ''+Inf''"
| "fmt_f0 NegInf = ''-Inf''"
| "fmt_f0 NotNum = ''NaN''"

fun fmt_f1 :: "gofloat \<Rightarrow> string" where
  "fmt_f1 (Num q) =
     (let n = nat (half_even (10 * \<bar>q\<bar>))
      in (if q < 0 then ''-'' else []) @ fmt_nat (n div 10) @ ''.'' @ fmt_nat (n mod 10))"
| "fmt_f1 PosInf = ''+Inf''"
| "fmt_f1 NegInf = ''-Inf''"
| "fmt_f1 NotNum = ''NaN''"

end
