(* ===== verification/Progress.thy ===== *)
theory Progress
  imports Go_Float
begin

text \<open>
  The progress display, \<open>internal/progress/progress.go\<close>: the reporter and the progress bar as
  records, their output as strings. Readings of the clock, the terminal's width and the live
  number of connections are arguments; rates and percentages are computed in \<open>float64\<close>
  (\<open>Go_Float\<close>).
\<close>

section \<open>Sizes, durations and rates\<close>

definition format_size :: "int \<Rightarrow> string" where
  "format_size n =
     (if n \<ge> 2 ^ 30 then fmt_f1 (f_div (f_of_int n) (Num (2 ^ 30))) @ ''G''
      else if n \<ge> 2 ^ 20 then fmt_f1 (f_div (f_of_int n) (Num (2 ^ 20))) @ ''M''
      else if n \<ge> 2 ^ 10 then fmt_f1 (f_div (f_of_int n) (Num (2 ^ 10))) @ ''K''
      else fmt_int n @ ''B'')"

text \<open>\<open>d.Round(m)\<close>: to the nearest multiple, halves away from zero, saturating.\<close>

definition dur_round :: "duration \<Rightarrow> duration \<Rightarrow> duration" where
  "dur_round m d =
     (if m \<le> 0 then d
      else let r = d smod m
      in if d < 0 then
           (if - r + - r < m then i64 (d - r)
            else let d1 = i64 (i64 (d - m) - r) in if d1 < d then d1 else - (2 ^ 63))
         else if r + r < m then i64 (d - r)
         else let d1 = i64 (i64 (d + m) - r) in if d1 > d then d1 else 2 ^ 63 - 1)"

definition format_rounded :: "duration \<Rightarrow> string" where
  "format_rounded d =
     (if d < seconds 60 then fmt_int (f_int (dur_seconds d)) @ ''s''
      else if d < seconds 3600
      then fmt_int (f_int (dur_minutes d)) @ ''m'' @ fmt_int (f_int (dur_seconds d) smod 60) @ ''s''
      else fmt_int (f_int (dur_hours d)) @ ''h'' @ fmt_int (f_int (dur_minutes d) smod 60) @ ''m'')"

definition format_duration :: "duration \<Rightarrow> string" where
  "format_duration d = format_rounded (dur_round (seconds 1) d)"

definition format_speed :: "gofloat \<Rightarrow> string" where
  "format_speed v =
     (if f_ge v (2 ^ 30) then fmt_f1 (f_div v (Num (2 ^ 30))) @ ''GB/s''
      else if f_ge v (2 ^ 20) then fmt_f1 (f_div v (Num (2 ^ 20))) @ ''MB/s''
      else if f_ge v (2 ^ 10) then fmt_f1 (f_div v (Num (2 ^ 10))) @ ''KB/s''
      else fmt_f0 v @ ''B/s'')"

section \<open>Labels and the terminal\<close>

text \<open>\<open>columns\<close> is the environment variable as \<open>Sscanf\<close> reads it, \<open>ioctl\<close> the answer of the
  terminal.\<close>

definition term_width :: "int option \<Rightarrow> int option \<Rightarrow> int" where
  "term_width columns ioctl =
     (let t = (case ioctl of Some c \<Rightarrow> if c > 0 then c else 80 | None \<Rightarrow> 80)
      in case columns of Some w \<Rightarrow> if w > 0 then w else t | None \<Rightarrow> t)"

definition ellipsis :: string where
  "ellipsis = [CHR 0xE2, CHR 0x80, CHR 0xA6]"

definition short_label :: "string \<Rightarrow> int \<Rightarrow> string" where
  "short_label label maxLen =
     (if maxLen \<le> 0 then []
      else if int (length label) \<le> maxLen then label
      else if maxLen \<le> 1 then ellipsis
      else take (nat (maxLen - 1)) label @ ellipsis)"

definition spaces :: "int \<Rightarrow> string" where
  "spaces n = replicate (nat n) (CHR '' '')"

section \<open>The reporter\<close>

record reporter =
  rpQuiet :: bool
  rpNoVerbose :: bool
  rpProgressType :: string
  rpTTY :: bool

definition new_reporter :: "bool \<Rightarrow> bool \<Rightarrow> bool \<Rightarrow> string \<Rightarrow> reporter" where
  "new_reporter tty quiet noVerbose progressType =
     \<lparr>rpQuiet = quiet, rpNoVerbose = noVerbose, rpProgressType = progressType, rpTTY = tty\<rparr>"

definition report_info :: "reporter \<Rightarrow> string \<Rightarrow> string" where
  "report_info r msg = (if rpQuiet r \<or> rpNoVerbose r then [] else msg @ [CHR 0x0A])"

definition report_verbose :: "reporter \<Rightarrow> string \<Rightarrow> string" where
  "report_verbose r msg = (if rpQuiet r then [] else msg @ [CHR 0x0A])"

definition report_error :: "reporter \<Rightarrow> string \<Rightarrow> string" where
  "report_error r msg = msg @ [CHR 0x0A]"

section \<open>The progress bar\<close>

text \<open>\<open>pbConnFn\<close> is whether a function for the live number of connections is set.\<close>

record progress_bar =
  pbReporter :: reporter
  pbTotal :: int
  pbCurrent :: int
  pbStartTime :: gtime
  pbLastPrint :: gtime
  pbLastNonTTYPrint :: gtime
  pbLabel :: string
  pbConnections :: int
  pbConnFn :: bool

definition new_progress_bar :: "gtime \<Rightarrow> reporter \<Rightarrow> int \<Rightarrow> string \<Rightarrow> int \<Rightarrow> progress_bar" where
  "new_progress_bar now r total' label connections =
     \<lparr>pbReporter = r, pbTotal = total', pbCurrent = 0, pbStartTime = now, pbLastPrint = zero_time,
      pbLastNonTTYPrint = zero_time, pbLabel = label, pbConnections = connections,
      pbConnFn = False\<rparr>"

definition set_conn_fn :: "progress_bar \<Rightarrow> progress_bar" where
  "set_conn_fn p = p\<lparr>pbConnFn := True\<rparr>"

definition conn_count :: "int \<Rightarrow> progress_bar \<Rightarrow> int" where
  "conn_count live p = (if pbConnFn p then live else pbConnections p)"

definition bar_speed :: "gtime \<Rightarrow> progress_bar \<Rightarrow> gofloat" where
  "bar_speed now p = f_div (f_of_int (pbCurrent p)) (dur_seconds (time_sub now (pbStartTime p)))"

definition bar_ratio :: "int \<Rightarrow> int \<Rightarrow> gofloat" where
  "bar_ratio current total' = (if total' = 0 then Num 0 else f_div (f_of_int current) (f_of_int total'))"

definition percent :: "gofloat \<Rightarrow> int" where
  "percent ratio = f_int (f_scale ratio 100)"

definition bar_eta :: "gofloat \<Rightarrow> progress_bar \<Rightarrow> string" where
  "bar_eta speed p =
     (if f_positive speed
      then format_duration (i64 (f_int (f_div (f_of_int (i64 (pbTotal p - pbCurrent p))) speed) * seconds 1))
      else ''---'')"

definition size_text :: "progress_bar \<Rightarrow> string" where
  "size_text p = format_size (pbCurrent p) @ ''/'' @ format_size (pbTotal p)"

text \<open>The parts of the animated line: connections, statistics, and the bar in the space that
  they leave.\<close>

definition conn_part :: "int \<Rightarrow> progress_bar \<Rightarrow> string" where
  "conn_part live p = '' CN:'' @ fmt_int (conn_count live p)"

definition stats_part :: "gtime \<Rightarrow> progress_bar \<Rightarrow> string" where
  "stats_part now p =
     '' '' @ fmt_int (percent (bar_ratio (pbCurrent p) (pbTotal p))) @ ''%'' @ '' '' @ size_text p @ '' '' @
     format_speed (bar_speed now p) @ '' ETA '' @ bar_eta (bar_speed now p) p @ ''  ''"

definition bar_available :: "gtime \<Rightarrow> int \<Rightarrow> int \<Rightarrow> progress_bar \<Rightarrow> int" where
  "bar_available now live tw p =
     tw - (1 + int (length (conn_part live p)) + 3 + int (length (stats_part now p)))"

definition bar_width :: "int \<Rightarrow> int" where
  "bar_width available = (let w = (if available < 4 then 4 else available) in if w > 30 then 30 else w)"

definition bar_filled :: "gofloat \<Rightarrow> int \<Rightarrow> int" where
  "bar_filled ratio width = f_int (f_scale ratio (of_int width))"

definition bar_text :: "int \<Rightarrow> int \<Rightarrow> string" where
  "bar_text width filled =
     map (\<lambda>i. if int i < filled then CHR ''='' else if int i = filled then CHR ''>'' else CHR '' '')
       [0..<nat width]"

definition tty_line :: "gtime \<Rightarrow> int \<Rightarrow> int \<Rightarrow> progress_bar \<Rightarrow> string" where
  "tty_line now live tw p =
     (let available = bar_available now live tw p;
          width = bar_width available;
          label = short_label (pbLabel p) (available - width);
          filled = bar_filled (bar_ratio (pbCurrent p) (pbTotal p)) width;
          line = [CHR 0x0D] @ label @ conn_part live p @ '' ['' @ bar_text width filled @ '']'' @ stats_part now p
      in if int (length line) < tw then line @ spaces (tw - int (length line)) else line)"

text \<open>\<open>render\<close>: at most one line in three seconds, and none at the end, when the output is no
  terminal.\<close>

definition render :: "gtime \<Rightarrow> int \<Rightarrow> int \<Rightarrow> progress_bar \<Rightarrow> string \<times> progress_bar" where
  "render now live tw p =
     (if rpQuiet (pbReporter p) then ([], p)
      else if \<not> rpTTY (pbReporter p) then
        (if pbCurrent p \<ge> pbTotal p \<or> time_sub now (pbLastNonTTYPrint p) < seconds 3 then ([], p)
         else
           (pbLabel p @ '': '' @
              fmt_int (percent (f_div (f_of_int (pbCurrent p)) (f_of_int (pbTotal p)))) @ ''% '' @
              size_text p @ '' CN:'' @ fmt_int (conn_count live p) @ '' '' @
              format_speed (bar_speed now p) @ '' ETA '' @ bar_eta (bar_speed now p) p @ [CHR 0x0A],
            p\<lparr>pbLastNonTTYPrint := now\<rparr>))
      else (tty_line now live tw p, p))"

text \<open>\<open>Update\<close> reads the clock before \<open>render\<close> does.\<close>

definition update_bar :: "gtime \<Rightarrow> gtime \<Rightarrow> int \<Rightarrow> int \<Rightarrow> int \<Rightarrow> progress_bar \<Rightarrow> string \<times> progress_bar" where
  "update_bar now now' live tw current p =
     (let p1 = p\<lparr>pbCurrent := current\<rparr>
      in if time_sub now (pbLastPrint p1) < ms 200 \<and> current < pbTotal p1 then ([], p1)
         else render now' live tw (p1\<lparr>pbLastPrint := now\<rparr>))"

definition completion_status :: "progress_bar \<Rightarrow> string" where
  "completion_status p = (if pbCurrent p \<ge> pbTotal p then ''complete'' else ''interrupted'')"

definition summary_line :: "gtime \<Rightarrow> progress_bar \<Rightarrow> string" where
  "summary_line now p =
     completion_status p @ '' '' @ size_text p @ '' in '' @
     format_duration (time_sub now (pbStartTime p)) @ '' ('' @ format_speed (bar_speed now p) @ '')'' @
     [CHR 0x0A]"

definition done_bar :: "gtime \<Rightarrow> gtime \<Rightarrow> int \<Rightarrow> int \<Rightarrow> progress_bar \<Rightarrow> string" where
  "done_bar now now' live tw p =
     (if rpQuiet (pbReporter p) then []
      else if rpTTY (pbReporter p)
      then fst (render now' live tw p) @ [CHR 0x0A] @ summary_line now p
      else pbLabel p @ '': '' @ summary_line now p)"

end
