(* ===== verification/Progress_Props.thy ===== *)
theory Progress_Props
  imports Progress
begin

text \<open>
  What the progress display promises: an animated line has one column less than the terminal,
  whatever it shows; percentage and bar are full exactly at the end; durations are those of
  integer arithmetic, in spite of the floating-point numbers in between; and which status the
  summary reports.
\<close>

section \<open>Columns\<close>

text \<open>The columns a text takes: one for each character, none for a carriage return. A byte
  from \<open>0x80\<close> to \<open>0xBF\<close> continues a character.\<close>

definition starts_column :: "char \<Rightarrow> bool" where
  "starts_column c \<longleftrightarrow> c \<noteq> CHR 0x0D \<and> \<not> (0x80 \<le> (of_char c :: nat) \<and> (of_char c :: nat) < 0xC0)"

definition columns :: "string \<Rightarrow> int" where
  "columns s = int (count_if starts_column s)"

text \<open>Printable ASCII.\<close>

definition plain :: "string \<Rightarrow> bool" where
  "plain s \<longleftrightarrow> list_all (\<lambda>c. 32 \<le> (of_char c :: nat) \<and> (of_char c :: nat) < 127) s"

lemma columns_append [simp]: "columns (s @ t) = columns s + columns t"
  by (simp add: columns_def)

lemma plain_append [simp]: "plain (s @ t) \<longleftrightarrow> plain s \<and> plain t"
  by (simp add: plain_def)

lemma plain_columns: "plain s \<Longrightarrow> columns s = int (length s)"
proof (induction s)
  case (Cons c s)
  then have "32 \<le> (of_char c :: nat)" "(of_char c :: nat) < 127" by (simp_all add: plain_def)
  moreover from this have "c \<noteq> CHR 0x0D" by auto
  ultimately show ?case using Cons by (simp add: plain_def columns_def starts_column_def)
qed (simp add: columns_def)

lemma columns_cr: "columns [CHR 0x0D] = 0"
  by (simp add: columns_def starts_column_def)

lemma columns_ellipsis: "columns ellipsis = 1"
  by (simp add: columns_def ellipsis_def starts_column_def)

lemma plain_Nil [simp]: "plain []"
  by (simp add: plain_def)

lemma plain_Cons [simp]: "plain (c # s) \<longleftrightarrow> 32 \<le> (of_char c :: nat) \<and> (of_char c :: nat) < 127 \<and> plain s"
  by (simp add: plain_def)

lemma plain_digits: "list_all is_digit s \<Longrightarrow> plain s"
  unfolding plain_def is_digit_def by (induction s) (auto simp: less_eq_char_def)

lemma plain_fmt_nat [simp]: "plain (fmt_nat n)"
  using fmt_nat_digits [of n] by (simp add: plain_digits)

lemma plain_fmt_int [simp]: "plain (fmt_int n)"
  by (simp add: fmt_int_def)

lemma plain_fmt_f1 [simp]: "plain (fmt_f1 v)"
  by (cases v) (simp_all add: Let_def)

lemma plain_fmt_f0 [simp]: "plain (fmt_f0 v)"
  by (cases v) simp_all

lemma plain_format_size [simp]: "plain (format_size n)"
  by (simp add: format_size_def)

lemma plain_format_duration [simp]: "plain (format_duration d)"
  by (simp add: format_duration_def format_rounded_def)

lemma plain_format_speed [simp]: "plain (format_speed v)"
  by (simp add: format_speed_def)

lemma plain_conn_part: "plain (conn_part live p)"
  by (simp add: conn_part_def)

lemma plain_stats_part: "plain (stats_part now p)"
  by (simp add: stats_part_def size_text_def bar_eta_def)

lemma plain_bar_text: "plain (bar_text width filled)"
  by (auto simp: bar_text_def plain_def list_all_iff)

lemma plain_spaces: "plain (spaces n)"
  by (simp add: spaces_def plain_def list_all_iff)

lemma plain_take: "plain s \<Longrightarrow> plain (take n s)"
  unfolding plain_def list_all_iff by (auto dest: in_set_takeD)

text \<open>A label cut to \<open>m\<close> columns has two bytes more than columns; a label that fits is kept.\<close>

lemma short_label_cases:
  assumes "0 \<le> m" and "plain label"
  shows "columns (short_label label m) = int (length (short_label label m)) \<and>
           int (length (short_label label m)) \<le> m \<or>
         columns (short_label label m) = m \<and> int (length (short_label label m)) = m + 2"
proof -
  consider (zero) "m \<le> 0" | (fits) "0 < m" "int (length label) \<le> m"
    | (one) "m = 1" "m < int (length label)" | (cut) "1 < m" "m < int (length label)"
    using assms(1) by linarith
  then show ?thesis
  proof cases
    case zero
    then show ?thesis using assms by (simp add: short_label_def columns_def)
  next
    case fits
    then show ?thesis using assms by (simp add: short_label_def plain_columns)
  next
    case one
    then show ?thesis by (simp add: short_label_def columns_ellipsis) (simp add: ellipsis_def)
  next
    case cut
    then have "short_label label m = take (nat (m - 1)) label @ ellipsis" by (simp add: short_label_def)
    moreover have "columns (take (nat (m - 1)) label) = m - 1"
      using cut by (simp add: plain_columns plain_take [OF assms(2)])
    ultimately show ?thesis using cut by (simp add: columns_ellipsis) (simp add: ellipsis_def)
  qed
qed

lemma columns_tty_line:
  assumes "plain (pbLabel p)"
  shows "columns (tty_line now live tw p) = max (tw - 1) (tw + 3 - bar_available now live tw p)"
proof -
  define av where "av = bar_available now live tw p"
  define w where "w = bar_width av"
  define l where "l = short_label (pbLabel p) (av - w)"
  define f where "f = bar_filled (bar_ratio (pbCurrent p) (pbTotal p)) w"
  define body where "body = l @ conn_part live p @ '' ['' @ bar_text w f @ '']'' @ stats_part now p"
  have w: "4 \<le> w" "av < 4 \<Longrightarrow> w = 4" "4 \<le> av \<Longrightarrow> w \<le> av"
    by (auto simp: w_def bar_width_def Let_def)
  have len: "int (length ([CHR 0x0D] @ body)) = tw - av + int (length l) + w"
    using w by (simp add: body_def av_def bar_available_def bar_text_def)
  have col: "columns body = int (length body) - int (length l) + columns l"
    by (simp add: body_def plain_columns plain_conn_part plain_stats_part plain_bar_text)
  have line: "tty_line now live tw p =
      (if int (length ([CHR 0x0D] @ body)) < tw
       then ([CHR 0x0D] @ body) @ spaces (tw - int (length ([CHR 0x0D] @ body))) else [CHR 0x0D] @ body)"
    by (simp only: tty_line_def Let_def av_def w_def l_def f_def body_def append_assoc)
  have sp: "columns (spaces n) = int (nat n)" for n
    by (simp add: plain_columns plain_spaces) (simp add: spaces_def)
  show ?thesis
  proof (cases "4 \<le> av")
    case True
    then have "0 \<le> av - w" using w by simp
    from short_label_cases [OF this assms] show ?thesis
      unfolding line l_def [symmetric] av_def [symmetric] using len col True
      by (auto simp: columns_cr sp simp del: append_Cons append.simps)
  next
    case False
    then have "l = []" using w by (simp add: l_def short_label_def)
    moreover have "columns [] = 0" by (simp add: columns_def)
    ultimately show ?thesis
      unfolding line av_def [symmetric] using len col False w
      by (auto simp: columns_cr simp del: append_Cons append.simps)
  qed
qed

section \<open>Percentage and bar\<close>

lemma fl_scaled_less:
  assumes r: "0 \<le> r" "r \<le> 1 - 1 / 2 ^ 53" and w: "0 < (w :: rat)"
  shows "0 \<le> fl (r * w)" and "fl (r * w) < w"
proof -
  show "0 \<le> fl (r * w)" using r w by (intro fl_nonneg) simp
  show "fl (r * w) < w"
  proof (cases "r = 0")
    case False
    then have y: "0 < r * w" using r w by simp
    define k where "k = exponent2 (r * w)"
    note b = exponent2_bounds [OF y, folded k_def]
    have "r * w \<le> (1 - 1 / 2 ^ 53) * w" using r w by (intro mult_right_mono) simp_all
    then have up: "r * w \<le> w - w / 2 ^ 53" by (simp add: left_diff_distrib)
    have "0 < w / 2 ^ 53" using w by simp
    then have "exp2 k < w" using b(1) up by linarith
    moreover have "exp2 k = exp2 (k - 53) * 2 ^ 53" using exp2_add [of "k - 53" 53] by (simp add: exp2_def)
    ultimately have "exp2 (k - 53) < w / 2 ^ 53" by (simp add: less_divide_eq)
    then show ?thesis using fl_error [OF b] up by (simp only: abs_le_iff) linarith
  qed (use w in simp)
qed

text \<open>The share of a bar of \<open>w\<close> cells that is filled; the percentage is that of a bar of 100.\<close>

lemma filled_exact:
  assumes c: "0 \<le> c" "c \<le> t" and t: "0 < t" "t < 2 ^ 53" and w: "0 < w" "w < 2 ^ 53"
  shows "0 \<le> bar_filled (bar_ratio c t) w" and "bar_filled (bar_ratio c t) w \<le> w"
    and "bar_filled (bar_ratio c t) w = w \<longleftrightarrow> c = t"
proof -
  define r where "r = fl (of_int c / of_int t)"
  have ratio: "bar_ratio c t = Num r"
    using c t by (simp add: bar_ratio_def f_of_int_def fl_int r_def)
  have filled: "bar_filled (bar_ratio c t) w = f_int (Num (fl (r * of_int w)))"
    by (simp add: bar_filled_def ratio)
  have full: "bar_filled (bar_ratio c t) w = w" if "c = t"
  proof -
    have "r = 1" using that t fl_int [of 1] by (simp add: r_def)
    then show ?thesis using w fl_int [of w] by (simp add: filled rat_trunc_def in_i64_def)
  qed
  have part: "0 \<le> bar_filled (bar_ratio c t) w \<and> bar_filled (bar_ratio c t) w < w" if "c \<noteq> t"
  proof -
    have "c \<le> t - 1" using that c by simp
    then have "(of_int c :: rat) \<le> of_int (t - 1)" by (simp only: of_int_le_iff)
    then have ct: "(of_int c :: rat) \<le> of_int t - 1" by simp
    have "(of_int t :: rat) \<le> of_int (2 ^ 53)" using t by (simp only: of_int_le_iff less_imp_le)
    then have T: "(0 :: rat) < of_int t" "(of_int t :: rat) \<le> 2 ^ 53" using t by simp_all
    have "of_int c / of_int t \<le> (1 :: rat) - 1 / of_int t"
      using ct T by (simp add: field_simps)
    also have "\<dots> \<le> 1 - 1 / 2 ^ 53" using T by (simp add: frac_le)
    finally have le: "of_int c / of_int t \<le> (1 :: rat) - 1 / 2 ^ 53" .
    have rep: "representable (1 - 1 / 2 ^ 53)" using representable_div [of "2 ^ 53 - 1" 53] by simp
    have r: "0 \<le> r" "r \<le> 1 - 1 / 2 ^ 53"
    proof -
      show "0 \<le> r" unfolding r_def using c T by (intro fl_nonneg) simp
      show "r \<le> 1 - 1 / 2 ^ 53"
      proof (cases "c = 0")
        case False
        then have "0 < (of_int c / of_int t :: rat)" using c T by simp
        from fl_le [OF this rep le] show ?thesis unfolding r_def .
      qed (simp add: r_def)
    qed
    have W: "(0 :: rat) < of_int w" using w by simp
    define y where "y = fl (r * of_int w)"
    have y: "0 \<le> y" "y < of_int w" using fl_scaled_less [OF r W] by (simp_all add: y_def)
    have "rat_trunc y = \<lfloor>y\<rfloor>" using y by (simp add: rat_trunc_def)
    moreover have "0 \<le> \<lfloor>y\<rfloor>" "\<lfloor>y\<rfloor> < w" using y by (simp_all add: floor_less_iff)
    moreover have "in_i64 x" if "0 \<le> x" "x < w" for x using that w by (simp add: in_i64_def)
    ultimately show ?thesis by (simp only: filled y_def [symmetric] f_int.simps if_True)
  qed
  show "0 \<le> bar_filled (bar_ratio c t) w" "bar_filled (bar_ratio c t) w \<le> w"
    "bar_filled (bar_ratio c t) w = w \<longleftrightarrow> c = t"
    using full part w by (cases "c = t"; auto)+
qed

lemma percent_filled: "percent r = bar_filled r 100"
  by (simp add: percent_def bar_filled_def)

section \<open>Durations\<close>

text \<open>The text of a duration in integer arithmetic.\<close>

definition duration_text :: "int \<Rightarrow> string" where
  "duration_text s =
     (if s < 60 then fmt_int s @ ''s''
      else if s < 3600 then fmt_int (s div 60) @ ''m'' @ fmt_int (s mod 60) @ ''s''
      else fmt_int (s div 3600) @ ''h'' @ fmt_int (s div 60 mod 60) @ ''m'')"

definition nearest_second :: "duration \<Rightarrow> int" where
  "nearest_second d = (d + seconds 1 div 2) div seconds 1"

lemma dur_round_second:
  assumes "0 \<le> d" and "d < 2 ^ 63 - seconds 1"
  shows "dur_round (seconds 1) d = nearest_second d * seconds 1"
proof -
  define q r where "q = d div 10 ^ 9" and "r = d mod 10 ^ 9"
  have d: "d = 10 ^ 9 * q + r" by (simp add: q_def r_def)
  have r: "0 \<le> r" "r < 10 ^ 9" by (simp_all add: r_def)
  have sm: "d smod (10 ^ 9) = r" using assms(1) by (simp add: r_def signed_modulo_int_def sgn_if)
  have "0 \<le> q" using assms(1) by (simp add: q_def pos_imp_zdiv_nonneg_iff)
  have i64: "i64 x = x" if "0 \<le> x" "x < 2 ^ 63" for x using that by (simp add: i64_id in_i64_def)
  show ?thesis
  proof (cases "r + r < 10 ^ 9")
    case True
    have "nearest_second d = q" unfolding nearest_second_def seconds_def d using r True by simp
    then show ?thesis using assms True sm d \<open>0 \<le> q\<close> r
      by (simp add: dur_round_def seconds_def Let_def i64)
  next
    case False
    have "nearest_second d = q + 1" unfolding nearest_second_def seconds_def d using r False by simp
    moreover have "i64 (i64 (d + 10 ^ 9) - r) = 10 ^ 9 * (q + 1)"
      using assms d r \<open>0 \<le> q\<close> by (simp add: i64 seconds_def)
    ultimately show ?thesis using assms False sm d \<open>0 \<le> q\<close> r
      by (simp add: dur_round_def seconds_def Let_def)
  qed
qed

lemma format_duration_text:
  assumes "0 \<le> d" and "d < 2 ^ 63 - seconds 1"
  shows "format_duration d = duration_text (nearest_second d)"
proof -
  define s where "s = nearest_second d"
  have s: "0 \<le> s" using assms(1) by (simp add: s_def nearest_second_def seconds_def pos_imp_zdiv_nonneg_iff)
  have "s * seconds 1 \<le> d + seconds 1 div 2"
    unfolding s_def nearest_second_def by (simp add: seconds_def)
  then have up: "s * seconds 1 < 2 ^ 63" using assms(2) by (simp add: seconds_def)
  have f: "f_int (dur_float u (s * seconds 1)) = s * seconds 1 div u"
    if "u \<in> {seconds 1, seconds 60, seconds 3600}" for u
    using f_int_dur [OF _ up that] s by (simp add: seconds_def)
  have dv: "s * seconds 1 div seconds 1 = s" "s * seconds 1 div seconds 60 = s div 60"
    "s * seconds 1 div seconds 3600 = s div 3600"
    using s by (simp_all add: seconds_def)
  have sm: "x smod 60 = x mod 60" if "0 \<le> x" for x :: int
    using that by (simp add: signed_modulo_int_def sgn_if)
  show ?thesis
    unfolding format_duration_def dur_round_second [OF assms] s_def [symmetric] format_rounded_def
      duration_text_def dur_seconds_def dur_minutes_def dur_hours_def
    using s by (simp add: f dv sm pos_imp_zdiv_nonneg_iff del: One_nat_def) (simp add: seconds_def)
qed

section \<open>Properties\<close>


definition sample_bar :: progress_bar where
  "sample_bar =
     \<lparr>pbReporter = new_reporter True False False ''bar'', pbTotal = 3000, pbCurrent = 1500,
      pbStartTime = 0, pbLastPrint = 0, pbLastNonTTYPrint = 0, pbLabel = ''file.iso'',
      pbConnections = 4, pbConnFn = False\<rparr>"


text \<open>C30: Percentage and bar of an object of less than \<open>2^53\<close> bytes are in range and full exactly
  when every byte has arrived: rounding never shows 100 percent early.\<close>

theorem percent_exact:
  assumes "0 \<le> c" and "c \<le> t" and "0 < t" and "t < 2 ^ 53"
  shows "0 \<le> percent (bar_ratio c t) \<and> percent (bar_ratio c t) \<le> 100 \<and>
     (percent (bar_ratio c t) = 100 \<longleftrightarrow> c = t) \<and>
     0 \<le> bar_filled (bar_ratio c t) (bar_width available) \<and>
     bar_filled (bar_ratio c t) (bar_width available) \<le> bar_width available \<and>
     (bar_filled (bar_ratio c t) (bar_width available) = bar_width available \<longleftrightarrow> c = t)"
proof -
  have "0 < bar_width available" "bar_width available < 2 ^ 53" by (simp_all add: bar_width_def Let_def)
  note w = filled_exact [OF assms this]
  have "(0 :: int) < 100" "(100 :: int) < 2 ^ 53" by simp_all
  note p = filled_exact [OF assms this]
  show ?thesis using w p by (simp only: percent_filled simp_thms)
qed

theorem percent_exact_witness:
  "percent (bar_ratio (2 ^ 53 - 2) (2 ^ 53 - 1)) \<noteq> 100 \<and>
   bar_filled (bar_ratio (2 ^ 53 - 2) (2 ^ 53 - 1)) (bar_width 50) < bar_width 50"
  using percent_exact [of "2 ^ 53 - 2" "2 ^ 53 - 1" 50] by simp

text \<open>C32: Durations are printed as integer arithmetic on the nearest second prints them: the
  floating-point numbers in between never change a digit.\<close>

theorem duration_exact:
  assumes "0 \<le> d" and "d < 2 ^ 63 - seconds 1"
  shows "format_duration d = duration_text (nearest_second d)"
  by (rule format_duration_text [OF assms])

theorem duration_exact_witness: "format_duration (seconds 3661) = ''1h1m''"
proof -
  have "duration_text (nearest_second (seconds 3661)) = ''1h1m''" by code_simp
  then show ?thesis using duration_exact [of "seconds 3661"] by (simp add: seconds_def)
qed

end
