(* ===== verification/Throughput.thy ===== *)
theory Throughput
  imports Scheduler Go_Float
begin

text \<open>
  \<open>RecentThroughput\<close> of \<open>internal/schedule/scheduler.go\<close>: the upper median of the positive rates of
  the workers, each the quotient of bytes and seconds of its last chunk in \<open>float64\<close>.
\<close>

definition throughput :: "worker_stats \<Rightarrow> gofloat" where
  "throughput w =
     (case wRecentThroughput w of
        None \<Rightarrow> Num 0
      | Some (bytes, d) \<Rightarrow> f_div (f_of_int bytes) (dur_seconds d))"

fun positive_rate :: "gofloat \<Rightarrow> rat list" where
  "positive_rate (Num q) = (if q > 0 then [q] else [])"
| "positive_rate _ = []"

definition recent_throughput :: "sched \<Rightarrow> rat" where
  "recent_throughput s =
     (let rates = concat (map (\<lambda>w. positive_rate (throughput w)) (sWorkers s))
      in if rates = [] then 0 else sort rates ! (length rates div 2))"

lemma recent_throughput_rate:
  "recent_throughput s = 0 \<or>
     (\<exists>w \<in> set (sWorkers s). throughput w = Num (recent_throughput s) \<and> 0 < recent_throughput s)"
proof -
  let ?rates = "concat (map (\<lambda>w. positive_rate (throughput w)) (sWorkers s))"
  have rate: "positive_rate x = (case x of Num q \<Rightarrow> if q > 0 then [q] else [] | _ \<Rightarrow> [])" for x
    by (cases x) simp_all
  show ?thesis
  proof (cases "?rates = []")
    case False
    then have "length ?rates div 2 < length ?rates" by simp
    then have "recent_throughput s \<in> set ?rates"
      using False nth_mem [of "length ?rates div 2" "sort ?rates"]
      by (simp only: recent_throughput_def Let_def if_False length_sort set_sort)
    then show ?thesis by (auto simp: rate split: gofloat.splits if_splits)
  qed (simp add: recent_throughput_def Let_def)
qed

end
