(* ===== verification/Cli_Seconds.thy ===== *)
theory Cli_Seconds
  imports Cli_Parser Go_Float
begin

text \<open>
  \<open>parseSeconds\<close> of \<open>internal/cli/parser.go\<close>, the argument \<open>secs\<close> of \<open>cli_parse\<close>: a decimal number of
  seconds as a duration, through \<open>float64\<close>. \<open>strconv.ParseFloat\<close> is an argument, of which the
  lemmas use that it returns the value of a decimal rounded to nearest.
\<close>

definition parse_seconds :: "(string \<Rightarrow> gofloat option) \<Rightarrow> string \<Rightarrow> duration option" where
  "parse_seconds parseFloat s =
     (case parseFloat s of None \<Rightarrow> None | Some f \<Rightarrow> Some (f_int (f_scale f (of_int (seconds 1)))))"

lemma rat_trunc_floor: "0 \<le> q \<Longrightarrow> rat_trunc q = \<lfloor>q\<rfloor>"
  by (simp add: rat_trunc_def)

lemma exp2_pred: "exp2 (e - 53) = exp2 e / 2 ^ 53"
proof -
  have "exp2 e = exp2 (e - 53) * 2 ^ 53" using exp2_add [of "e - 53" 53] by (simp add: exp2_def)
  then show ?thesis by simp
qed

text \<open>Rounding changes a number by at most one part in \<open>2^53\<close>.\<close>

lemma fl_relative: "0 < q \<Longrightarrow> \<bar>fl q - q\<bar> \<le> q / 2 ^ 53"
proof -
  assume q: "0 < q"
  note b = exponent2_bounds [OF q]
  have "exp2 (exponent2 q - 53) \<le> q / 2 ^ 53"
    unfolding exp2_pred using b(1) by (intro divide_right_mono) simp_all
  then show ?thesis using fl_error [OF b] by linarith
qed

text \<open>\<open>n\<close> nanoseconds, written as a decimal number of seconds.\<close>

definition seconds_of :: "int \<Rightarrow> rat" where
  "seconds_of n = of_int n / of_int (seconds 1)"

lemma scaled_between:
  assumes n: "0 < n" "n < 2 ^ 52"
  shows "of_int (2 * n - 1) / 2 \<le> fl (fl (seconds_of n) * of_int (seconds 1))"
    and "fl (fl (seconds_of n) * of_int (seconds 1)) \<le> of_int (2 * n + 1) / 2"
proof -
  let ?m = "of_int (seconds 1) :: rat" and ?q = "seconds_of n"
  have m: "?m = 10 ^ 9" by (simp add: seconds_def)
  have q: "0 < ?q" "?q * ?m = of_int n" using n by (simp_all add: seconds_of_def seconds_def)
  have "\<bar>fl ?q - ?q\<bar> * ?m \<le> ?q / 2 ^ 53 * ?m"
    using fl_relative [OF q(1)] by (intro mult_right_mono) (simp_all add: m)
  also have "?q / 2 ^ 53 * ?m = of_int n / 2 ^ 53" using q(2) by (simp add: field_simps)
  finally have "\<bar>fl ?q * ?m - of_int n\<bar> \<le> of_int n / 2 ^ 53"
    using q(2) m by (simp add: abs_mult_pos' left_diff_distrib abs_if algebra_simps split: if_splits)
  moreover have "of_int n / 2 ^ 53 \<le> (1 / 2 :: rat)"
  proof -
    have "(of_int n :: rat) \<le> of_int (2 ^ 52)" using n(2) by (simp only: of_int_le_iff less_imp_le)
    then show ?thesis by simp
  qed
  ultimately have "\<bar>fl ?q * ?m - of_int n\<bar> \<le> 1 / 2" by (rule order_trans)
  moreover have "of_int (2 * n - 1) / 2 = of_int n - (1 / 2 :: rat)"
    "of_int (2 * n + 1) / 2 = of_int n + (1 / 2 :: rat)"
    by (simp_all add: field_simps)
  ultimately have near: "of_int (2 * n - 1) / 2 \<le> fl ?q * ?m" "fl ?q * ?m \<le> of_int (2 * n + 1) / 2"
    by (simp_all only: abs_le_iff) linarith+
  have rep: "representable (of_int k / 2)" if "\<bar>k\<bar> < 2 ^ 53" for k
    using representable_div [OF that, of 1] by simp
  have "(0 :: rat) < of_int (2 * n - 1) / 2" using n(1) by simp
  then have pos: "0 < fl ?q * ?m" using near(1) by linarith
  show "of_int (2 * n - 1) / 2 \<le> fl (fl ?q * ?m)"
    using n by (intro fl_ge [OF pos rep near(1)]) simp
  show "fl (fl ?q * ?m) \<le> of_int (2 * n + 1) / 2"
    using n by (intro fl_le [OF pos rep near(2)]) simp
qed

text \<open>A time of less than \<open>2^52\<close> nanoseconds (52 days) is read with an error of at most one
  nanosecond, and a whole number of seconds exactly.\<close>

lemma parse_seconds_near:
  assumes n: "0 < n" "n < 2 ^ 52" and pf: "parseFloat s = Some (Num (fl (seconds_of n)))"
  shows "\<exists>d. parse_seconds parseFloat s = Some d \<and> n - 1 \<le> d \<and> d \<le> n"
proof -
  let ?y = "fl (fl (seconds_of n) * of_int (seconds 1))"
  note y = scaled_between [OF n]
  have "(0 :: rat) \<le> of_int (2 * n - 1) / 2" using n(1) by simp
  then have "rat_trunc ?y = \<lfloor>?y\<rfloor>" using y(1) by (intro rat_trunc_floor) linarith
  moreover have "n - 1 \<le> \<lfloor>?y\<rfloor>" using y(1) by (simp add: le_floor_iff)
  moreover have "\<lfloor>?y\<rfloor> \<le> n" using y(2) by (simp add: floor_le_iff)
  moreover have "in_i64 x" if "n - 1 \<le> x" "x \<le> n" for x using that n by (simp add: in_i64_def)
  ultimately show ?thesis
    using pf by (intro exI [of _ "\<lfloor>?y\<rfloor>"]) (simp only: parse_seconds_def option.simps f_scale.simps f_int.simps if_True)
qed

lemma parse_seconds_whole:
  assumes k: "0 \<le> k" "k * seconds 1 < 2 ^ 53" and pf: "parseFloat s = Some (Num (fl (of_int k)))"
  shows "parse_seconds parseFloat s = Some (k * seconds 1)"
proof -
  have "k < 2 ^ 53" using k by (simp add: seconds_def)
  then have "fl (of_int k) = of_int k" using k(1) by (rule fl_int [rotated])
  note fl_k = this
  have fl_ns: "fl (of_int k * of_int (seconds 1)) = of_int (k * seconds 1)"
    using fl_int [of "k * seconds 1"] k by (simp add: seconds_def)
  have "rat_trunc (of_int x) = x" if "0 \<le> x" for x using that by (simp add: rat_trunc_def)
  moreover have "0 \<le> k * seconds 1" using k(1) by (simp add: seconds_def)
  ultimately have "rat_trunc (of_int (k * seconds 1)) = k * seconds 1" by blast
  moreover have "in_i64 (k * seconds 1)" using k by (simp add: in_i64_def seconds_def)
  ultimately show ?thesis
    using pf fl_k fl_ns by (simp only: parse_seconds_def option.simps f_scale.simps f_int.simps if_True)
qed

text \<open>A time-out written as a decimal of less than \<open>2^52\<close> nanoseconds (52 days) is read with an
  error of at most one nanosecond, and exactly when it is a whole number of seconds, although it
  passes through binary floating point.\<close>

theorem parse_seconds_exact:
  assumes "0 < n" and "n < 2 ^ 52" and "parseFloat s = Some (Num (fl (seconds_of n)))"
  shows "\<exists>d. parse_seconds parseFloat s = Some d \<and> n - 1 \<le> d \<and> d \<le> n \<and> (seconds 1 dvd n \<longrightarrow> d = n)"
proof -
  obtain d where d: "parse_seconds parseFloat s = Some d" "n - 1 \<le> d" "d \<le> n"
    using parse_seconds_near [OF assms(1,2), of parseFloat s] assms(3) by blast
  have "d = n" if "seconds 1 dvd n"
  proof -
    obtain k where k: "n = k * seconds 1" using \<open>seconds 1 dvd n\<close> by (metis dvd_div_mult_self)
    then have "seconds_of n = of_int k" by (simp add: seconds_of_def seconds_def)
    moreover have "0 \<le> k" using k assms(1) by (simp add: seconds_def)
    ultimately show ?thesis using parse_seconds_whole [of k parseFloat s] assms(2,3) d(1) k by simp
  qed
  then show ?thesis using d by blast
qed

theorem parse_seconds_exact_witness:
  "\<exists>d. parse_seconds (\<lambda>s. if s = ''2'' then Some (Num (fl (seconds_of 2000000000))) else None) ''2'' = Some d \<and>
     d = 2000000000"
  using parse_seconds_exact [of 2000000000 "\<lambda>s. if s = ''2'' then Some (Num (fl (seconds_of 2000000000))) else None"
      "''2''"]
  by (simp add: seconds_def)

end
