(* ===== verification/Job_Measure.thy ===== *)
theory Job_Measure
  imports Job_Props
begin

text \<open>
  How long a parallel file job can go on. A file job starts no duplicates, so every request
  uses up one attempt of its chunk; a measure of the attempts left and of the places of the
  workers falls with every step that moves a worker, whatever the interleaving, the answers
  and the cancellations. Only a worker that waits for an assignment, or for an answer of the
  environment, stays where it is.
\<close>

section \<open>File jobs\<close>

definition file_job :: "job \<Rightarrow> bool" where
  "file_job j \<longleftrightarrow>
     (\<exists>fs. jbSink j = FileTo fs) \<and> sched_inv 0 (jbSched j) \<and> attempts_ok (jbSched j)"

text \<open>The places of a worker that never holds a duplicate.\<close>

fun pc_file :: "worker_pc \<Rightarrow> bool" where
  "pc_file (PSidecar slot k hedge) = (\<not> hedge)"
| "pc_file pc = (\<not> pc_stream_only pc)"

definition file_pool :: "pool \<Rightarrow> bool" where
  "file_pool p \<longleftrightarrow> file_job (plJob p) \<and> (\<forall>pc \<in> set (plWorkers p). pc_file pc)"

lemma file_jobI:
  "file_job j \<Longrightarrow> jbSink j' = FileTo fs \<Longrightarrow> sched_inv 0 (jbSched j') \<Longrightarrow> attempts_ok (jbSched j') \<Longrightarrow>
     file_job j'"
  by (simp add: file_job_def)

section \<open>Attempts left\<close>

definition tries_left :: "sched \<Rightarrow> int" where
  "tries_left s = (\<Sum>c\<leftarrow>sChunks s. cfgMaxTries (sCfg s) - cAttempts c)"

lemma sum_list_change:
  "k < length xs \<Longrightarrow> (\<Sum>x\<leftarrow>xs[k := v]. f x) = (\<Sum>x\<leftarrow>xs. f x) - f (xs ! k) + (f v :: int)"
  by (induction xs arbitrary: k) (auto simp: nth_Cons split: nat.split)

lemma sum_list_keep:
  "k < length xs \<Longrightarrow> f v = f (xs ! k) \<Longrightarrow> (\<Sum>x\<leftarrow>xs[k := v]. f x) = (\<Sum>x\<leftarrow>xs. f x :: int)"
  by (simp add: sum_list_change)

lemma tries_left_nonneg: "attempts_ok s \<Longrightarrow> 0 \<le> tries_left s"
  unfolding tries_left_def by (intro sum_list_nonneg) (auto simp: attempts_ok_def)

lemma tries_left_keep:
  "tries_left (mark_complete now idx s) = tries_left s"
  "tries_left (mark_failed now idx retryable s) = tries_left s"
  "tries_left (on_admission_failure now slot s) = tries_left s"
  "tries_left (on_worker_success now slot b d s) = tries_left s"
  "tries_left (sched_cancel s) = tries_left s"
  "tries_left (cleanup now s) = tries_left s"
  by (auto simp: tries_left_def mark_complete_def mark_failed_def record_chunk_duration_def
      on_admission_failure_def on_worker_success_def sched_cancel_def set_chunk_def cleanup_def
      Let_def in_range_def intro!: sum_list_keep)

lemma next_assignment_idle:
  assumes "next_assignment now slot s = (s', r)" and "\<forall>k. r \<noteq> NAAssign k"
  shows "s' = cleanup now s"
  using assms by (auto simp: next_assignment_def try_assign_def Let_def
      split: if_splits option.splits prod.splits)

lemma tries_left_assign:
  assumes inv: "sched_inv h s" and na: "next_assignment now slot s = (s', r)"
  shows "tries_left s' = (case r of NAAssign k \<Rightarrow> tries_left s - 1 | _ \<Rightarrow> tries_left s)"
proof (cases "\<exists>k. r = NAAssign k")
  case True
  then obtain k where k: "r = NAAssign k" by blast
  then have ta: "try_assign now slot (cleanup now s) = (s', Some k)"
    using next_assignment_Assign [of now slot s k] na by simp
  note ts = try_assign_Some [OF cleanup_inv [OF inv] ta]
  have "sCfg s' = sCfg (cleanup now s)"
    using ta by (auto simp: try_assign_def assign_chunk_def Let_def split: if_splits option.splits)
  then have "tries_left s' = tries_left (cleanup now s) - 1"
    using ts(1) by (simp add: tries_left_def ts(3) sum_list_change)
  then show ?thesis by (simp add: k tries_left_keep)
next
  case False
  with next_assignment_idle [OF na] show ?thesis
    by (auto simp: tries_left_keep split: na_result.split)
qed

section \<open>The measure\<close>

text \<open>How far a worker is from its return when it gets no further chunk.\<close>

fun rank :: "worker_pc \<Rightarrow> int" where
  "rank (PFetch slot k hedge) = 7"
| "rank (PPut slot k hedge data) = 6"
| "rank (PSidecar slot k hedge) = 5"
| "rank (PSuccess slot k) = 4"
| "rank (PAdmission slot k) = 4"
| "rank (PMark slot k) = 3"
| "rank (PRetry slot k) = 3"
| "rank (PTop slot) = 2"
| "rank (PNext slot) = 1"
| "rank (PAbort slot k e) = 1"
| "rank (PDone r) = 0"
| "rank PCrash = 0"
| "rank _ = 8"

lemma rank_nonneg: "0 \<le> rank pc"
  by (cases pc) simp_all

definition job_measure :: "pool \<Rightarrow> int" where
  "job_measure p = 7 * tries_left (jbSched (plJob p)) + (\<Sum>pc\<leftarrow>plWorkers p. rank pc)"

lemma job_measure_nonneg: "file_pool p \<Longrightarrow> 0 \<le> job_measure p"
  using tries_left_nonneg [of "jbSched (plJob p)"]
  by (auto simp: job_measure_def file_pool_def file_job_def intro!: add_nonneg_nonneg sum_list_nonneg
      rank_nonneg)

text \<open>One step of a worker: the job stays a file job, and the measure falls or the worker
  stays.\<close>

definition steps_down :: "job \<Rightarrow> worker_pc \<Rightarrow> job \<times> worker_pc \<Rightarrow> bool" where
  "steps_down j pc r \<longleftrightarrow>
     file_job (fst r) \<and> pc_file (snd r) \<and>
     7 * tries_left (jbSched (fst r)) + rank (snd r) + (if snd r = pc then 0 else 1) \<le>
       7 * tries_left (jbSched j) + rank pc"

lemma steps_down_same_sched:
  assumes "file_job j" and "jbSched j' = jbSched j" and "jbSink j' = FileTo fs"
    and "pc_file pc'" and "pc' = pc \<or> rank pc' < rank pc"
  shows "steps_down j pc (j', pc')"
  using assms by (auto simp: steps_down_def file_job_def)

lemma steps_down_sched:
  assumes "file_job j" and "jbSink j' = jbSink j" and "sched_inv 0 (jbSched j')"
    and "attempts_ok (jbSched j')" and "tries_left (jbSched j') = tries_left (jbSched j)"
    and "pc_file pc'" and "rank pc' < rank pc"
  shows "steps_down j pc (j', pc')"
  using assms by (auto simp: steps_down_def file_job_def)

lemma next_steps_down:
  assumes "file_job j"
  shows "steps_down j (PNext slot) (worker_step now inp (PNext slot) j)"
proof -
  obtain s r where na: "next_assignment now slot (jbSched j) = (s, r)" by fastforce
  obtain fs where j: "jbSink j = FileTo fs" "sched_inv 0 (jbSched j)" "attempts_ok (jbSched j)"
    using assms by (auto simp: file_job_def)
  have "sched_inv 0 s" "attempts_ok s"
    using next_assignment_inv [OF j(2), of now slot] attempts_ok_assign [OF j(2,3), of now slot] na
    by simp_all
  then show ?thesis
    using j na tries_left_assign [OF j(2) na]
    by (cases r) (auto simp: steps_down_def file_job_def take_assignment_def)
qed

lemma attempts_ok_same:
  "sChunks t = sChunks s \<Longrightarrow> sCfg t = sCfg s \<Longrightarrow> attempts_ok t = attempts_ok s"
  by (simp add: attempts_ok_def)

lemma worker_steps_down:
  assumes j: "file_job j" and pc: "pc_file pc"
  shows "steps_down j pc (worker_step now inp pc j)"
proof -
  obtain fs where fs: "jbSink j = FileTo fs" and inv: "sched_inv 0 (jbSched j)"
    and at: "attempts_ok (jbSched j)"
    using j by (auto simp: file_job_def)
  note same = steps_down_same_sched [OF j]
  note sched = steps_down_sched [OF j]
  show ?thesis
  proof (cases pc)
    case (PTop slot)
    then show ?thesis using fs by (auto simp: Let_def intro!: same)
  next
    case (PNext slot)
    then show ?thesis using next_steps_down [OF j] by blast
  next
    case (PFetch slot k hedge)
    then show ?thesis using fs pc by (cases inp) (auto simp: fetch_step_def intro!: same)
  next
    case (PPut slot k hedge data)
    show ?thesis
    proof (cases inp)
      case (InWrite fault)
      obtain res fs' where "write_part fault (chunk_at j k) data fs = (res, fs')" by fastforce
      then show ?thesis
        using PPut InWrite fs pc by (cases res) (auto simp: put_step_def intro!: same)
    qed (use PPut fs pc in \<open>auto simp: put_step_def intro!: same\<close>)
  next
    case (PSidecar slot k hedge)
    show ?thesis
    proof (cases inp)
      case (InSidecar w)
      obtain res fs' where "mark_part now w (chunk_at j k) fs = (res, fs')" by fastforce
      then show ?thesis
        using PSidecar InSidecar fs pc by (cases res) (auto simp: sidecar_step_def intro!: same)
    qed (use PSidecar fs pc in \<open>auto simp: sidecar_step_def intro!: same\<close>)
  next
    case (PAdmission slot k)
    then show ?thesis
      using inv at
      by (auto simp: on_sched_def tries_left_keep on_admission_failure_inv intro!: sched)
         (auto simp: on_admission_failure_def attempts_ok_def Let_def)
  next
    case (PSuccess slot k)
    then show ?thesis
      using inv at
      by (auto simp: on_sched_def Let_def tries_left_keep on_worker_success_inv intro!: sched)
         (auto simp: on_worker_success_def attempts_ok_def)
  next
    case (PRetry slot k)
    then show ?thesis
      using inv at by (auto simp: on_sched_def tries_left_keep mark_failed_inv attempts_ok_failed
          intro!: sched)
  next
    case (PAbort slot k e)
    then show ?thesis
      using inv at by (auto simp: on_sched_def tries_left_keep mark_failed_inv attempts_ok_failed
          intro!: sched)
  next
    case (PMark slot k)
    then show ?thesis
      using inv at by (auto simp: on_sched_def tries_left_keep mark_complete_inv
          attempts_ok_complete intro!: sched)
  qed (use pc fs in \<open>auto intro!: same\<close>)
qed

section \<open>Runs\<close>

text \<open>The steps of a run that move a worker.\<close>

definition moves :: "job_event \<Rightarrow> pool \<Rightarrow> bool" where
  "moves e p \<longleftrightarrow> plWorkers (pool_apply e p) \<noteq> plWorkers p"

fun count_moves :: "job_event list \<Rightarrow> pool \<Rightarrow> nat" where
  "count_moves [] p = 0"
| "count_moves (e # es) p = (if moves e p then 1 else 0) + count_moves es (pool_apply e p)"

lemma pool_apply_down:
  assumes "file_pool p"
  shows "file_pool (pool_apply e p)"
    and "job_measure (pool_apply e p) + (if moves e p then 1 else 0) \<le> job_measure p"
proof -
  have j: "file_job (plJob p)" and pcs: "\<forall>pc \<in> set (plWorkers p). pc_file pc"
    using assms by (auto simp: file_pool_def)
  have *: "file_pool (pool_apply e p) \<and>
      job_measure (pool_apply e p) + (if moves e p then 1 else 0) \<le> job_measure p"
  proof (cases e)
    case (JStep w now inp)
    show ?thesis
    proof (cases "w < length (plWorkers p)")
      case True
      let ?pc = "plWorkers p ! w"
      obtain j' pc' where st: "worker_step now inp ?pc (plJob p) = (j', pc')" by fastforce
      have "steps_down (plJob p) ?pc (j', pc')"
        using worker_steps_down [OF j, of ?pc now inp] pcs True st by simp
      moreover have "pc_file pc" if "pc \<in> set ((plWorkers p)[w := pc'])"
        and "pc_file pc'" for pc
        using that set_update_subset_insert [of "plWorkers p" w pc'] pcs by auto
      ultimately show ?thesis
        using JStep True st
        by (auto simp: file_pool_def steps_down_def job_measure_def moves_def sum_list_change
            list_update_same_conv split: if_splits)
    qed (use JStep assms in \<open>simp add: moves_def\<close>)
  next
    case JCancel
    then show ?thesis
      using assms
      by (auto simp: file_pool_def file_job_def job_measure_def moves_def on_sched_def
          tries_left_keep sched_cancel_inv)
         (simp add: sched_cancel_def attempts_ok_def)
  qed (use assms j in \<open>auto simp: file_pool_def file_job_def writer_event_def moves_def\<close>)
  then show "file_pool (pool_apply e p)"
    "job_measure (pool_apply e p) + (if moves e p then 1 else 0) \<le> job_measure p" by simp_all
qed

lemma count_moves_measure:
  "file_pool p \<Longrightarrow>
     file_pool (pool_run es p) \<and>
     int (count_moves es p) + job_measure (pool_run es p) \<le> job_measure p"
proof (induction es arbitrary: p)
  case (Cons e es)
  note d = pool_apply_down [OF Cons.prems, of e]
  show ?case using Cons.IH [OF d(1)] d(2) by (auto split: if_splits)
qed simp

section \<open>The start of a file job\<close>

lemma file_start_pool:
  assumes pl: "plan_ok (epSplitSize p) n" "plan (epSplitSize p) n = Some cs"
    and conn: "1 \<le> epConnections p" and tries: "1 \<le> epMaxTries p"
    and pre: "prefix_completed (mark_completed ks cs)"
    and st: "file_start p fs (mark_completed ks cs) = Some q0"
  shows "file_pool q0"
    and "job_measure q0 = 7 * (int (length cs) * epMaxTries p) + 2 * epConnections p"
    and "\<forall>pc \<in> set (plWorkers q0). \<exists>slot. pc = PTop slot"
    and "length (plWorkers q0) = nat (epConnections p)"
proof -
  obtain s where s: "sched_new (file_config p) (mark_completed ks cs) False = Some s"
    "q0 = pool_start p s (FileTo fs)"
    using st by (auto simp: file_start_def)
  have zero: "\<forall>c \<in> set (mark_completed ks cs). cAttempts c = 0"
    using pl by (auto simp: plan_eq mark_completed_def plan_chunk_def Let_def)
  have ch: "sChunks s = mark_completed ks cs" by (rule sched_new_chunks [OF s(1)])
  have cfg: "sCfg s = file_config p"
    using s(1) by (auto simp: sched_new_def split: if_splits option.splits)
  have "sched_inv 0 s" using conn by (intro sched_new_inv [OF s(1) _ pre]) (simp add: file_config_def)
  moreover have "attempts_ok s"
    using zero tries by (auto simp: attempts_ok_def ch cfg file_config_def)
  ultimately show "file_pool q0"
    by (auto simp: s(2) file_pool_def file_job_def pool_start_def)
  have "(\<Sum>c\<leftarrow>mark_completed ks cs. epMaxTries p - cAttempts c) =
      (\<Sum>c\<leftarrow>mark_completed ks cs. epMaxTries p)"
    using zero by (intro arg_cong [where f = sum_list] map_cong) auto
  then have "tries_left s = int (length cs) * epMaxTries p"
    by (simp add: tries_left_def ch cfg file_config_def sum_list_triv mark_completed_def o_def)
  then show "job_measure q0 = 7 * (int (length cs) * epMaxTries p) + 2 * epConnections p"
    using conn by (simp add: job_measure_def s(2) pool_start_def o_def sum_list_triv)
  show "\<forall>pc \<in> set (plWorkers q0). \<exists>slot. pc = PTop slot"
    "length (plWorkers q0) = nat (epConnections p)"
    by (auto simp: s(2) pool_start_def)
qed

end
