(* ===== verification/Job_Live.thy ===== *)
theory Job_Live
  imports Job_Measure Job_Net
begin

text \<open>
  A parallel file job returns. Every active chunk is held by exactly one worker
  (\<open>owned\<close>), so a pool in which every worker has returned or waits for an assignment has no
  active chunk, and then \<open>NextAssignment\<close> blocks nobody once the retry delays and the
  suppressions are over. With the measure of \<open>Job_Measure\<close> every fair execution ends; and when
  nothing fails it ends with success.
\<close>

section \<open>Who holds which chunk\<close>

definition holders :: "nat \<Rightarrow> worker_pc list \<Rightarrow> nat" where
  "holders k ws = count_if (\<lambda>pc. pc_chunk pc = Some k) ws"

abbreviation active :: "nat \<Rightarrow> sched \<Rightarrow> bool" where
  "active k s \<equiv> cState (sChunks s ! k) = StateActive"

definition owned :: "pool \<Rightarrow> bool" where
  "owned p \<longleftrightarrow> (\<forall>k < length (sChunks (jbSched (plJob p))).
     holders k (plWorkers p) = (if active k (jbSched (plJob p)) then 1 else 0))"

text \<open>A step of a worker passes its chunk on: the states of the chunks and what the worker
  holds change together.\<close>

definition passes_on :: "sched \<Rightarrow> worker_pc \<Rightarrow> sched \<Rightarrow> worker_pc \<Rightarrow> bool" where
  "passes_on s pc s' pc' \<longleftrightarrow>
     length (sChunks s') = length (sChunks s) \<and>
     (\<forall>k < length (sChunks s).
        of_bool (active k s') + of_bool (pc_chunk pc = Some k) =
        of_bool (active k s) + (of_bool (pc_chunk pc' = Some k) :: nat))"

lemma passes_on_same:
  "map cState (sChunks s') = map cState (sChunks s) \<Longrightarrow> pc_chunk pc' = pc_chunk pc \<Longrightarrow> passes_on s pc s' pc'"
  unfolding passes_on_def by (metis length_map nth_map)

lemma passes_on_change:
  assumes "sChunks s' = (sChunks s)[k := c]" and "k < length (sChunks s)"
    and "active k s \<longleftrightarrow> pc_chunk pc = Some k" and "cState c = StateActive \<longleftrightarrow> pc_chunk pc' = Some k"
    and "\<And>i. i \<noteq> k \<Longrightarrow> pc_chunk pc' = Some i \<longleftrightarrow> pc_chunk pc = Some i"
  shows "passes_on s pc s' pc'"
  using assms by (auto simp: passes_on_def nth_list_update)

lemma count_if_change:
  "w < length xs \<Longrightarrow> count_if P (xs[w := v]) + of_bool (P (xs ! w)) = count_if P xs + of_bool (P v)"
  using count_if_update [of w xs P v] by (simp split: if_splits)

lemma owned_step:
  assumes own: "owned p" and w: "w < length (plWorkers p)"
    and po: "passes_on (jbSched (plJob p)) (plWorkers p ! w) (jbSched j') pc'"
  shows "owned \<lparr>plJob = j', plWorkers = (plWorkers p)[w := pc']\<rparr>"
  unfolding owned_def
proof (intro allI impI)
  fix k assume "k < length (sChunks (jbSched (plJob \<lparr>plJob = j', plWorkers = (plWorkers p)[w := pc']\<rparr>)))"
  then have k: "k < length (sChunks (jbSched (plJob p)))" using po by (simp add: passes_on_def)
  have a: "of_bool (active k (jbSched j')) + of_bool (pc_chunk (plWorkers p ! w) = Some k) =
      of_bool (active k (jbSched (plJob p))) + (of_bool (pc_chunk pc' = Some k) :: nat)"
    using po k by (simp add: passes_on_def)
  have b: "holders k (plWorkers p) = of_bool (active k (jbSched (plJob p)))"
    using own k by (simp add: owned_def)
  have "holders k ((plWorkers p)[w := pc']) = of_bool (active k (jbSched j'))"
    using count_if_change [OF w, of "\<lambda>pc. pc_chunk pc = Some k" pc'] a b
    unfolding holders_def by linarith
  then show "holders k (plWorkers \<lparr>plJob = j', plWorkers = (plWorkers p)[w := pc']\<rparr>) =
      (if active k (jbSched (plJob \<lparr>plJob = j', plWorkers = (plWorkers p)[w := pc']\<rparr>)) then 1 else 0)"
    by simp
qed

lemma owned_holder:
  assumes "owned p" and "pc \<in> set (plWorkers p)" and "pc_chunk pc = Some k"
    and "k < length (sChunks (jbSched (plJob p)))"
  shows "active k (jbSched (plJob p))"
proof (rule ccontr)
  assume "\<not> active k (jbSched (plJob p))"
  then have "holders k (plWorkers p) = 0" using assms by (simp add: owned_def)
  then show False using assms(2,3) by (auto simp: holders_def count_if_zero)
qed

section \<open>Each operation of the scheduler\<close>

lemma states_kept:
  "map cState (sChunks (on_admission_failure now slot s)) = map cState (sChunks s)"
  "map cState (sChunks (on_worker_success now slot b d s)) = map cState (sChunks s)"
  "map cState (sChunks (sched_cancel s)) = map cState (sChunks s)"
  "map cState (sChunks (cleanup now s)) = map cState (sChunks s)"
  by (auto simp: on_admission_failure_def on_worker_success_def sched_cancel_def cleanup_def Let_def)

lemma mark_failed_passes:
  assumes "k < length (sChunks s)" and "active k s"
  shows "\<exists>c. sChunks (mark_failed now (int k) retryable s) = (sChunks s)[k := c] \<and> cState c \<noteq> StateActive"
  using assms by (auto simp: mark_failed_def in_range_def set_chunk_def Let_def)

lemma mark_complete_passes:
  assumes "k < length (sChunks s)" and "active k s"
  shows "\<exists>c. sChunks (mark_complete now (int k) s) = (sChunks s)[k := c] \<and> cState c \<noteq> StateActive"
  using assms by (auto simp: mark_complete_def in_range_def set_chunk_def record_chunk_duration_def Let_def)

lemma next_passes:
  assumes inv: "sched_inv h s" and na: "next_assignment now slot s = (s', r)"
    and pc: "pc_chunk pc = None" "pc_chunk pc' = (case r of NAAssign k \<Rightarrow> Some k | _ \<Rightarrow> None)"
  shows "passes_on s pc s' pc'"
proof (cases "\<exists>k. r = NAAssign k")
  case True
  then obtain k where k: "r = NAAssign k" by blast
  then have ta: "try_assign now slot (cleanup now s) = (s', Some k)"
    using next_assignment_Assign [of now slot s k] na by simp
  note ts = try_assign_Some [OF cleanup_inv [OF inv] ta]
  show ?thesis using ts(1-3) pc k by (intro passes_on_change [of s' s k]) auto
next
  case False
  then have "s' = cleanup now s" "pc_chunk pc' = None"
    using next_assignment_idle [OF na] pc(2) by (auto split: na_result.splits)
  then show ?thesis using pc(1) by (intro passes_on_same) (simp_all add: states_kept)
qed

section \<open>A step of a worker\<close>

lemma worker_step_passes:
  assumes j: "file_job j" and pc: "pc_file pc"
    and k: "\<And>k. pc_chunk pc = Some k \<Longrightarrow>
      k < length (sChunks (jbSched j)) \<and> active k (jbSched j) \<and> cIndex (chunk_at j k) = int k"
    and st: "worker_step now inp pc j = (j', pc')" and alive: "pc' \<noteq> PCrash"
  shows "passes_on (jbSched j) pc (jbSched j') pc'"
proof -
  obtain fs where fs: "jbSink j = FileTo fs" and inv: "sched_inv 0 (jbSched j)"
    using j by (auto simp: file_job_def)
  show ?thesis
  proof (cases pc)
    case (PTop slot)
    then show ?thesis using st fs by (auto simp: Let_def intro!: passes_on_same split: if_splits)
  next
    case (PNext slot)
    obtain s r where na: "next_assignment now slot (jbSched j) = (s, r)" by fastforce
    then have "jbSched j' = s" "pc' = take_assignment slot j r" using PNext st by auto
    then show ?thesis
      using next_passes [OF inv na, of pc pc'] PNext fs
      by (auto simp: take_assignment_def split: na_result.splits)
  next
    case (PFetch slot k hedge)
    then show ?thesis using st by (auto simp: fetch_step_def intro!: passes_on_same
        split: step_input.splits if_splits)
  next
    case (PPut slot k hedge data)
    then have "jbSched j' = jbSched j \<and> pc_chunk pc' = pc_chunk pc"
      using st fs alive by (auto simp: put_step_def split: step_input.splits prod.splits res.splits)
    then show ?thesis by (intro passes_on_same) simp_all
  next
    case (PSidecar slot k hedge)
    then have "jbSched j' = jbSched j \<and> pc_chunk pc' = pc_chunk pc"
      using st fs alive pc
      by (auto simp: sidecar_step_def split: step_input.splits prod.splits res.splits)
    then show ?thesis by (intro passes_on_same) simp_all
  next
    case (PAdmission slot k)
    then show ?thesis using st by (auto simp: on_sched_def states_kept intro!: passes_on_same)
  next
    case (PSuccess slot k)
    then show ?thesis using st by (auto simp: on_sched_def Let_def states_kept intro!: passes_on_same)
  next
    case (PRetry slot i)
    from k [of i] mark_failed_passes [of i "jbSched j" now True] PRetry
    obtain c where "sChunks (mark_failed now (int i) True (jbSched j)) = (sChunks (jbSched j))[i := c]"
      "cState c \<noteq> StateActive" by auto
    then show ?thesis using PRetry st k [of i]
      by (auto simp: on_sched_def intro!: passes_on_change [of _ _ i c])
  next
    case (PAbort slot i e)
    from k [of i] mark_failed_passes [of i "jbSched j" now False] PAbort
    obtain c where "sChunks (mark_failed now (int i) False (jbSched j)) = (sChunks (jbSched j))[i := c]"
      "cState c \<noteq> StateActive" by auto
    then show ?thesis using PAbort st k [of i]
      by (auto simp: on_sched_def intro!: passes_on_change [of _ _ i c])
  next
    case (PMark slot i)
    from k [of i] mark_complete_passes [of i "jbSched j" now] PMark
    obtain c where "sChunks (mark_complete now (int i) (jbSched j)) = (sChunks (jbSched j))[i := c]"
      "cState c \<noteq> StateActive" by auto
    then show ?thesis using PMark st k [of i]
      by (auto simp: on_sched_def intro!: passes_on_change [of _ _ i c])
  qed (use pc st in \<open>auto intro!: passes_on_same\<close>)
qed

section \<open>The invariant of a job that can end\<close>

abbreviation finished :: "sched \<Rightarrow> bool" where
  "finished s \<equiv> int (length (sChunks s)) \<le> sCompletedCount s"

definition live_pool :: "bytes \<Rightarrow> chunk list \<Rightarrow> pool \<Rightarrow> bool" where
  "live_pool obj cs p \<longleftrightarrow>
     pool_inv obj cs p \<and> file_pool p \<and> owned p \<and>
     (PDone None \<in> set (plWorkers p) \<longrightarrow> finished (jbSched (plJob p)))"

lemma completed_kept:
  "sCompletedCount s \<le> sCompletedCount (mark_complete now idx s)"
  "sCompletedCount (mark_failed now idx retryable s) = sCompletedCount s"
  "sCompletedCount (on_admission_failure now slot s) = sCompletedCount s"
  "sCompletedCount (on_worker_success now slot b d s) = sCompletedCount s"
  "sCompletedCount (sched_cancel s) = sCompletedCount s"
  "sCompletedCount (fst (next_assignment now slot s)) = sCompletedCount s"
  "sCompletedCount (cancel_hedge idx s) = sCompletedCount s"
  by (auto simp: mark_complete_def mark_failed_def record_chunk_duration_def next_assignment_def
      on_admission_failure_def on_worker_success_def sched_cancel_def set_chunk_def cleanup_def
      cancel_hedge_def try_assign_def assign_chunk_def Let_def split: option.splits prod.splits)

lemma next_assignment_NADone:
  "snd (next_assignment now slot s) = NADone \<Longrightarrow> finished (fst (next_assignment now slot s))"
  by (auto simp: next_assignment_def Let_def split: if_splits option.splits prod.splits)

lemma worker_step_completed:
  assumes j: "file_job j" and st: "worker_step now inp pc j = (j', pc')"
  shows "sCompletedCount (jbSched j) \<le> sCompletedCount (jbSched j')"
    and "pc' = PDone None \<Longrightarrow> pc \<noteq> PDone None \<Longrightarrow> finished (jbSched j')"
proof -
  obtain fs where fs: "jbSink j = FileTo fs" using j by (auto simp: file_job_def)
  have start: "start_hedge now i s = Some (s', r) \<Longrightarrow> sCompletedCount s' = sCompletedCount s" for i s s' r
    by (auto simp: start_hedge_def set_chunk_def Let_def split: if_splits option.splits)
  have "sCompletedCount (jbSched j) \<le> sCompletedCount (jbSched j') \<and>
      (pc' = PDone None \<longrightarrow> pc \<noteq> PDone None \<longrightarrow> finished (jbSched j'))"
  proof (cases pc)
    case (PNext slot)
    obtain s r where na: "next_assignment now slot (jbSched j) = (s, r)" by fastforce
    then show ?thesis
      using PNext st completed_kept(6) [of now slot "jbSched j"]
        next_assignment_NADone [of now slot "jbSched j"]
      by (auto simp: take_assignment_def split: na_result.splits job_sink.splits)
  next
    case (PHedge slot i)
    then show ?thesis using st start by (auto split: option.splits prod.splits)
  next
    case (PPut slot k hedge data)
    then show ?thesis
      using st fs by (auto simp: put_step_def split: step_input.splits prod.splits res.splits)
  next
    case (PSidecar slot k hedge)
    then show ?thesis
      using st fs
      by (auto simp: sidecar_step_def split: step_input.splits prod.splits res.splits if_splits)
  qed (use st fs in \<open>auto simp: on_sched_def Let_def completed_kept reserve_step_def fetch_step_def
        split: step_input.splits if_splits\<close>)
  then show "sCompletedCount (jbSched j) \<le> sCompletedCount (jbSched j')"
    "pc' = PDone None \<Longrightarrow> pc \<noteq> PDone None \<Longrightarrow> finished (jbSched j')" by blast+
qed

lemma live_pool_pc:
  assumes "live_pool obj cs p" and "pc \<in> set (plWorkers p)"
  shows "pc \<noteq> PCrash" and "pc_chunk pc = Some k \<Longrightarrow>
      k < length (sChunks (jbSched (plJob p))) \<and> active k (jbSched (plJob p)) \<and>
      cIndex (chunk_at (plJob p) k) = int k"
proof -
  obtain h where h: "job_inv obj cs h (plJob p)" and ok: "pc_ok obj cs (jbSink (plJob p)) pc"
    and own: "owned p"
    using assms by (auto simp: live_pool_def pool_inv_def)
  show "pc \<noteq> PCrash" using ok by (auto simp: pc_ok_def)
  assume k: "pc_chunk pc = Some k"
  have len: "k < length cs" using pc_ok_D(1) [OF ok k] .
  have "k < length (sChunks (jbSched (plJob p)))" using len job_inv_length [OF h] by simp
  then show "k < length (sChunks (jbSched (plJob p))) \<and> active k (jbSched (plJob p)) \<and>
      cIndex (chunk_at (plJob p) k) = int k"
    using owned_holder [OF own assms(2) k] job_inv_chunk(1) [OF h len] by blast
qed

lemma live_pool_apply:
  assumes live: "live_pool obj cs p" and ans: "answer_ok obj e p"
  shows "live_pool obj cs (pool_apply e p)"
proof -
  have inv: "pool_inv obj cs (pool_apply e p)"
    using live by (intro pool_apply_inv ans) (simp add: live_pool_def)
  have fp: "file_pool p" and own: "owned p"
    and dn: "PDone None \<in> set (plWorkers p) \<longrightarrow> finished (jbSched (plJob p))"
    using live by (auto simp: live_pool_def)
  note fp' = pool_apply_down(1) [OF fp, of e]
  have j: "file_job (plJob p)" using fp by (simp add: file_pool_def)
  have "owned (pool_apply e p) \<and>
      (PDone None \<in> set (plWorkers (pool_apply e p)) \<longrightarrow> finished (jbSched (plJob (pool_apply e p))))"
  proof (cases e)
    case (JStep w now inp)
    show ?thesis
    proof (cases "w < length (plWorkers p)")
      case True
      let ?pc = "plWorkers p ! w"
      obtain j' pc' where st: "worker_step now inp ?pc (plJob p) = (j', pc')" by fastforce
      have mem: "?pc \<in> set (plWorkers p)" using True by simp
      have app: "pool_apply e p = \<lparr>plJob = j', plWorkers = (plWorkers p)[w := pc']\<rparr>"
        using JStep True st by simp
      have alive: "pc' \<noteq> PCrash"
        using inv app True set_update_memI [OF True, of pc'] by (auto simp: pool_inv_def pc_ok_def)
      have "pc_file ?pc" using fp mem by (simp add: file_pool_def)
      note po = worker_step_passes [OF j this live_pool_pc(2) [OF live mem] st alive]
      note cc = worker_step_completed [OF j st]
      have len: "length (sChunks (jbSched j')) = length (sChunks (jbSched (plJob p)))"
        using po by (simp add: passes_on_def)
      have "finished (jbSched j')" if "PDone None \<in> set ((plWorkers p)[w := pc'])"
      proof -
        have "pc' = PDone None \<or> PDone None \<in> set (plWorkers p)"
          using that set_update_subset_insert [of "plWorkers p" w pc'] by auto
        then show ?thesis using cc dn len mem by (cases "?pc = PDone None") auto
      qed
      then show ?thesis unfolding app using owned_step [OF own True po] by simp
    qed (use JStep own dn in simp)
  next
    case JCancel
    have "cState (sChunks (sched_cancel s) ! k) = cState (sChunks s ! k)" for s k
      by (simp add: sched_cancel_def)
    then show ?thesis
      using own dn JCancel by (simp add: owned_def on_sched_def sched_cancel_def)
  qed (use j own dn in \<open>auto simp: file_job_def writer_event_def owned_def\<close>)
  then show ?thesis using inv fp' by (simp add: live_pool_def)
qed

interpretation live_system:
  inductive_invariant "live_pool obj cs" "\<lambda>p q. \<exists>e. answer_ok obj e p \<and> q = pool_apply e p"
    "live_pool obj cs"
  for obj cs
  by unfold_locales (auto intro: live_pool_apply)

section \<open>No deadlock\<close>

text \<open>The retry delays and the suppressions of slots are over.\<close>

definition waits_over :: "gtime \<Rightarrow> sched \<Rightarrow> bool" where
  "waits_over now s \<longleftrightarrow>
     (\<forall>c \<in> set (sChunks s). cState c = StateRetryWait \<longrightarrow> cRetryAfter c \<le> now) \<and>
     (\<forall>w \<in> set (sWorkers s). \<not> is_suppressed now w)"

fun idle :: "worker_pc \<Rightarrow> bool" where
  "idle (PNext slot) = True"
| "idle pc = worker_done pc"

lemma idle_no_chunk: "idle pc \<Longrightarrow> pc_chunk pc = None"
  by (cases pc) auto

lemma all_states:
  assumes inv: "sched_inv 0 s" and none: "\<forall>k < length (sChunks s). \<not> active k s"
    and wait: "\<forall>c \<in> set (sChunks s). cState c \<noteq> StateRetryWait"
    and disp: "length (sChunks s) \<le> sNextUndispatched s" and nofail: "sFatalErr s = None"
  shows "finished s"
proof -
  have "cState c = StateCompleted" if c: "c \<in> set (sChunks s)" for c
  proof -
    obtain k where k: "k < length (sChunks s)" "c = sChunks s ! k" using c by (auto simp: in_set_conv_nth)
    have "cState c \<noteq> StatePending" "cState c \<noteq> StateWritten"
      using inv k disp c by (auto simp: sched_inv_def chunks_ok_def)
    moreover have "cState c \<noteq> StateFailed"
      using inv nofail c by (auto simp: sched_inv_def count_if_zero)
    moreover have "cState c \<noteq> StateActive" "cState c \<noteq> StateRetryWait" using none wait k c by auto
    ultimately show ?thesis by (cases "cState c") auto
  qed
  then have "filter (is_state StateCompleted) (sChunks s) = sChunks s" by simp
  then show ?thesis using inv by (simp add: sched_inv_def count_if_def)
qed

lemma next_not_blocked:
  assumes inv: "sched_inv 0 s" and none: "\<forall>k < length (sChunks s). \<not> active k s"
    and late: "waits_over now s"
  shows "snd (next_assignment now slot s) \<noteq> NABlock"
proof -
  let ?s = "cleanup now s"
  have ci: "sched_inv 0 ?s" by (rule cleanup_inv [OF inv])
  have same: "sChunks ?s = sChunks s" "sWorkers ?s = sWorkers s" by (auto simp: cleanup_def Let_def)
  have "count_if (is_state StateActive) (sChunks s) = 0"
    using none by (auto simp: count_if_zero in_set_conv_nth)
  then have act: "sActiveCount ?s < sEffectiveTarget ?s" using ci same by (simp add: sched_inv_def)
  have sup: "\<not> (in_range slot (sWorkers ?s) \<and> is_suppressed now (sWorkers ?s ! nat slot))"
    using late same by (auto simp: waits_over_def in_range_def)
  show ?thesis
  proof (cases "find_retryable_chunk now ?s")
    case (Some k)
    then show ?thesis
      using act sup by (auto simp: next_assignment_def try_assign_def Let_def split: option.split)
  next
    case None
    then have wait: "\<forall>c \<in> set (sChunks ?s). cState c \<noteq> StateRetryWait"
      using late same by (fastforce simp: find_retryable_chunk_def waits_over_def find_index_None)
    show ?thesis
    proof (cases "sNextUndispatched ?s < length (sChunks ?s)")
      case True
      then show ?thesis
        using act sup None by (auto simp: next_assignment_def try_assign_def Let_def split: option.split)
    next
      case False
      then have "sFatalErr ?s = None \<Longrightarrow> finished ?s"
        using all_states [OF ci _ wait] none same by simp
      then show ?thesis by (auto simp: next_assignment_def Let_def split: option.split)
    qed
  qed
qed

lemma idle_pool_moves:
  assumes live: "live_pool obj cs p" and idle: "\<forall>pc \<in> set (plWorkers p). idle pc"
    and w: "w < length (plWorkers p)" "plWorkers p ! w = PNext slot"
    and late: "waits_over now (jbSched (plJob p))"
  shows "moves (JStep w now inp) p"
proof -
  let ?s = "jbSched (plJob p)"
  have own: "owned p" and j: "file_job (plJob p)" using live by (auto simp: live_pool_def file_pool_def)
  have "\<forall>k < length (sChunks ?s). \<not> active k ?s"
  proof (intro allI impI)
    fix k assume k: "k < length (sChunks ?s)"
    have "holders k (plWorkers p) = 0" using idle by (auto simp: holders_def count_if_zero idle_no_chunk)
    then show "\<not> active k ?s" using own k by (auto simp: owned_def)
  qed
  then have "snd (next_assignment now slot ?s) \<noteq> NABlock"
    using j late by (intro next_not_blocked) (auto simp: file_job_def)
  then have "snd (worker_step now inp (PNext slot) (plJob p)) \<noteq> PNext slot"
    by (auto simp: take_assignment_def split: prod.split na_result.split job_sink.split)
  then show ?thesis
    using w by (auto simp: moves_def list_update_same_conv split: prod.split)
qed

section \<open>Executions\<close>

text \<open>The state of an unending schedule \<open>e\<close> after \<open>i\<close> events.\<close>

primrec pool_at :: "(nat \<Rightarrow> job_event) \<Rightarrow> pool \<Rightarrow> nat \<Rightarrow> pool" where
  "pool_at e p 0 = p"
| "pool_at e p (Suc i) = pool_apply (e i) (pool_at e p i)"

text \<open>What the environment answers fits where the worker is.\<close>

fun responds :: "step_input \<Rightarrow> worker_pc \<Rightarrow> bool" where
  "responds inp (PFetch slot k hedge) =
     (case inp of InOpenFails \<Rightarrow> True | InReadFails \<Rightarrow> True | InBody d \<Rightarrow> True | _ \<Rightarrow> False)"
| "responds inp (PPut slot k hedge data) = (case inp of InWrite fault \<Rightarrow> True | _ \<Rightarrow> False)"
| "responds inp (PSidecar slot k hedge) = (case inp of InSidecar w \<Rightarrow> True | _ \<Rightarrow> False)"
| "responds inp pc = True"

text \<open>Worker \<open>w\<close> gets an answered step at a time when nothing has to be waited for.\<close>

definition attends :: "nat \<Rightarrow> job_event \<Rightarrow> pool \<Rightarrow> bool" where
  "attends w e p =
     (case e of
        JStep w' now inp \<Rightarrow> w' = w \<and> responds inp (plWorkers p ! w) \<and> waits_over now (jbSched (plJob p))
      | _ \<Rightarrow> False)"

definition fair :: "(nat \<Rightarrow> job_event) \<Rightarrow> pool \<Rightarrow> bool" where
  "fair e p \<longleftrightarrow>
     (\<forall>w < length (plWorkers p). \<forall>i. \<exists>j \<ge> i. attends w (e j) (pool_at e p j))"

definition answered :: "bytes \<Rightarrow> (nat \<Rightarrow> job_event) \<Rightarrow> pool \<Rightarrow> bool" where
  "answered obj e p \<longleftrightarrow> (\<forall>i. answer_ok obj (e i) (pool_at e p i))"

lemma pool_at_live:
  assumes "live_pool obj cs p" and "answered obj e p"
  shows "live_pool obj cs (pool_at e p i)"
proof (induction i)
  case (Suc i)
  then show ?case using live_pool_apply [OF Suc] assms(2) by (simp add: answered_def)
qed (simp add: assms(1))

lemma pool_apply_workers: "length (plWorkers (pool_apply e p)) = length (plWorkers p)"
  by (cases e) (auto simp: writer_event_def split: job_sink.split prod.split)

lemma pool_at_workers: "length (plWorkers (pool_at e p i)) = length (plWorkers p)"
  by (induction i) (simp_all add: pool_apply_workers)

lemma job_inv_body:
  assumes "job_inv obj cs h j" and "k < length cs"
  shows "int (length (chunk_bytes obj (chunk_at j k))) = cLength (chunk_at j k)"
proof -
  have "tiled_from 0 cs (int (length obj))" using assms(1) by (simp add: job_inv_def)
  from tiled_from_bounds [OF this, of "cs ! k"] assms(2)
  have "length (chunk_bytes obj (cs ! k)) = nat (cLength (cs ! k))" "0 < cLength (cs ! k)"
    unfolding chunk_bytes_def by (auto intro!: length_subslice)
  then show ?thesis using job_inv_chunk(2,4) [OF assms] by simp
qed

text \<open>An attended worker that holds a chunk or is at its head moves.\<close>

lemma attended_moves:
  assumes live: "live_pool obj cs p" and ans: "answer_ok obj (JStep w now inp) p"
    and w: "w < length (plWorkers p)" "\<not> idle (plWorkers p ! w)"
    and r: "responds inp (plWorkers p ! w)"
  shows "moves (JStep w now inp) p"
proof -
  let ?pc = "plWorkers p ! w"
  obtain fs where fs: "jbSink (plJob p) = FileTo fs"
    using live by (auto simp: live_pool_def file_pool_def file_job_def)
  have mem: "?pc \<in> set (plWorkers p)" using w by simp
  have pc: "pc_file ?pc" using live mem by (simp add: live_pool_def file_pool_def)
  have "snd (worker_step now inp ?pc (plJob p)) \<noteq> ?pc"
  proof (cases ?pc)
    case (PFetch slot k hedge)
    obtain h where h: "job_inv obj cs h (plJob p)" "k < length cs"
      using live mem PFetch by (auto simp: live_pool_def pool_inv_def pc_ok_def)
    then show ?thesis
      using PFetch r ans w job_inv_body [OF h]
      by (cases inp) (auto simp: fetch_step_def answer_ok_def body_ok_def)
  next
    case (PPut slot k hedge data)
    then show ?thesis using r fs
      by (cases inp) (auto simp: put_step_def split: prod.split res.split)
  next
    case (PSidecar slot k hedge)
    then show ?thesis using r fs
      by (cases inp) (auto simp: sidecar_step_def split: prod.split res.split)
  qed (use w(2) pc fs live_pool_pc(1) [OF live mem] in \<open>auto simp: Let_def\<close>)
  then show ?thesis using w(1) by (auto simp: moves_def list_update_same_conv split: prod.split)
qed

text \<open>The measure cannot fall for ever.\<close>

lemma moves_end:
  assumes "file_pool p"
  shows "\<exists>n. \<forall>i \<ge> n. \<not> moves (e i) (pool_at e p i)"
proof -
  have fp: "file_pool (pool_at e p i)" for i
    by (induction i) (simp_all add: assms pool_apply_down(1))
  let ?m = "\<lambda>i. nat (job_measure (pool_at e p i))"
  have down: "job_measure (pool_at e p (Suc i)) + (if moves (e i) (pool_at e p i) then 1 else 0) \<le>
      job_measure (pool_at e p i)" for i
    using pool_apply_down(2) [OF fp] by simp
  have anti: "?m j \<le> ?m i" if "i \<le> j" for i j
  proof (rule lift_Suc_antimono_le [OF _ that])
    show "?m (Suc k) \<le> ?m k" for k using down [of k] by (intro nat_mono) (simp split: if_splits)
  qed
  obtain n where n: "\<And>i. ?m n \<le> ?m i" using ex_has_least_nat [of "\<lambda>i. True" 0 ?m] by blast
  have "\<not> moves (e i) (pool_at e p i)" if "n \<le> i" for i
  proof
    assume "moves (e i) (pool_at e p i)"
    then have "?m (Suc i) < ?m i"
      using down [of i] job_measure_nonneg [OF fp, of "Suc i"] by simp
    then show False using n [of "Suc i"] anti [OF that] by linarith
  qed
  then show ?thesis by blast
qed

lemma fair_ends:
  assumes live: "live_pool obj cs p" and ans: "answered obj e p" and fair: "fair e p"
  shows "\<exists>n. all_done (pool_at e p n)"
proof (rule ccontr)
  assume never: "\<not> (\<exists>n. all_done (pool_at e p n))"
  have lv: "live_pool obj cs (pool_at e p i)" for i by (rule pool_at_live [OF live ans])
  have aok: "answer_ok obj (e i) (pool_at e p i)" for i using ans by (simp add: answered_def)
  obtain n where n: "\<And>i. n \<le> i \<Longrightarrow> \<not> moves (e i) (pool_at e p i)"
    using moves_end [of p e] live by (auto simp: live_pool_def)
  let ?ws = "plWorkers (pool_at e p n)"
  have ws: "plWorkers (pool_at e p i) = ?ws" if "n \<le> i" for i
    using that by (induction i rule: dec_induct) (use n in \<open>auto simp: moves_def\<close>)
  have attend: "\<exists>j \<ge> n. \<exists>now inp. e j = JStep w now inp \<and> responds inp (?ws ! w) \<and>
      waits_over now (jbSched (plJob (pool_at e p j)))" if w: "w < length ?ws" for w
  proof -
    obtain j where j: "n \<le> j" "attends w (e j) (pool_at e p j)"
      using fair w pool_at_workers [of e p n] by (auto simp: fair_def)
    then show ?thesis using ws [OF j(1)] by (auto simp: attends_def split: job_event.splits)
  qed
  have idle: "idle (?ws ! w)" if w: "w < length ?ws" for w
  proof (rule ccontr)
    assume ni: "\<not> idle (?ws ! w)"
    obtain j now inp where j: "n \<le> j" "e j = JStep w now inp" "responds inp (?ws ! w)"
      using attend [OF w] by blast
    then have "moves (e j) (pool_at e p j)"
      using attended_moves [OF lv [of j], of w now inp] aok [of j] ws [OF j(1)] w ni by simp
    then show False using n [OF j(1)] by blast
  qed
  obtain w where w: "w < length ?ws" "\<not> worker_done (?ws ! w)"
    using never by (auto simp: all_done_def list_all_length)
  then obtain slot where slot: "?ws ! w = PNext slot" using idle [OF w(1)] by (cases "?ws ! w") auto
  obtain j now inp where j: "n \<le> j" "e j = JStep w now inp"
    "waits_over now (jbSched (plJob (pool_at e p j)))"
    using attend [OF w(1)] by blast
  have "\<forall>pc \<in> set ?ws. idle pc" using idle by (auto simp: in_set_conv_nth)
  then have "moves (JStep w now inp) (pool_at e p j)"
    using idle_pool_moves [OF lv [of j] _ _ _ j(3)] w(1) slot ws [OF j(1)] by simp
  then show False using n [OF j(1)] j(2) by simp
qed

section \<open>When nothing fails\<close>

definition smooth :: "job_event \<Rightarrow> bool" where
  "smooth e \<longleftrightarrow>
     (case e of
        JStep w now inp \<Rightarrow>
          (case inp of InCtxDone \<Rightarrow> False | InOpenFails \<Rightarrow> False | InReadFails \<Rightarrow> False
           | InWrite fault \<Rightarrow> fault = None | InSidecar w \<Rightarrow> w = WriteOk | _ \<Rightarrow> True)
      | JCancel \<Rightarrow> False
      | _ \<Rightarrow> True)"

fun unhurt :: "worker_pc \<Rightarrow> bool" where
  "unhurt (PAdmission slot k) = False"
| "unhurt (PRetry slot k) = False"
| "unhurt (PAbort slot k e) = False"
| "unhurt (PDone r) = (r = None)"
| "unhurt pc = True"

lemma unhurt_result: "unhurt pc \<Longrightarrow> worker_result pc = None"
  by (cases pc) simp_all

definition smooth_pool :: "pool \<Rightarrow> bool" where
  "smooth_pool p \<longleftrightarrow> \<not> sCancelled (jbSched (plJob p)) \<and> (\<forall>pc \<in> set (plWorkers p). unhurt pc)"

lemma write_part_ret:
  assumes "file_sound obj cs fs" and "of_plan cs c" and "int (length data) = cLength c"
  shows "fst (write_part None c data fs) = Ret ()"
  using write_part_off [OF assms(1,2)] assms(3) by (simp add: write_part_def Let_def)

lemma mark_part_ret:
  assumes fs: "file_sound obj cs fs" and c: "of_plan cs c"
    and safe: "chunk_safe obj (fsBaseOff fs) (fsData fs) c"
  shows "fst (mark_part now WriteOk c fs) = Ret ()"
proof (cases "fsSidecar fs")
  case (Some m)
  have m: "manager_sound obj cs (fsBaseOff fs) (fsData fs) m" using fs Some by (simp add: file_sound_def)
  have "fst (sc_mark_complete now WriteOk 0 (cIndex c) m) = Ret ()"
  proof (cases "mgState m")
    case (Some st)
    then obtain it where it: "stItems st = [it]" "item_sound obj cs (fsBaseOff fs) (fsData fs) it"
      using m by (auto simp: manager_sound_def)
    from item_sound_mark [OF it(2) c safe] obtain it' where "mark_item (cIndex c) it = Ret it'" .
    then show ?thesis
      using Some it
      by (simp add: sc_mark_complete_def in_range_def checkpoint_locked_def write_locked_def Let_def)
  qed (simp add: sc_mark_complete_def)
  then show ?thesis
    using Some by (auto simp: mark_part_def split: prod.split res.split)
qed (simp add: mark_part_def)

lemma next_assignment_calm:
  assumes "sched_inv h s" and "\<not> sCancelled s"
  shows "\<not> sCancelled (fst (next_assignment now slot s))"
    and "snd (next_assignment now slot s) \<noteq> NAErr e"
  using assms
  by (auto simp: next_assignment_def try_assign_def assign_chunk_def set_chunk_def cleanup_def
      sched_inv_def Let_def split: option.split prod.split)

lemma smooth_step:
  assumes live: "live_pool obj cs p" and sm: "smooth_pool p" and ans: "answer_ok obj e p"
    and e: "smooth e"
  shows "smooth_pool (pool_apply e p)"
proof (cases e)
  case (JStep w now inp)
  show ?thesis
  proof (cases "w < length (plWorkers p)")
    case True
    let ?pc = "plWorkers p ! w" and ?j = "plJob p"
    obtain j' pc' where st: "worker_step now inp ?pc ?j = (j', pc')" by fastforce
    obtain fs where fs: "jbSink ?j = FileTo fs" and inv: "sched_inv 0 (jbSched ?j)"
      using live by (auto simp: live_pool_def file_pool_def file_job_def)
    obtain h where h: "job_inv obj cs h ?j" using live by (auto simp: live_pool_def pool_inv_def)
    have mem: "?pc \<in> set (plWorkers p)" using True by simp
    have pc: "pc_file ?pc" "unhurt ?pc" "pc_ok obj cs (jbSink ?j) ?pc"
      using live sm mem by (auto simp: live_pool_def file_pool_def smooth_pool_def pool_inv_def)
    have calm: "\<not> sCancelled (jbSched ?j)" using sm by (simp add: smooth_pool_def)
    have g: "file_sound obj cs fs" using h fs by (simp add: job_inv_def)
    have "\<not> sCancelled (jbSched j') \<and> unhurt pc'"
    proof (cases ?pc)
      case (PFetch slot k hedge)
      then show ?thesis
        using st e JStep calm pc
        by (auto simp: PFetch fetch_step_def smooth_def split: step_input.splits if_splits)
    next
      case (PNext slot)
      obtain s r where na: "next_assignment now slot (jbSched ?j) = (s, r)" by fastforce
      then show ?thesis
        using PNext st fs pc(2) next_assignment_calm [OF inv calm, of now slot]
        by (cases r) (auto simp: take_assignment_def)
    next
      case (PPut slot k hedge data)
      then have k: "k < length cs" "data = chunk_bytes obj (chunk_at ?j k)"
        using pc(3) job_inv_chunk(4) [OF h] by (auto simp: pc_ok_def)
      have "fst (write_part None (chunk_at ?j k) data fs) = Ret ()"
        using write_part_ret [OF g job_inv_chunk(3) [OF h k(1)]] job_inv_body [OF h k(1)] k(2) by simp
      then show ?thesis
        using PPut st fs e JStep calm pc(2)
        by (auto simp: PPut put_step_def smooth_def split: step_input.splits prod.splits res.splits)
    next
      case (PSidecar slot k hedge)
      then have k: "k < length cs" "sink_safe obj cs (FileTo fs) k" using pc(3) fs by (auto simp: pc_ok_def)
      have "fst (mark_part now WriteOk (chunk_at ?j k) fs) = Ret ()"
        using mark_part_ret [OF g job_inv_chunk(3) [OF h k(1)]] k(2) job_inv_chunk(5) [OF h k(1)] by simp
      then show ?thesis
        using PSidecar st fs e JStep calm pc(2)
        by (auto simp: PSidecar sidecar_step_def smooth_def split: step_input.splits prod.splits res.splits if_splits)
    next
      case (PMark slot k)
      have "sCancelled (mark_complete now i s) = sCancelled s" for i s
        by (auto simp: mark_complete_def set_chunk_def record_chunk_duration_def Let_def)
      then show ?thesis using PMark st calm by (auto simp: on_sched_def)
    next
      case (PSuccess slot k)
      have "sCancelled (on_worker_success now slot b d s) = sCancelled s" for b d s
        by (auto simp: on_worker_success_def)
      then show ?thesis using PSuccess st calm by (auto simp: on_sched_def Let_def)
    qed (use st fs e JStep calm pc in \<open>auto simp: Let_def fetch_step_def smooth_def
        split: step_input.splits if_splits\<close>)
    moreover have "\<forall>pc \<in> set (plWorkers p). unhurt pc" using sm by (simp add: smooth_pool_def)
    ultimately show ?thesis
      using JStep True st set_update_subset_insert [of "plWorkers p" w pc']
      by (auto simp: smooth_pool_def)
  qed (use JStep sm in simp)
qed (use e sm live in \<open>auto simp: smooth_def smooth_pool_def writer_event_def live_pool_def
    file_pool_def file_job_def\<close>)

lemma smooth_at:
  assumes "live_pool obj cs p" and "answered obj e p" and "smooth_pool p" and "\<forall>i. smooth (e i)"
  shows "smooth_pool (pool_at e p i)"
proof (induction i)
  case (Suc i)
  show ?case
    using smooth_step [OF pool_at_live [OF assms(1,2)] Suc] assms(2,4) by (simp add: answered_def)
qed (simp add: assms(3))

text \<open>Workers that have all returned without error have completed the job.\<close>

lemma first_error_None: "first_error rs = None \<longleftrightarrow> (\<forall>r \<in> set rs. r = None)"
  by (induction rs rule: first_error.induct) auto

lemma no_error_success:
  assumes live: "live_pool obj cs p" and dn: "all_done p" and ws: "plWorkers p \<noteq> []"
    and ok: "\<forall>pc \<in> set (plWorkers p). worker_result pc = None" and arr: "\<forall>w \<in> set arrival. w < length (plWorkers p)"
  shows "run_workers_exit msg (worker_results arrival p) (jbSched (plJob p)) = ExitSuccess"
proof -
  obtain pc where pc: "pc \<in> set (plWorkers p)" using ws by (cases "plWorkers p") auto
  have "worker_done pc" using dn pc by (simp add: all_done_def list_all_iff)
  then have "pc = PDone None" using ok pc by (cases pc) auto
  then have "finished (jbSched (plJob p))" using live pc by (simp add: live_pool_def)
  moreover have "first_error (worker_results arrival p) = None"
    using ok arr by (auto simp: first_error_None worker_results_def)
  ultimately show ?thesis by (simp add: run_workers_exit_def sched_progress_def)
qed

section \<open>From the start of a job to its end\<close>

lemma file_start_live:
  assumes sz: "sized_for p r b obj cs" and conn: "1 \<le> epConnections p" and tries: "1 \<le> epMaxTries p"
    and doc: "doc_sound obj cs b file (mgFile m)"
    and ex: "file = (case seExisting env of None \<Rightarrow> [] | Some d \<Rightarrow> d)"
    and safe: "\<forall>k \<in> set ks. k < length cs \<longrightarrow> chunk_safe obj b file (cs ! k)"
    and pre: "prefix_completed (mark_completed ks cs)"
    and su: "parallel_file_setup p sha env url display dest r b ks m = Some (SetupRun fs chunks)"
    and st: "file_start p fs chunks = Some q0"
  shows "live_pool obj cs q0" and "jbSink (plJob q0) = FileTo fs" and "smooth_pool q0"
    and "length (plWorkers q0) = nat (epConnections p)"
    and "job_measure q0 = 7 * (int (length cs) * epMaxTries p) + 2 * epConnections p"
proof -
  note run = parallel_file_setup_sound [OF sz doc ex safe su]
  note q0 = file_start_inv [OF sz conn doc ex safe pre su st]
  have pl: "plan_ok (epSplitSize p) (prSize r)" "plan (epSplitSize p) (prSize r) = Some cs"
    using sz unfolding sized_for_def by blast+
  note fp = file_start_pool [OF pl conn tries pre st [unfolded run(4)]]
  show "jbSink (plJob q0) = FileTo fs" by (rule q0(2))
  show "length (plWorkers q0) = nat (epConnections p)" by (rule fp(4))
  show "job_measure q0 = 7 * (int (length cs) * epMaxTries p) + 2 * epConnections p" by (rule fp(2))
  obtain s where s: "sched_new (file_config p) (mark_completed ks cs) False = Some s"
    "q0 = pool_start p s (FileTo fs)"
    using st run(4) by (auto simp: file_start_def)
  have ch: "sChunks s = mark_completed ks cs" "\<not> sCancelled s"
    using s(1) by (auto simp: sched_new_def split: if_splits option.splits)
  have "\<forall>c \<in> set (mark_completed ks cs). cState c \<noteq> StateActive"
    using sized_for_plan(1) [OF sz] by (auto simp: mark_completed_def in_set_conv_nth)
  then have "owned q0" using fp(3) ch(1) s(2)
    by (auto simp: owned_def holders_def pool_start_def count_if_zero)
  then show "live_pool obj cs q0" using q0(1) fp(1,3) by (auto simp: live_pool_def)
  show "smooth_pool q0" using fp(3) ch(2) s(2) by (auto simp: smooth_pool_def pool_start_def)
qed

lemma pool_at_run: "pool_at e p i = pool_run (map e [0..<i]) p"
  by (induction i) (simp_all add: pool_run_append)

lemma answered_answers: "answered obj e p \<Longrightarrow> answers obj (map e [0..<i]) p"
  by (induction i) (simp_all add: answers_append answered_def pool_at_run)

lemma file_content:
  assumes sz: "sized_for p r b obj cs" and inv: "pool_inv obj cs q0"
    and fs: "jbSink (plJob q0) = FileTo fs" "fsBaseOff fs = b" "fsSidecar fs \<noteq> None"
    and ans: "answers obj es q0"
    and ok: "run_workers_exit msg results (jbSched (plJob (pool_run es q0))) = ExitSuccess"
  shows "\<exists>fs'. jbSink (plJob (pool_run es q0)) = FileTo fs' \<and> fsData fs' = write_at (fsData fs) b obj"
proof -
  have "sink_base (jbSink (plJob (pool_run es q0))) = Some b" using fs by (simp add: pool_run_base)
  then obtain fs' where fs': "jbSink (plJob (pool_run es q0)) = FileTo fs'" "fsBaseOff fs' = b"
    by (cases "jbSink (plJob (pool_run es q0))") auto
  have "\<forall>c \<in> set cs. range_ok obj b (fsData fs') (cStart c) (cStart c + cLength c)"
    using pool_success [OF pool_run_inv [OF inv ans] ok] fs'
    by (auto simp: in_set_conv_nth chunk_safe_def)
  then have all: "range_ok obj b (fsData fs') 0 (int (length obj))"
    by (rule range_ok_tiled [OF sized_for_plan(2) [OF sz]])
  have "sink_kept (fsData fs) (int (length obj)) (jbSink (plJob (pool_run es q0)))"
    using fs by (intro pool_run_kept [OF inv ans]) simp
  then have "framed (fsData fs) b (int (length obj)) (fsData fs')" using fs' by simp
  moreover have "0 \<le> b" "obj \<noteq> []" using sz by (auto simp: sized_for_def plan_ok_def)
  ultimately show ?thesis using framed_complete [OF _ all] fs'(1) by blast
qed

section \<open>Every complete run is part of a fair execution\<close>

definition then_idle :: "job_event list \<Rightarrow> nat \<Rightarrow> gtime \<Rightarrow> nat \<Rightarrow> job_event" where
  "then_idle es n t i = (if i < length es then es ! i else JStep (i mod n) t InOk)"

lemma then_idle_prefix: "i \<le> length es \<Longrightarrow> pool_at (then_idle es n t) p i = pool_run (take i es) p"
proof -
  assume i: "i \<le> length es"
  have "map (then_idle es n t) [0..<i] = take i es"
    using i by (intro nth_equalityI) (simp_all add: then_idle_def)
  then show ?thesis by (simp add: pool_at_run)
qed

lemma done_stays: "all_done p \<Longrightarrow> pool_apply (JStep w t inp) p = p"
proof -
  assume d: "all_done p"
  show ?thesis
  proof (cases "w < length (plWorkers p)")
    case True
    then have "worker_done (plWorkers p ! w)" using d by (simp add: all_done_def list_all_length)
    then obtain r where "plWorkers p ! w = PDone r" by (cases "plWorkers p ! w") auto
    then show ?thesis using True by (auto simp: list_update_same_conv)
  qed simp
qed

lemma then_idle_end:
  assumes "all_done (pool_run es p)" and "length es \<le> i"
  shows "pool_at (then_idle es n t) p i = pool_run es p"
  using assms(2)
proof (induction i rule: dec_induct)
  case base
  show ?case by (simp add: then_idle_prefix)
next
  case (step i)
  then show ?case using done_stays [OF assms(1)] by (simp add: then_idle_def)
qed

lemma then_idle_fair:
  assumes dn: "all_done (pool_run es p)" and late: "waits_over t (jbSched (plJob (pool_run es p)))"
    and n: "n = length (plWorkers p)"
  shows "fair (then_idle es n t) p"
  unfolding fair_def
proof (intro allI impI)
  fix w i assume w: "w < length (plWorkers p)"
  let ?j = "(length es + i) * n + w"
  have "0 < n" using w n by linarith
  then have j: "length es + i \<le> ?j" by (cases n) auto
  then have at: "pool_at (then_idle es n t) p ?j = pool_run es p"
    by (intro then_idle_end [OF dn]) simp
  have "w < length (plWorkers (pool_run es p))" using w at pool_at_workers by metis
  then have "worker_done (plWorkers (pool_run es p) ! w)" using dn by (simp add: all_done_def list_all_length)
  then have "responds InOk (plWorkers (pool_run es p) ! w)" by (cases "plWorkers (pool_run es p) ! w") auto
  moreover have "then_idle es n t ?j = JStep w t InOk" using j w n by (simp add: then_idle_def)
  ultimately show "\<exists>j \<ge> i. attends w (then_idle es n t j) (pool_at (then_idle es n t) p j)"
    using j late at by (intro exI [of _ ?j]) (simp add: attends_def)
qed

lemma answers_nth: "answers obj es p \<Longrightarrow> i < length es \<Longrightarrow> answer_ok obj (es ! i) (pool_run (take i es) p)"
  by (induction es arbitrary: p i) (auto simp: less_Suc_eq_0_disj)

lemma then_idle_answered:
  assumes "answers obj es p"
  shows "answered obj (then_idle es n t) p"
  unfolding answered_def
proof
  fix i
  show "answer_ok obj (then_idle es n t i) (pool_at (then_idle es n t) p i)"
    using answers_nth [OF assms, of i]
    by (cases "i < length es") (auto simp: then_idle_prefix then_idle_def answer_ok_def body_ok_def)
qed

lemma then_idle_smooth: "list_all smooth es \<Longrightarrow> smooth (then_idle es n t i)"
  by (auto simp: then_idle_def list_all_length smooth_def)

end
