(* ===== verification/Job_Live_Props.thy ===== *)
theory Job_Live_Props
  imports Job_Live Job_Exec_Props
begin

text \<open>
  Termination of parallel file downloads: a bound on the moves of any run, the end of every fair
  execution, and the success of every fair execution in which nothing fails. The concrete
  execution of the witnesses is a complete run that goes on with idle steps for ever.
\<close>

section \<open>A concrete execution\<close>

definition demo_full_events :: "job_event list" where
  "demo_full_events = demo_job_events @
     concat (map (\<lambda>w. [JStep w (20 + 2 * int w) InOk, JStep w (21 + 2 * int w) InOk]) [0..<8])"

definition demo_execution :: "nat \<Rightarrow> job_event" where
  "demo_execution = then_idle demo_full_events 8 100"

definition demo_fs :: file_sink where
  "demo_fs = the (setup_fs demo_setup)"

lemma demo_full_run:
  "answers demo_obj demo_full_events demo_pool \<and> all_done (pool_run demo_full_events demo_pool) \<and>
   waits_over 100 (jbSched (plJob (pool_run demo_full_events demo_pool)))"
  by code_simp

lemma demo_file_start:
  obtains chunks where
    "parallel_file_setup (demo_plan 2) demo_sha demo_env ''u'' ''u'' ''f'' demo_probe 0 []
       (new_manager ''f'' None None) = Some (SetupRun demo_fs chunks)"
    and "file_start (demo_plan 2) demo_fs chunks = Some demo_pool"
proof -
  let ?cs = "map (plan_chunk 2 4) [0..<2]"
  obtain fs chunks where su: "demo_setup = Some (SetupRun fs chunks)" using demo_setup_run by blast
  have fs: "demo_fs = fs" by (simp add: demo_fs_def su)
  have doc: "doc_sound demo_obj ?cs 0 (case seExisting demo_env of None \<Rightarrow> [] | Some d \<Rightarrow> d)
      (mgFile (new_manager ''f'' None None))" by (simp add: new_manager_def)
  have ch: "chunks = mark_completed [] ?cs"
    by (rule parallel_file_setup_sound(4) [OF demo_sized doc refl _ su [unfolded demo_setup_def]]) simp
  have "file_start (demo_plan 2) fs chunks \<noteq> None"
    by (simp add: file_start_def sched_new_def initial_target_def file_config_def demo_plan_def
        default_plan_def default_connections_def Let_def)
  then obtain q where q: "file_start (demo_plan 2) fs chunks = Some q" by blast
  have "demo_pool = q" unfolding demo_pool_def su using q ch by simp
  then show ?thesis using that [of chunks] su q by (simp add: demo_setup_def fs)
qed

lemma demo_conditions:
  "1 \<le> epConnections (demo_plan 2)" "1 \<le> epMaxTries (demo_plan 2)"
  "doc_sound demo_obj (map (plan_chunk 2 4) [0..<2]) 0 (case seExisting demo_env of None \<Rightarrow> [] | Some d \<Rightarrow> d)
     (mgFile (new_manager ''f'' None None))"
  "prefix_completed (mark_completed [] (map (plan_chunk 2 4) [0..<2]))"
  by (simp_all add: demo_plan_def default_plan_def default_connections_def default_max_tries_def
      new_manager_def all_pending_prefix all_pending_def mark_completed_def list_all_iff)

lemma demo_execution_fair:
  "answered demo_obj demo_execution demo_pool" "fair demo_execution demo_pool"
proof -
  have "8 = length (plWorkers demo_pool)" by code_simp
  then show "answered demo_obj demo_execution demo_pool" "fair demo_execution demo_pool"
    unfolding demo_execution_def using demo_full_run
    by (simp_all add: then_idle_answered then_idle_fair)
qed

section \<open>Properties\<close>

text \<open>C33: However its workers interleave, whatever the network, the disk and the sidecar answer, and
  even when it is cancelled or killed, a parallel file job makes at most seven moves per chunk
  and allowed try and two per connection: nobody retries for ever. Every other step leaves its
  worker waiting where it is.\<close>

theorem file_moves_bounded:
  assumes "plan_ok (epSplitSize p) n" and "plan (epSplitSize p) n = Some cs"
    and "1 \<le> epConnections p" and "1 \<le> epMaxTries p"
    and "prefix_completed (mark_completed ks cs)"
    and "file_start p fs (mark_completed ks cs) = Some q0"
  shows "int (count_moves es q0) \<le> 7 * (int (length cs) * epMaxTries p) + 2 * epConnections p"
proof -
  note q0 = file_start_pool [OF assms]
  note run = count_moves_measure [OF q0(1), of es]
  have "0 \<le> job_measure (pool_run es q0)" using run job_measure_nonneg by blast
  then show ?thesis using run q0(2) by linarith
qed

theorem file_moves_bounded_witness:
  "int (count_moves demo_full_events demo_pool) \<le>
     7 * (2 * epMaxTries (demo_plan 2)) + 2 * epConnections (demo_plan 2)"
proof -
  let ?cs = "map (plan_chunk 2 4) [0..<2]"
  obtain chunks where st:
    "parallel_file_setup (demo_plan 2) demo_sha demo_env ''u'' ''u'' ''f'' demo_probe 0 []
       (new_manager ''f'' None None) = Some (SetupRun demo_fs chunks)"
    "file_start (demo_plan 2) demo_fs chunks = Some demo_pool"
    by (rule demo_file_start)
  have "chunks = mark_completed [] ?cs"
    by (rule parallel_file_setup_sound(4) [OF demo_sized demo_conditions(3) refl _ st(1)]) simp
  moreover have "plan_ok (epSplitSize (demo_plan 2)) (prSize demo_probe)"
    "plan (epSplitSize (demo_plan 2)) (prSize demo_probe) = Some ?cs"
    using demo_sized unfolding sized_for_def by blast+
  ultimately show ?thesis
    using file_moves_bounded [OF _ _ demo_conditions(1,2,4), of "prSize demo_probe" demo_fs demo_pool
        demo_full_events] st(2)
    by simp
qed

text \<open>C3: No deadlock and no livelock: a parallel file job, fresh or resumed from a completed
  prefix, returns in every fair execution, that is, when every worker again and again gets
  answers at times when the retry delays and suppressions are over. The waits on the condition
  variable never become permanent.\<close>

theorem file_job_returns:
  assumes "sized_for p r b obj cs" and "1 \<le> epConnections p" and "1 \<le> epMaxTries p"
    and "doc_sound obj cs b (case seExisting env of None \<Rightarrow> [] | Some d \<Rightarrow> d) (mgFile m)"
    and "\<forall>k \<in> set ks. k < length cs \<longrightarrow>
      chunk_safe obj b (case seExisting env of None \<Rightarrow> [] | Some d \<Rightarrow> d) (cs ! k)"
    and "prefix_completed (mark_completed ks cs)"
    and "parallel_file_setup p sha env url display dest r b ks m = Some (SetupRun fs chunks)"
    and "file_start p fs chunks = Some q0" and "answered obj e q0" and "fair e q0"
  shows "\<exists>n. all_done (pool_at e q0 n)"
  by (rule fair_ends [OF file_start_live(1) [OF assms(1-4) refl assms(5-8)] assms(9,10)])

theorem file_job_returns_witness: "\<exists>n. all_done (pool_at demo_execution demo_pool n)"
proof -
  obtain chunks where st:
    "parallel_file_setup (demo_plan 2) demo_sha demo_env ''u'' ''u'' ''f'' demo_probe 0 []
       (new_manager ''f'' None None) = Some (SetupRun demo_fs chunks)"
    "file_start (demo_plan 2) demo_fs chunks = Some demo_pool"
    by (rule demo_file_start)
  show ?thesis
    by (rule file_job_returns [OF demo_sized demo_conditions(1-3) _ demo_conditions(4) st
          demo_execution_fair]) simp
qed

text \<open>C2: Total correctness: when in addition no request, read, write or checkpoint fails and
  nobody cancels, the job comes to its end with exit code success, for every order in which the
  workers' results arrive, and its file is the old content with the object written at the
  output offset.\<close>

theorem smooth_job_completes:
  assumes "sized_for p r b obj cs" and "1 \<le> epConnections p" and "1 \<le> epMaxTries p"
    and "doc_sound obj cs b (case seExisting env of None \<Rightarrow> [] | Some d \<Rightarrow> d) (mgFile m)"
    and "\<forall>k \<in> set ks. k < length cs \<longrightarrow>
      chunk_safe obj b (case seExisting env of None \<Rightarrow> [] | Some d \<Rightarrow> d) (cs ! k)"
    and "prefix_completed (mark_completed ks cs)"
    and "parallel_file_setup p sha env url display dest r b ks m = Some (SetupRun fs chunks)"
    and "file_start p fs chunks = Some q0" and "answered obj e q0" and "fair e q0"
    and "\<forall>i. smooth (e i)" and "\<forall>w \<in> set arrival. w < nat (epConnections p)"
  shows "\<exists>n fs'. all_done (pool_at e q0 n) \<and>
    run_workers_exit msg (worker_results arrival (pool_at e q0 n)) (jbSched (plJob (pool_at e q0 n))) =
      ExitSuccess \<and>
    jbSink (plJob (pool_at e q0 n)) = FileTo fs' \<and>
    fsData fs' = write_at (case seExisting env of None \<Rightarrow> [] | Some d \<Rightarrow> d) b obj"
proof -
  note su = parallel_file_setup_sound [OF assms(1,4) refl assms(5,7)]
  note q0 = file_start_live [OF assms(1-4) refl assms(5-8)]
  obtain n where n: "all_done (pool_at e q0 n)" using fair_ends [OF q0(1) assms(9,10)] by blast
  let ?q = "pool_at e q0 n"
  have live: "live_pool obj cs ?q" by (rule pool_at_live [OF q0(1) assms(9)])
  have len: "length (plWorkers ?q) = nat (epConnections p)" by (simp add: pool_at_workers q0(4))
  have "smooth_pool ?q" by (rule smooth_at [OF q0(1) assms(9) q0(3) assms(11)])
  then have "\<forall>pc \<in> set (plWorkers ?q). worker_result pc = None"
    by (simp add: smooth_pool_def unhurt_result)
  moreover have "plWorkers ?q \<noteq> []" using len assms(2) by auto
  ultimately have ok: "run_workers_exit msg (worker_results arrival ?q) (jbSched (plJob ?q)) = ExitSuccess"
    using no_error_success [OF live n] assms(12) len by simp
  obtain fs' where "jbSink (plJob ?q) = FileTo fs'" "fsData fs' = write_at (fsData fs) b obj"
    using file_content [OF assms(1) _ q0(2) su(3) setup_run_sidecar [OF assms(7)]
        answered_answers [OF assms(9), of n]] q0(1) ok
    by (auto simp: live_pool_def pool_at_run)
  then show ?thesis using n ok su(2) by (intro exI [of _ n] exI [of _ fs']) simp
qed

theorem smooth_job_completes_witness:
  "\<exists>n fs'. all_done (pool_at demo_execution demo_pool n) \<and>
     jbSink (plJob (pool_at demo_execution demo_pool n)) = FileTo fs' \<and> fsData fs' = demo_obj"
proof -
  obtain chunks where st:
    "parallel_file_setup (demo_plan 2) demo_sha demo_env ''u'' ''u'' ''f'' demo_probe 0 []
       (new_manager ''f'' None None) = Some (SetupRun demo_fs chunks)"
    "file_start (demo_plan 2) demo_fs chunks = Some demo_pool"
    by (rule demo_file_start)
  have "list_all smooth demo_full_events" by code_simp
  then have sm: "\<forall>i. smooth (demo_execution i)" by (simp add: demo_execution_def then_idle_smooth)
  have "write_at (case seExisting demo_env of None \<Rightarrow> [] | Some d \<Rightarrow> d) 0 demo_obj = demo_obj"
    by code_simp
  with smooth_job_completes [OF demo_sized demo_conditions(1-3) _ demo_conditions(4) st
      demo_execution_fair sm, of "[]" "\<lambda>e. []"]
  show ?thesis by auto
qed

end
