(* ===== verification/Job_Monitor.thy ===== *)
theory Job_Monitor
  imports Job_Live Progress_Props
begin

text \<open>
  The progress display of the parallel downloads in \<open>internal/job/runner.go\<close>: the bar that is
  set up before the workers start, the monitor that shows it the count of received bytes at
  every tick, and the summary. The count is exact in a file job: the bytes of the chunks that
  were completed in this run, and of those whose worker is about to report them.
\<close>

section \<open>The monitored job\<close>

text \<open>\<open>tty\<close> is what the reporter finds out about the standard error output.\<close>

definition job_bar ::
  "gtime \<Rightarrow> bool \<Rightarrow> execution_plan \<Rightarrow> string \<Rightarrow> probe_result \<Rightarrow> progress_bar option" where
  "job_bar now tty p displayURL r =
     (let reporter = new_reporter tty (epQuiet p) (epNoVerbose p) (epProgressType p)
      in if prSize r > 0
         then Some (set_conn_fn (new_progress_bar now reporter (prSize r) (progress_label displayURL)
                (epConnections p)))
         else None)"

record watched =
  waPool :: pool
  waBar :: "progress_bar option"
  waOut :: string

definition watch_start :: "pool \<Rightarrow> progress_bar option \<Rightarrow> watched" where
  "watch_start q bar = \<lparr>waPool = q, waBar = bar, waOut = []\<rparr>"

text \<open>\<open>Tick\<close> is a tick of the monitor, with two readings of the clock and the width of the
  terminal.\<close>

datatype watch_event = Work net_event | Tick gtime gtime int

definition monitor_tick :: "gtime \<Rightarrow> gtime \<Rightarrow> int \<Rightarrow> watched \<Rightarrow> watched" where
  "monitor_tick now now' tw w =
     (case waBar w of
        None \<Rightarrow> w
      | Some b \<Rightarrow>
          (case update_bar now now' (active_count (jbSched (plJob (waPool w)))) tw
                  (jbProgress (plJob (waPool w))) b of
             (out, b') \<Rightarrow> w\<lparr>waBar := Some b', waOut := waOut w @ out\<rparr>))"

fun watch_apply :: "string \<Rightarrow> string \<Rightarrow> request_options \<Rightarrow> watch_event \<Rightarrow> watched \<Rightarrow> watched" where
  "watch_apply url v opts (Work e) w = w\<lparr>waPool := net_apply url v opts e (waPool w)\<rparr>"
| "watch_apply url v opts (Tick now now' tw) w = monitor_tick now now' tw w"

definition watch_run ::
  "string \<Rightarrow> string \<Rightarrow> request_options \<Rightarrow> watch_event list \<Rightarrow> watched \<Rightarrow> watched" where
  "watch_run url v opts es w = fold (watch_apply url v opts) es w"

text \<open>The summary, once the workers have returned.\<close>

definition watch_end :: "gtime \<Rightarrow> gtime \<Rightarrow> int \<Rightarrow> watched \<Rightarrow> string" where
  "watch_end now now' tw w =
     (case waBar w of
        None \<Rightarrow> waOut w
      | Some b \<Rightarrow> waOut w @ done_bar now now' (active_count (jbSched (plJob (waPool w)))) tw b)"

fun works :: "watch_event list \<Rightarrow> net_event list" where
  "works [] = []"
| "works (Work e # es) = e # works es"
| "works (Tick now now' tw # es) = works es"

text \<open>The display never acts on the download.\<close>

lemma watch_run_pool: "waPool (watch_run url v opts es w) = net_run url v opts (works es) (waPool w)"
proof (induction es arbitrary: w)
  case (Cons e es)
  show ?case
  proof (cases e)
    case (Tick now now' tw)
    have "waPool (monitor_tick now now' tw w) = waPool w"
      by (auto simp: monitor_tick_def split: option.split prod.split)
    then show ?thesis using Cons Tick by (simp add: watch_run_def)
  qed (use Cons in \<open>simp add: watch_run_def net_run_def\<close>)
qed (simp add: watch_run_def net_run_def)

section \<open>What is counted\<close>

definition done_len :: "sched \<Rightarrow> int" where
  "done_len s = (\<Sum>c\<leftarrow>sChunks s. if cState c = StateCompleted then cLength c else 0)"

fun mark_len :: "sched \<Rightarrow> worker_pc \<Rightarrow> int" where
  "mark_len s (PMark slot k) = cLength (sChunks s ! k)"
| "mark_len s pc = 0"

definition counts :: "int \<Rightarrow> pool \<Rightarrow> bool" where
  "counts base p \<longleftrightarrow>
     base \<le> done_len (jbSched (plJob p)) \<and>
     jbProgress (plJob p) =
       done_len (jbSched (plJob p)) - base + (\<Sum>pc\<leftarrow>plWorkers p. mark_len (jbSched (plJob p)) pc)"

lemma layout_len: "layout s' = layout s \<Longrightarrow> k < length (sChunks s) \<Longrightarrow> cLength (sChunks s' ! k) = cLength (sChunks s ! k)"
proof -
  assume l: "layout s' = layout s" and k: "k < length (sChunks s)"
  have "length (sChunks s') = length (sChunks s)" using arg_cong [OF l, of length] by (simp add: layout_def)
  moreover have "layout s' ! k = layout s ! k" using l by simp
  ultimately show ?thesis using k by (simp add: layout_def)
qed

lemma mark_len_layout:
  "layout s' = layout s \<Longrightarrow> (\<And>k. pc_chunk pc = Some k \<Longrightarrow> k < length (sChunks s)) \<Longrightarrow>
     mark_len s' pc = mark_len s pc"
  by (cases pc) (auto intro: layout_len)

lemma done_len_keep:
  "done_len (mark_failed now idx retryable s) = done_len s"
  "done_len (on_admission_failure now slot s) = done_len s"
  "done_len (on_worker_success now slot b d s) = done_len s"
  "done_len (sched_cancel s) = done_len s"
  "done_len (cleanup now s) = done_len s"
  by (auto simp: done_len_def mark_failed_def on_admission_failure_def on_worker_success_def
      sched_cancel_def set_chunk_def cleanup_def Let_def in_range_def intro!: sum_list_keep)

lemma done_len_assign:
  assumes inv: "sched_inv h s" and na: "next_assignment now slot s = (s', r)"
  shows "done_len s' = done_len s"
proof (cases "\<exists>k. r = NAAssign k")
  case True
  then obtain k where k: "r = NAAssign k" by blast
  then have ta: "try_assign now slot (cleanup now s) = (s', Some k)"
    using next_assignment_Assign [of now slot s k] na by simp
  note ts = try_assign_Some [OF cleanup_inv [OF inv] ta]
  have "done_len s' = done_len (cleanup now s)"
    unfolding done_len_def ts(3) by (rule sum_list_keep [OF ts(1)]) (use ts(2) in auto)
  then show ?thesis by (simp add: done_len_keep)
next
  case False
  with next_assignment_idle [OF na] show ?thesis by (auto simp: done_len_keep)
qed

lemma done_len_complete:
  assumes "k < length (sChunks s)" and "active k s"
  shows "done_len (mark_complete now (int k) s) = done_len s + cLength (sChunks s ! k)"
  using assms
  by (auto simp: done_len_def mark_complete_def record_chunk_duration_def set_chunk_def Let_def
      in_range_def sum_list_change)

text \<open>One step of a worker.\<close>

definition counts_step :: "job \<Rightarrow> worker_pc \<Rightarrow> job \<times> worker_pc \<Rightarrow> bool" where
  "counts_step j pc r \<longleftrightarrow>
     layout (jbSched (fst r)) = layout (jbSched j) \<and>
     (done_len (jbSched j) \<le> done_len (jbSched (fst r)) \<and>
      done_len (jbSched (fst r)) + mark_len (jbSched j) (snd r) = done_len (jbSched j) + mark_len (jbSched j) pc \<and>
      jbProgress (fst r) = jbProgress j \<or>
      (\<exists>slot k. pc = PSuccess slot k \<and> snd r = PMark slot k \<and>
         done_len (jbSched (fst r)) = done_len (jbSched j) \<and>
         jbProgress (fst r) = i64 (jbProgress j + cLength (chunk_at j k))))"

lemma counts_step_same:
  "jbSched j' = jbSched j \<Longrightarrow> jbProgress j' = jbProgress j \<Longrightarrow>
     mark_len (jbSched j) pc' = mark_len (jbSched j) pc \<Longrightarrow> counts_step j pc (j', pc')"
  by (simp add: counts_step_def)

lemma worker_step_counts:
  assumes j: "file_job j" and pc: "pc_file pc"
    and k: "\<And>k. pc_chunk pc = Some k \<Longrightarrow>
      k < length (sChunks (jbSched j)) \<and> active k (jbSched j) \<and> cIndex (chunk_at j k) = int k"
    and pos: "\<forall>c \<in> set (sChunks (jbSched j)). 0 < cLength c"
    and st: "worker_step now inp pc j = (j', pc')"
  shows "counts_step j pc (j', pc')"
proof -
  obtain fs where fs: "jbSink j = FileTo fs" and inv: "sched_inv 0 (jbSched j)"
    using j by (auto simp: file_job_def)
  note same = counts_step_same
  show ?thesis
  proof (cases pc)
    case (PTop slot)
    then show ?thesis using st fs by (auto simp: Let_def intro!: same split: if_splits)
  next
    case (PNext slot)
    obtain s r where na: "next_assignment now slot (jbSched j) = (s, r)" by fastforce
    then have "j' = j\<lparr>jbSched := s\<rparr>" "pc' = take_assignment slot j r" using PNext st by auto
    then show ?thesis
      using done_len_assign [OF inv na] layout_ops(1) [of now slot "jbSched j"] na PNext fs
      by (auto simp: counts_step_def take_assignment_def split: na_result.split)
  next
    case (PFetch slot k hedge)
    then show ?thesis using st by (auto simp: fetch_step_def intro!: same
        split: step_input.splits if_splits)
  next
    case (PPut slot k hedge data)
    then show ?thesis
      using st fs by (auto simp: put_step_def intro!: same split: step_input.splits prod.splits res.splits)
  next
    case (PSidecar slot k hedge)
    then show ?thesis
      using st fs by (auto simp: sidecar_step_def intro!: same
          split: step_input.splits prod.splits res.splits if_splits)
  next
    case (PSuccess slot k)
    then show ?thesis
      using st by (auto simp: counts_step_def on_sched_def Let_def layout_ops done_len_keep)
  next
    case (PMark slot i)
    have "0 < cLength (sChunks (jbSched j) ! i)" using k [of i] pos PMark by simp
    then show ?thesis
      using st PMark k [of i] done_len_complete [of i "jbSched j" now]
      by (auto simp: counts_step_def on_sched_def layout_ops)
  qed (use pc st in \<open>auto simp: counts_step_def on_sched_def layout_ops done_len_keep\<close>)
qed

section \<open>The count never exceeds the object\<close>

definition held_len :: "sched \<Rightarrow> worker_pc \<Rightarrow> int" where
  "held_len s pc = (case pc_chunk pc of None \<Rightarrow> 0 | Some k \<Rightarrow> cLength (sChunks s ! k))"

lemma count_if_mono: "(\<And>x. P x \<Longrightarrow> Q x) \<Longrightarrow> count_if P xs \<le> count_if Q xs"
  by (induction xs) auto

lemma sum_by_chunk:
  assumes "\<forall>pc \<in> set ws. \<forall>k. g pc = Some k \<longrightarrow> k < (n :: nat)"
  shows "(\<Sum>pc\<leftarrow>ws. case g pc of None \<Rightarrow> 0 | Some k \<Rightarrow> f k) =
    (\<Sum>k = 0..<n. int (count_if (\<lambda>pc. g pc = Some k) ws) * f k)"
  using assms
proof (induction ws)
  case (Cons pc ws)
  have "(\<Sum>k = 0..<n. int (count_if (\<lambda>pc. g pc = Some k) (pc # ws)) * f k) =
      (\<Sum>k = 0..<n. (if g pc = Some k then f k else 0) + int (count_if (\<lambda>pc. g pc = Some k) ws) * f k)"
    by (intro sum.cong) (auto simp: algebra_simps)
  also have "\<dots> = (\<Sum>k = 0..<n. if g pc = Some k then f k else 0) +
      (\<Sum>k = 0..<n. int (count_if (\<lambda>pc. g pc = Some k) ws) * f k)"
    by (rule sum.distrib)
  also have "(\<Sum>k = 0..<n. if g pc = Some k then f k else 0) =
      (case g pc of None \<Rightarrow> 0 | Some k \<Rightarrow> f k)"
    using Cons.prems by (cases "g pc") (auto simp: sum.delta')
  finally show ?case using Cons by simp
qed simp

lemma tiled_from_sum: "tiled_from a cs b \<Longrightarrow> (\<Sum>c\<leftarrow>cs. cLength c) = b - a"
  by (induction cs arbitrary: a) fastforce+

lemma live_pool_lengths:
  assumes "live_pool obj cs p"
  shows "\<forall>c \<in> set (sChunks (jbSched (plJob p))). 0 < cLength c"
    and "(\<Sum>c\<leftarrow>sChunks (jbSched (plJob p)). cLength c) = int (length obj)"
proof -
  let ?s = "jbSched (plJob p)"
  obtain h where h: "job_inv obj cs h (plJob p)" using assms by (auto simp: live_pool_def pool_inv_def)
  have tl: "tiled_from 0 cs (int (length obj))" using h by (simp add: job_inv_def)
  have l: "layout ?s = map (\<lambda>c. (cIndex c, cStart c, cLength c)) cs" using h by (simp add: job_inv_def)
  have "map cLength (sChunks ?s) = map (\<lambda>x. snd (snd x)) (layout ?s)" by (simp add: layout_def)
  then have m: "map cLength (sChunks ?s) = map cLength cs" unfolding l by simp
  then show "(\<Sum>c\<leftarrow>sChunks ?s. cLength c) = int (length obj)" using tiled_from_sum [OF tl] by simp
  have "cLength ` set (sChunks ?s) = cLength ` set cs" using m by (metis list.set_map)
  then show "\<forall>c \<in> set (sChunks ?s). 0 < cLength c" using tiled_from_bounds [OF tl] by force
qed

lemma done_held:
  assumes live: "live_pool obj cs p"
  shows "done_len (jbSched (plJob p)) + (\<Sum>pc\<leftarrow>plWorkers p. held_len (jbSched (plJob p)) pc) \<le> int (length obj)"
proof -
  let ?s = "jbSched (plJob p)" and ?n = "length (sChunks (jbSched (plJob p)))"
  let ?L = "\<lambda>k. cLength (sChunks ?s ! k)"
  have own: "owned p" using live by (simp add: live_pool_def)
  have rng: "\<forall>pc \<in> set (plWorkers p). \<forall>k. pc_chunk pc = Some k \<longrightarrow> k < ?n"
    using live_pool_pc(2) [OF live] by blast
  have "(\<Sum>pc\<leftarrow>plWorkers p. held_len ?s pc) = (\<Sum>k = 0..<?n. int (holders k (plWorkers p)) * ?L k)"
    unfolding held_len_def holders_def by (rule sum_by_chunk [OF rng])
  also have "\<dots> = (\<Sum>k = 0..<?n. if active k ?s then ?L k else 0)"
    using own by (intro sum.cong) (auto simp: owned_def)
  finally have held: "(\<Sum>pc\<leftarrow>plWorkers p. held_len ?s pc) = (\<Sum>k = 0..<?n. if active k ?s then ?L k else 0)" .
  have dn: "done_len ?s = (\<Sum>k = 0..<?n. if cState (sChunks ?s ! k) = StateCompleted then ?L k else 0)"
    unfolding done_len_def by (simp add: sum_list_sum_nth)
  have tot: "int (length obj) = (\<Sum>k = 0..<?n. ?L k)"
    using live_pool_lengths(2) [OF live] by (simp add: sum_list_sum_nth)
  have "0 < ?L k" if "k < ?n" for k using live_pool_lengths(1) [OF live] that by simp
  then show ?thesis
    unfolding held dn tot sum.distrib [symmetric] by (intro sum_mono) (auto dest: less_imp_le)
qed

lemma mark_held: "(\<And>k. pc_chunk pc = Some k \<Longrightarrow> 0 \<le> cLength (sChunks s ! k)) \<Longrightarrow> mark_len s pc \<le> held_len s pc"
  by (cases pc) (auto simp: held_len_def)

lemma marks_held:
  assumes live: "live_pool obj cs p"
  shows "(\<Sum>pc\<leftarrow>plWorkers p. mark_len (jbSched (plJob p)) pc) \<le>
    (\<Sum>pc\<leftarrow>plWorkers p. held_len (jbSched (plJob p)) pc)"
proof (rule sum_list_mono)
  fix pc assume "pc \<in> set (plWorkers p)"
  then have "0 \<le> cLength (sChunks (jbSched (plJob p)) ! k)" if "pc_chunk pc = Some k" for k
    using live_pool_pc(2) [OF live _ that] live_pool_lengths(1) [OF live] by (simp add: less_imp_le)
  then show "mark_len (jbSched (plJob p)) pc \<le> held_len (jbSched (plJob p)) pc" by (rule mark_held)
qed

text \<open>The sum over the workers without the one that moves.\<close>

lemma counts_apply:
  assumes live: "live_pool obj cs p" and ans: "answer_ok obj e p" and c: "counts base p"
    and small: "int (length obj) < 2 ^ 63" and base: "0 \<le> base"
  shows "counts base (pool_apply e p) \<and> jbProgress (plJob p) \<le> jbProgress (plJob (pool_apply e p))"
proof (cases e)
  case (JStep w now inp)
  show ?thesis
  proof (cases "w < length (plWorkers p)")
    case True
    let ?pc = "plWorkers p ! w" and ?j = "plJob p" and ?s = "jbSched (plJob p)"
    obtain j' pc' where st: "worker_step now inp ?pc ?j = (j', pc')" by fastforce
    have mem: "?pc \<in> set (plWorkers p)" using True by simp
    have fp: "file_job ?j" "pc_file ?pc" using live mem by (auto simp: live_pool_def file_pool_def)
    note cs = worker_step_counts [OF fp live_pool_pc(2) [OF live mem] live_pool_lengths(1) [OF live] st]
    have app: "pool_apply e p = \<lparr>plJob = j', plWorkers = (plWorkers p)[w := pc']\<rparr>"
      using JStep True st by simp
    have l: "layout (jbSched j') = layout ?s" using cs by (simp add: counts_step_def)
    have live': "live_pool obj cs (pool_apply e p)" by (rule live_pool_apply [OF live ans])
    have "mark_len (jbSched j') pc = mark_len ?s pc" if "pc \<in> set ((plWorkers p)[w := pc'])" for pc
    proof (rule mark_len_layout [OF l])
      fix k assume "pc_chunk pc = Some k"
      then show "k < length (sChunks ?s)"
        using live_pool_pc(2) [OF live', of pc k] that app arg_cong [OF l, of length]
        by (simp add: layout_def)
    qed
    then have "(\<Sum>pc\<leftarrow>(plWorkers p)[w := pc']. mark_len (jbSched j') pc) =
        (\<Sum>pc\<leftarrow>(plWorkers p)[w := pc']. mark_len ?s pc)"
      by (intro arg_cong [where f = sum_list] map_cong) auto
    also have "\<dots> = (\<Sum>pc\<leftarrow>plWorkers p. mark_len ?s pc) - mark_len ?s ?pc + mark_len ?s pc'"
      by (rule sum_list_change [OF True])
    finally have marks: "(\<Sum>pc\<leftarrow>(plWorkers p)[w := pc']. mark_len (jbSched j') pc) =
        (\<Sum>pc\<leftarrow>plWorkers p. mark_len ?s pc) - mark_len ?s ?pc + mark_len ?s pc'" .
    from cs consider
        (plain) "done_len ?s \<le> done_len (jbSched j')" "jbProgress j' = jbProgress ?j"
          "done_len (jbSched j') + mark_len ?s pc' = done_len ?s + mark_len ?s ?pc"
      | (report) slot k where "?pc = PSuccess slot k" "pc' = PMark slot k"
          "done_len (jbSched j') = done_len ?s"
          "jbProgress j' = i64 (jbProgress ?j + cLength (chunk_at ?j k))"
      by (auto simp: counts_step_def)
    then show ?thesis
    proof cases
      case plain
      then show ?thesis using c marks by (simp add: counts_def app)
    next
      case report
      have app': "plWorkers (pool_apply e p) = (plWorkers p)[w := pc']" "jbSched (plJob (pool_apply e p)) = jbSched j'"
        by (simp_all add: app)
      have "done_len (jbSched j') + (\<Sum>pc\<leftarrow>(plWorkers p)[w := pc']. mark_len (jbSched j') pc) \<le> int (length obj)"
        using done_held [OF live'] marks_held [OF live'] unfolding app' by linarith
      then have "done_len ?s + (\<Sum>pc\<leftarrow>plWorkers p. mark_len ?s pc) + cLength (chunk_at ?j k) \<le> int (length obj)"
        unfolding marks using report by (simp add: chunk_at_def)
      moreover have "jbProgress ?j = done_len ?s - base + (\<Sum>pc\<leftarrow>plWorkers p. mark_len ?s pc)" "base \<le> done_len ?s"
        using c by (auto simp: counts_def)
      moreover have pos: "0 < cLength (chunk_at ?j k)" "0 \<le> (\<Sum>pc\<leftarrow>plWorkers p. mark_len ?s pc)"
      proof -
        have lp: "0 < cLength (sChunks ?s ! k)" if "pc \<in> set (plWorkers p)" "pc_chunk pc = Some k" for pc k
          using live_pool_pc(2) [OF live that] live_pool_lengths(1) [OF live] by simp
        then show "0 < cLength (chunk_at ?j k)" using mem report(1) by (auto simp: chunk_at_def)
        have "0 \<le> mark_len ?s pc" if "pc \<in> set (plWorkers p)" for pc
          using lp [OF that] by (cases pc) (auto simp: less_imp_le)
        then show "0 \<le> (\<Sum>pc\<leftarrow>plWorkers p. mark_len ?s pc)" by (intro sum_list_nonneg) auto
      qed
      ultimately have "i64 (jbProgress ?j + cLength (chunk_at ?j k)) = jbProgress ?j + cLength (chunk_at ?j k)"
        using small base by (intro i64_id_nonneg) linarith+
      then show ?thesis
        using c marks report pos(1) by (simp add: counts_def app chunk_at_def)
    qed
  qed (use JStep c in simp)
next
  case JCancel
  have "mark_len (sched_cancel s) pc = mark_len s pc" for s pc by (cases pc) (simp_all add: sched_cancel_def)
  then show ?thesis using c JCancel by (simp add: counts_def on_sched_def done_len_keep)
qed (use c live in \<open>auto simp: counts_def writer_event_def live_pool_def file_pool_def file_job_def\<close>)

lemma counts_run:
  assumes "live_pool obj cs p" and "answers obj es p" and "counts base p"
    and "int (length obj) < 2 ^ 63" and "0 \<le> base"
  shows "live_pool obj cs (pool_run es p) \<and> counts base (pool_run es p) \<and>
    jbProgress (plJob p) \<le> jbProgress (plJob (pool_run es p))"
  using assms
proof (induction es arbitrary: p)
  case (Cons e es)
  have a: "answer_ok obj e p" "answers obj es (pool_apply e p)" using Cons.prems(2) by simp_all
  note c = counts_apply [OF Cons.prems(1) a(1) Cons.prems(3-5)]
  show ?case
    using Cons.IH [OF live_pool_apply [OF Cons.prems(1) a(1)] a(2) _ Cons.prems(4,5)] c by auto
qed simp

lemma counts_bounds:
  assumes live: "live_pool obj cs p" and c: "counts base p" and base: "0 \<le> base"
  shows "0 \<le> jbProgress (plJob p)" and "jbProgress (plJob p) + base \<le> int (length obj)"
proof -
  let ?s = "jbSched (plJob p)"
  have "0 \<le> mark_len ?s pc" if "pc \<in> set (plWorkers p)" for pc
    using live_pool_pc(2) [OF live that] live_pool_lengths(1) [OF live]
    by (cases pc) (auto simp: less_imp_le)
  then have "0 \<le> (\<Sum>pc\<leftarrow>plWorkers p. mark_len ?s pc)" by (intro sum_list_nonneg) auto
  then show "0 \<le> jbProgress (plJob p)" "jbProgress (plJob p) + base \<le> int (length obj)"
    using c done_held [OF live] marks_held [OF live] by (auto simp: counts_def)
qed

text \<open>When the count is that of the whole object, every chunk is in the file.\<close>

fun reporting :: "worker_pc \<Rightarrow> nat option" where
  "reporting (PMark slot k) = Some k"
| "reporting pc = None"

lemma mark_len_reporting: "mark_len s pc = (case reporting pc of None \<Rightarrow> 0 | Some k \<Rightarrow> cLength (sChunks s ! k))"
  by (cases pc) simp_all

lemma reporting_chunk: "reporting pc = Some k \<Longrightarrow> pc_chunk pc = Some k \<and> pc_put pc"
  by (cases pc) simp_all

lemma counts_full:
  assumes live: "live_pool obj cs p" and c: "counts base p" and base: "0 \<le> base"
    and full: "jbProgress (plJob p) = int (length obj)" and k: "k < length cs"
  shows "sink_safe obj cs (jbSink (plJob p)) k"
proof -
  let ?s = "jbSched (plJob p)" and ?n = "length (sChunks (jbSched (plJob p)))" and ?ws = "plWorkers p"
  let ?L = "\<lambda>k. cLength (sChunks ?s ! k)"
  let ?r = "\<lambda>k. int (count_if (\<lambda>pc. reporting pc = Some k) ?ws)"
  let ?d = "\<lambda>k. if cState (sChunks ?s ! k) = StateCompleted then ?L k else 0"
  obtain h where h: "job_inv obj cs h (plJob p)" and own: "owned p"
    and pcs: "\<forall>pc \<in> set ?ws. pc_ok obj cs (jbSink (plJob p)) pc"
    using live by (auto simp: live_pool_def pool_inv_def)
  have n: "?n = length cs" by (rule job_inv_length [OF h])
  have "\<forall>pc \<in> set ?ws. \<forall>k. reporting pc = Some k \<longrightarrow> k < ?n"
    using live_pool_pc(2) [OF live] reporting_chunk by blast
  from sum_by_chunk [OF this, of ?L]
  have "(\<Sum>pc\<leftarrow>?ws. mark_len ?s pc) = (\<Sum>k = 0..<?n. ?r k * ?L k)"
    by (simp only: mark_len_reporting)
  moreover have "done_len ?s = (\<Sum>k = 0..<?n. ?d k)" unfolding done_len_def by (simp add: sum_list_sum_nth)
  moreover have tot: "int (length obj) = (\<Sum>k = 0..<?n. ?L k)"
    using live_pool_lengths(2) [OF live] by (simp add: sum_list_sum_nth)
  have le1: "?d i + ?r i * ?L i \<le> ?L i" if "i < ?n" for i
  proof -
    have "count_if (\<lambda>pc. reporting pc = Some i) ?ws \<le> holders i ?ws"
      unfolding holders_def by (rule count_if_mono) (auto dest: reporting_chunk)
    then have "?r i \<le> (if active i ?s then 1 else 0)" using own that by (auto simp: owned_def)
    moreover have "0 < ?L i" using live_pool_lengths(1) [OF live] that by simp
    ultimately show ?thesis by (cases "?r i \<le> 0") (auto simp: mult_le_0_iff split: if_splits)
  qed
  have "(\<Sum>k = 0..<?n. ?d k + ?r k * ?L k) = (\<Sum>k = 0..<?n. ?L k)"
  proof (rule antisym)
    show "(\<Sum>k = 0..<?n. ?d k + ?r k * ?L k) \<le> (\<Sum>k = 0..<?n. ?L k)" using le1 by (intro sum_mono) simp
    show "(\<Sum>k = 0..<?n. ?L k) \<le> (\<Sum>k = 0..<?n. ?d k + ?r k * ?L k)"
      using calculation c base full tot by (simp add: counts_def sum.distrib)
  qed
  from sum_mono_inv [OF this, of k] le1 k n
  have eq: "?d k + ?r k * ?L k = ?L k" by simp
  show ?thesis
  proof (cases "cState (sChunks ?s ! k) = StateCompleted")
    case True
    then show ?thesis using h k by (simp add: job_inv_def chunk_at_def)
  next
    case False
    have "0 < ?L k" using live_pool_lengths(1) [OF live] k n by simp
    then have "0 < count_if (\<lambda>pc. reporting pc = Some k) ?ws" using eq False by (cases "?r k = 0") auto
    then obtain pc where pc: "pc \<in> set ?ws" "reporting pc = Some k"
      by (auto simp: count_if_def filter_empty_conv)
    then show ?thesis using pc_ok_D(2) [OF pcs [rule_format, OF pc(1)]] reporting_chunk by blast
  qed
qed

end
