(* ===== verification/Job_Monitor_Props.thy ===== *)
theory Job_Monitor_Props
  imports Job_Monitor Job_Live_Props
begin

text \<open>
  What the display of a parallel file download shows: it never acts on the download, stays
  between nothing and the whole object, and shows all of it only when all of it is in the file.
\<close>

section \<open>The invariant of a monitored job\<close>

definition watch_inv :: "bytes \<Rightarrow> chunk list \<Rightarrow> int \<Rightarrow> watched \<Rightarrow> bool" where
  "watch_inv obj cs base w \<longleftrightarrow>
     live_pool obj cs (waPool w) \<and> counts base (waPool w) \<and>
     (\<forall>b. waBar w = Some b \<longrightarrow>
        pbTotal b = int (length obj) \<and> 0 \<le> pbCurrent b \<and> pbCurrent b \<le> jbProgress (plJob (waPool w)))"

lemma update_bar_fields:
  "pbCurrent (snd (update_bar now now' live tw current b)) = current"
  "pbTotal (snd (update_bar now now' live tw current b)) = pbTotal b"
  by (auto simp: update_bar_def render_def Let_def)

lemma watch_apply_inv:
  assumes inv: "watch_inv obj cs base w"
    and net: "\<And>e'. e = Work e' \<Longrightarrow> net_ok obj e'"
    and pl: "plan_ok s n" "plan s n = Some cs" "n = int (length obj)"
    and small: "int (length obj) < 2 ^ 63" and base: "0 \<le> base"
  shows "watch_inv obj cs base (watch_apply url v opts e w)"
proof (cases e)
  case (Work e')
  have live: "live_pool obj cs (waPool w)" and c: "counts base (waPool w)"
    using inv by (simp_all add: watch_inv_def)
  have "pool_inv obj cs (waPool w)" using live by (simp add: live_pool_def)
  from net_apply_answer [OF this net [OF Work] pl] obtain es where
    es: "net_apply url v opts e' (waPool w) = pool_run es (waPool w)" "answers obj es (waPool w)" by blast
  show ?thesis
    using counts_run [OF live es(2) c small base] inv Work es(1) by (force simp: watch_inv_def)
next
  case (Tick now now' tw)
  have "0 \<le> jbProgress (plJob (waPool w))"
    using inv base by (intro counts_bounds(1)) (auto simp: watch_inv_def)
  note nonneg = this
  show ?thesis
  proof (cases "waBar w")
    case (Some b)
    let ?u = "update_bar now now' (active_count (jbSched (plJob (waPool w)))) tw
      (jbProgress (plJob (waPool w))) b"
    have "watch_apply url v opts e w = w\<lparr>waBar := Some (snd ?u), waOut := waOut w @ fst ?u\<rparr>"
      using Tick Some by (simp add: monitor_tick_def split: prod.split)
    then show ?thesis using inv Some nonneg update_bar_fields by (auto simp: watch_inv_def)
  qed (use inv Tick in \<open>simp add: monitor_tick_def\<close>)
qed

lemma watch_run_inv:
  assumes "watch_inv obj cs base w" and "\<forall>e \<in> set (works es). net_ok obj e"
    and "plan_ok s n" "plan s n = Some cs" "n = int (length obj)"
    and "int (length obj) < 2 ^ 63" and "0 \<le> base"
  shows "watch_inv obj cs base (watch_run url v opts es w)"
  using assms(1,2)
proof (induction es arbitrary: w)
  case (Cons e es)
  have "watch_inv obj cs base (watch_apply url v opts e w)"
    using Cons.prems by (intro watch_apply_inv [OF _ _ assms(3-7)]) auto
  then show ?case using Cons.IH Cons.prems(2) by (cases e) (auto simp: watch_run_def)
qed (simp add: watch_run_def)

text \<open>Where a job starts: nothing is received yet, and what a resumed job finds is not counted.\<close>

lemma watch_start_inv:
  assumes live: "live_pool obj cs q0" and start: "jbProgress (plJob q0) = 0"
    "\<forall>pc \<in> set (plWorkers q0). \<exists>slot. pc = PTop slot"
    and bar: "job_bar now tty p display r = bar" and size: "prSize r = int (length obj)"
  shows "watch_inv obj cs (done_len (jbSched (plJob q0))) (watch_start q0 bar)"
proof -
  have "(\<Sum>pc\<leftarrow>plWorkers q0. mark_len (jbSched (plJob q0)) pc) = 0"
  proof -
    have "map (mark_len (jbSched (plJob q0))) (plWorkers q0) = map (\<lambda>pc. 0) (plWorkers q0)"
      using start(2) by (intro map_cong) auto
    then show ?thesis by (simp only: sum_list_0)
  qed
  then show ?thesis
    using live start(1) bar size
    by (auto simp: watch_inv_def watch_start_def counts_def job_bar_def Let_def set_conn_fn_def
        new_progress_bar_def split: if_splits)
qed

section \<open>Properties\<close>

text \<open>C34: The display of a parallel file download, fresh or resumed, against a truthful server: with
  ticks at any times between the steps of the workers the download does exactly what it does
  without them; the percentage shown is always between 0 and 100, and when it is 100 the file
  already holds the whole object at the output offset.\<close>

theorem display_truthful:
  assumes sz: "sized_for p r b obj cs" and conn: "1 \<le> epConnections p" and tries: "1 \<le> epMaxTries p"
    and doc: "doc_sound obj cs b (case seExisting env of None \<Rightarrow> [] | Some d \<Rightarrow> d) (mgFile m)"
    and safe: "\<forall>k \<in> set ks. k < length cs \<longrightarrow>
      chunk_safe obj b (case seExisting env of None \<Rightarrow> [] | Some d \<Rightarrow> d) (cs ! k)"
    and pre: "prefix_completed (mark_completed ks cs)"
    and su: "parallel_file_setup p sha env url display dest r b ks m = Some (SetupRun fs chunks)"
    and st: "file_start p fs chunks = Some q0"
    and net: "\<forall>e \<in> set (works es). net_ok obj e" and small: "int (length obj) < 2 ^ 53"
    and w: "w = watch_run url v opts es (watch_start q0 (job_bar now tty p display r))"
  shows "waPool w = net_run url v opts (works es) q0 \<and>
    (\<exists>bar fs'. waBar w = Some bar \<and> jbSink (plJob (waPool w)) = FileTo fs' \<and>
       0 \<le> percent (bar_ratio (pbCurrent bar) (pbTotal bar)) \<and>
       percent (bar_ratio (pbCurrent bar) (pbTotal bar)) \<le> 100 \<and>
       (percent (bar_ratio (pbCurrent bar) (pbTotal bar)) = 100 \<longrightarrow>
          subslice (fsData fs') b (int (length obj)) = obj))"
proof -
  note fs = parallel_file_setup_sound [OF sz doc refl safe su]
  note q0 = file_start_live [OF sz conn tries doc refl safe pre su st]
  have pl: "plan_ok (epSplitSize p) (prSize r)" "plan (epSplitSize p) (prSize r) = Some cs"
    and len: "prSize r = int (length obj)" "0 < prSize r" "int (length obj) < 2 ^ 63" "0 \<le> b"
    using sz by (auto simp: sized_for_def plan_ok_def)
  let ?base = "done_len (jbSched (plJob q0))"
  have fp: "\<forall>pc \<in> set (plWorkers q0). \<exists>slot. pc = PTop slot"
    by (rule file_start_pool(3) [OF pl conn tries pre st [unfolded fs(4)]])
  have zero: "jbProgress (plJob q0) = 0" using st by (auto simp: file_start_def pool_start_def)
  have base: "0 \<le> ?base"
    unfolding done_len_def using live_pool_lengths(1) [OF q0(1)]
    by (intro sum_list_nonneg) (auto simp: less_imp_le)
  let ?w0 = "watch_start q0 (job_bar now tty p display r)"
  have "watch_inv obj cs ?base w"
    unfolding w using watch_start_inv [OF q0(1) zero fp refl len(1)] net
    by (intro watch_run_inv [OF _ _ pl(1,2) len(1,3) base]) auto
  then have live: "live_pool obj cs (waPool w)" and c: "counts ?base (waPool w)"
    and bars: "\<And>b. waBar w = Some b \<Longrightarrow> pbTotal b = int (length obj) \<and> 0 \<le> pbCurrent b \<and>
      pbCurrent b \<le> jbProgress (plJob (waPool w))"
    by (auto simp: watch_inv_def)
  have pool: "waPool w = net_run url v opts (works es) q0"
    unfolding w by (simp add: watch_run_pool watch_start_def)
  have "waBar (watch_run url v opts es w0) \<noteq> None" if "waBar w0 \<noteq> None" for w0
    using that
  proof (induction es arbitrary: w0)
    case (Cons e es)
    have "waBar (watch_apply url v opts e w0) \<noteq> None"
      using Cons.prems by (cases e) (auto simp: monitor_tick_def split: prod.split)
    then show ?case using Cons.IH by (simp add: watch_run_def)
  qed (simp add: watch_run_def)
  then obtain bar where bar: "waBar w = Some bar"
    unfolding w using len(2) by (fastforce simp: watch_start_def job_bar_def Let_def)
  note cb = counts_bounds [OF live c base]
  have ratio: "0 \<le> pbCurrent bar" "pbCurrent bar \<le> pbTotal bar" "pbTotal bar = int (length obj)"
    using bars [OF bar] cb base by auto
  have "0 < pbTotal bar" "pbTotal bar < 2 ^ 53" using ratio(3) len(1,2) small by auto
  note pc = filled_exact [OF ratio(1,2) this, of 100, folded percent_filled]
  have inv0: "pool_inv obj cs q0" using q0(1) by (simp add: live_pool_def)
  have "\<exists>es'. waPool w = pool_run es' q0"
    unfolding pool using net_run_answers [OF inv0 net pl(1,2) len(1), of url v opts] by blast
  then have "sink_base (jbSink (plJob (waPool w))) = Some b" by (auto simp: pool_run_base q0(2) fs(3))
  then obtain fs' where fs': "jbSink (plJob (waPool w)) = FileTo fs'" "fsBaseOff fs' = b"
    by (cases "jbSink (plJob (waPool w))") auto
  have "subslice (fsData fs') b (int (length obj)) = obj" if "pbCurrent bar = pbTotal bar"
  proof -
    have "jbProgress (plJob (waPool w)) = int (length obj)" using bars [OF bar] cb base that by auto
    from counts_full [OF live c base this]
    have "\<forall>c \<in> set cs. range_ok obj b (fsData fs') (cStart c) (cStart c + cLength c)"
      using fs' by (auto simp: in_set_conv_nth chunk_safe_def)
    then have "range_ok obj b (fsData fs') 0 (int (length obj))"
      by (rule range_ok_tiled [OF sized_for_plan(2) [OF sz]])
    then show ?thesis using range_ok_all [of obj b "fsData fs'"] len(4) by simp
  qed
  then show ?thesis using pool bar fs'(1) pc by auto
qed

lemma works_append: "works (es @ fs) = works es @ works fs"
  by (induction es rule: works.induct) simp_all

lemma works_Work: "works (map Work es) = es"
  by (induction es) simp_all

definition demo_watch :: "http_client \<Rightarrow> watch_event list" where
  "demo_watch client = [Tick 1 1 80] @ map Work (two_chunk_events client) @ [Tick 40 40 80]"

theorem display_truthful_witness:
  "\<exists>bar. waBar (watch_run ''u'' ''e'' (adapter_options (demo_plan 2))
       (demo_watch (range_server demo_obj [(0, 1), (2, 3)]))
       (watch_start demo_pool (job_bar 0 True (demo_plan 2) ''u'' demo_probe))) = Some bar \<and>
     percent (bar_ratio (pbCurrent bar) (pbTotal bar)) \<le> 100"
proof -
  let ?c = "range_server demo_obj [(0, 1), (2, 3)]"
  obtain chunks where st:
    "parallel_file_setup (demo_plan 2) demo_sha demo_env ''u'' ''u'' ''f'' demo_probe 0 []
       (new_manager ''f'' None None) = Some (SetupRun demo_fs chunks)"
    "file_start (demo_plan 2) demo_fs chunks = Some demo_pool"
    by (rule demo_file_start)
  have "truthful demo_obj ?c" by (rule range_server_truthful) simp
  from chunk_events_ok(1) [OF this] have net: "\<forall>e \<in> set (works (demo_watch ?c)). net_ok demo_obj e"
    by (simp add: demo_watch_def works_append works_Work)
  have "int (length demo_obj) < 2 ^ 53" by (simp add: demo_obj_def)
  from display_truthful [OF demo_sized demo_conditions(1-3) _ demo_conditions(4) st net this refl,
      where v = "''e''" and opts = "adapter_options (demo_plan 2)" and now = 0 and tty = True]
  show ?thesis by auto
qed

end
