(* ===== verification/Stream_Measure.thy ===== *)
theory Stream_Measure
  imports Job_Live
begin

text \<open>
  What falls in a parallel stream job. A speculative duplicate can be started again and again,
  so no measure falls with every step; but the attempts left of the chunks, with their states,
  and the number of workers that have not returned never rise (\<open>settles\<close>), and while they
  stay the same the chunks keep their states and every worker goes down its own way
  (\<open>place\<close>) unless it starts a duplicate. A chunk is active only while a worker carries it.
\<close>

section \<open>The states and attempts of the chunks\<close>

text \<open>What is left of a chunk: more than it has after its next change of state, and never more
  after one more attempt.\<close>

definition chunk_left :: "int \<Rightarrow> chunk \<Rightarrow> nat" where
  "chunk_left m c =
     (case cState c of
        StateActive \<Rightarrow> if cAttempts c < m then 2 * nat (m - cAttempts c) + 3 else 1
      | StateRetryWait \<Rightarrow> 2 * nat (m - cAttempts c) + 2
      | StatePending \<Rightarrow> 2 * nat (m - cAttempts c) + 2
      | _ \<Rightarrow> 0)"

definition chunks_left :: "sched \<Rightarrow> nat" where
  "chunks_left s = (\<Sum>c\<leftarrow>sChunks s. chunk_left (cfgMaxTries (sCfg s)) c)"

abbreviation states :: "sched \<Rightarrow> chunk_state list" where
  "states s \<equiv> map cState (sChunks s)"

definition settles :: "sched \<Rightarrow> sched \<Rightarrow> bool" where
  "settles s t \<longleftrightarrow>
     chunks_left t < chunks_left s \<or> chunks_left t = chunks_left s \<and> states t = states s"

lemma settles_le: "settles s t \<Longrightarrow> chunks_left t \<le> chunks_left s"
  by (auto simp: settles_def)

lemma settles_same: "sChunks t = sChunks s \<Longrightarrow> sCfg t = sCfg s \<Longrightarrow> settles s t"
  by (simp add: settles_def chunks_left_def)

lemma sum_list_set:
  "k < length xs \<Longrightarrow> (\<Sum>x\<leftarrow>xs[k := v]. f x) + f (xs ! k) = (\<Sum>x\<leftarrow>xs. f x) + (f v :: nat)"
  by (induction xs arbitrary: k) (auto simp: nth_Cons split: nat.split)

lemma chunks_left_set:
  assumes "sChunks t = (sChunks s)[k := c]" and "sCfg t = sCfg s" and "k < length (sChunks s)"
  shows "chunks_left t + chunk_left (cfgMaxTries (sCfg s)) (sChunks s ! k) =
    chunks_left s + chunk_left (cfgMaxTries (sCfg s)) c"
  using sum_list_set [OF assms(3)] assms(1,2) by (simp add: chunks_left_def)

lemma falls_set:
  assumes "sChunks t = (sChunks s)[k := c]" and "sCfg t = sCfg s" and "k < length (sChunks s)"
    and "chunk_left (cfgMaxTries (sCfg s)) c < chunk_left (cfgMaxTries (sCfg s)) (sChunks s ! k)"
  shows "chunks_left t < chunks_left s"
  using chunks_left_set [OF assms(1-3)] assms(4) by linarith

lemma settles_set:
  assumes "sChunks t = (sChunks s)[k := c]" and "sCfg t = sCfg s" and "k < length (sChunks s)"
    and "cState c = cState (sChunks s ! k)"
    and "chunk_left (cfgMaxTries (sCfg s)) c \<le> chunk_left (cfgMaxTries (sCfg s)) (sChunks s ! k)"
  shows "settles s t"
proof -
  have "states t = states s" using assms(1,4) by (simp add: map_update_id)
  then show ?thesis using chunks_left_set [OF assms(1-3)] assms(5) by (auto simp: settles_def)
qed

lemma chunk_left_attempt:
  "cState c = cState d \<Longrightarrow> cAttempts d \<le> cAttempts c \<Longrightarrow> chunk_left m c \<le> chunk_left m d"
  by (auto simp: chunk_left_def split: chunk_state.split)

section \<open>Each operation of the scheduler\<close>

lemma mark_complete_settles: "settles s (mark_complete now idx s)"
proof (cases "in_range idx (sChunks s) \<and> cState (sChunks s ! nat idx) = StateActive")
  case True
  let ?c = "(sChunks s ! nat idx)\<lparr>cState := StateCompleted\<rparr>"
  have "sChunks (mark_complete now idx s) = (sChunks s)[nat idx := ?c]"
    "sCfg (mark_complete now idx s) = sCfg s"
    using True by (auto simp: mark_complete_def record_chunk_duration_def Let_def)
  then have "chunks_left (mark_complete now idx s) < chunks_left s"
    using True by (rule_tac falls_set) (auto simp: chunk_left_def)
  then show ?thesis by (simp add: settles_def)
next
  case False
  then have "mark_complete now idx s = s" by (auto simp: mark_complete_def Let_def)
  then show ?thesis by (simp add: settles_same)
qed

lemma mark_failed_settles: "settles s (mark_failed now idx retryable s)"
proof (cases "in_range idx (sChunks s) \<and> cState (sChunks s ! nat idx) = StateActive")
  case True
  let ?t = "mark_failed now idx retryable s"
  have cfg: "sCfg ?t = sCfg s" using True by (auto simp: mark_failed_def Let_def)
  have "\<exists>c. sChunks ?t = (sChunks s)[nat idx := c] \<and>
      (cState c = StateFailed \<or> cState c = StateRetryWait \<and>
         cAttempts c = cAttempts (sChunks s ! nat idx) \<and> cAttempts c < cfgMaxTries (sCfg s))"
    using True by (cases "retryable \<and> cAttempts (sChunks s ! nat idx) < cfgMaxTries (sCfg s)")
      (auto simp: mark_failed_def Let_def)
  then obtain c where c: "sChunks ?t = (sChunks s)[nat idx := c]"
    "cState c = StateFailed \<or> cState c = StateRetryWait \<and> cAttempts c = cAttempts (sChunks s ! nat idx) \<and>
       cAttempts c < cfgMaxTries (sCfg s)" by blast
  have "chunks_left ?t < chunks_left s"
    using True c(2) by (rule_tac falls_set [OF c(1) cfg]) (auto simp: chunk_left_def)
  then show ?thesis by (simp add: settles_def)
next
  case False
  then have "mark_failed now idx retryable s = s" by (auto simp: mark_failed_def Let_def)
  then show ?thesis by (simp add: settles_same)
qed

lemma start_hedge_settles:
  assumes "start_hedge now idx s = Some (t, r)"
  shows "settles s t"
proof (cases "in_range idx (sChunks s)")
  case True
  then obtain c where c: "sChunks t = (sChunks s)[nat idx := c]" "sCfg t = sCfg s"
    "cState c = cState (sChunks s ! nat idx)" "cAttempts (sChunks s ! nat idx) \<le> cAttempts c"
    using assms by (auto simp: start_hedge_def Let_def split: option.splits if_splits)
  show ?thesis using True by (intro settles_set [OF c(1,2) _ c(3)] chunk_left_attempt c(3,4)) auto
next
  case False
  then show ?thesis using assms by (simp add: start_hedge_def settles_same)
qed

lemma kept_settles:
  "settles s (on_admission_failure now slot s)"
  "settles s (on_worker_success now slot b d s)"
  "settles s (sched_cancel s)"
  "settles s (cancel_hedge idx s)"
  "settles s (cleanup now s)"
  by (auto simp: on_admission_failure_def on_worker_success_def sched_cancel_def cancel_hedge_def
      Let_def intro!: settles_same)

lemma next_settles:
  assumes inv: "sched_inv h s" and na: "next_assignment now slot s = (t, r)"
  shows "settles s t" and "r = NAAssign k \<Longrightarrow> chunks_left t < chunks_left s"
proof -
  have drop: "chunks_left t < chunks_left s" if "r = NAAssign k" for k
  proof -
    have ta: "try_assign now slot (cleanup now s) = (t, Some k)"
      using next_assignment_Assign [of now slot s k] na that by simp
    note ts = try_assign_Some [OF cleanup_inv [OF inv] ta]
    have cfg: "sCfg t = sCfg s"
      using ta by (auto simp: try_assign_def assign_chunk_def Let_def split: if_splits option.splits)
    show ?thesis
      using ts by (intro falls_set [OF _ cfg, of k]) (auto simp: chunk_left_def)
  qed
  then show "r = NAAssign k \<Longrightarrow> chunks_left t < chunks_left s" by blast
  show "settles s t"
  proof (cases "\<exists>k. r = NAAssign k")
    case True
    then show ?thesis using drop by (auto simp: settles_def)
  next
    case False
    then show ?thesis using next_assignment_idle [OF na] by (auto intro!: settles_same)
  qed
qed

section \<open>A step of a worker\<close>

text \<open>How far a worker is from its wait for an assignment.\<close>

fun place :: "worker_pc \<Rightarrow> nat" where
  "place (PHedge slot i) = 10"
| "place (PReserve slot k) = 9"
| "place (PFetch slot k hedge) = 8"
| "place (PPut slot k hedge data) = 7"
| "place (PSidecar slot k hedge) = 6"
| "place (PHedgeWon slot k) = 6"
| "place (PAdmission slot k) = 5"
| "place (PSuccess slot k) = 5"
| "place (PRetry slot k) = 4"
| "place (PDropHedge slot k) = 4"
| "place (PAbort slot k e) = 4"
| "place (PMark slot k) = 4"
| "place (PTop slot) = 3"
| "place (PNext slot) = 2"
| "place (PDone r) = 0"
| "place PCrash = 0"

text \<open>The chunk a worker has been assigned, or has won as a duplicate.\<close>

definition carries :: "worker_pc \<Rightarrow> nat option" where
  "carries pc = (if holds_hedge pc then None else pc_chunk pc)"

text \<open>Who can account for a duplicate that the scheduler counts.\<close>

fun may_hold :: "worker_pc \<Rightarrow> bool" where
  "may_hold (PAbort slot k e) = True"
| "may_hold (PDone r) = (r \<noteq> None)"
| "may_hold pc = holds_hedge pc"

lemma active_states: "states t = states s \<Longrightarrow> k < length (sChunks s) \<Longrightarrow> active k t = active k s"
  by (metis length_map nth_map)

lemma cancelled_kept:
  "sCancelled s \<Longrightarrow> sCancelled (mark_complete now idx s)"
  "sCancelled s \<Longrightarrow> sCancelled (mark_failed now idx retryable s)"
  "sCancelled s \<Longrightarrow> sCancelled (on_admission_failure now slot s)"
  "sCancelled s \<Longrightarrow> sCancelled (on_worker_success now slot b d s)"
  "sCancelled s \<Longrightarrow> sCancelled (cancel_hedge idx s)"
  "sCancelled s \<Longrightarrow> sCancelled (fst (next_assignment now slot s))"
  "sCancelled s \<Longrightarrow> start_hedge now idx s = Some (t, r) \<Longrightarrow> sCancelled t"
  by (auto simp: mark_complete_def mark_failed_def record_chunk_duration_def
      on_admission_failure_def on_worker_success_def cancel_hedge_def start_hedge_def
      next_assignment_def Let_def split: option.splits if_splits)

text \<open>What a step of a worker of a stream job does, apart from the contents: \<open>h\<close> is the number
  of duplicates in flight.\<close>

definition stream_step_ok :: "int \<Rightarrow> sched \<Rightarrow> worker_pc \<Rightarrow> sched \<Rightarrow> worker_pc \<Rightarrow> bool" where
  "stream_step_ok h s pc t pc' \<longleftrightarrow>
     settles s t \<and> length (sChunks t) = length (sChunks s) \<and>
     (\<exists>h'. sched_inv h' t \<and> h' + of_bool (may_hold pc) \<le> h + of_bool (may_hold pc')) \<and>
     (\<forall>k < length (sChunks s). active k t \<longrightarrow>
        carries pc' = Some k \<or> active k s \<and> carries pc \<noteq> Some k) \<and>
     (sCancelled s \<longrightarrow> sCancelled t)"

lemma step_ok_same_chunks:
  assumes "sChunks t = sChunks s" and "sCfg t = sCfg s" and "sched_inv h' t"
    and "h' + of_bool (may_hold pc) \<le> h + of_bool (may_hold pc')"
    and "carries pc' = carries pc \<or> carries pc = None" and "sCancelled s \<longrightarrow> sCancelled t"
  shows "stream_step_ok h s pc t pc'"
  using assms by (auto simp: stream_step_ok_def settles_same)

lemma step_ok_release:
  assumes "settles s t" and "states t = (states s)[k := x]" and "x \<noteq> StateActive"
    and "sched_inv h' t" and "h' + of_bool (may_hold pc) \<le> h + of_bool (may_hold pc')"
    and "carries pc = Some k" and "sCancelled s \<longrightarrow> sCancelled t"
  shows "stream_step_ok h s pc t pc'"
proof -
  have len: "length (sChunks t) = length (sChunks s)" using assms(2) by (metis length_list_update length_map)
  have "active i s \<and> carries pc \<noteq> Some i" if i: "i < length (sChunks s)" "active i t" for i
  proof -
    have *: "(states s)[k := x] ! i = StateActive" using i len assms(2) by (metis nth_map)
    then have "i \<noteq> k" using assms(3) i(1) by auto
    then show ?thesis using * i(1) assms(6) by simp
  qed
  then show ?thesis using assms len by (auto simp: stream_step_ok_def)
qed

text \<open>A worker moves down, unless it gets a chunk or starts a duplicate of an active one.\<close>

definition goes_down :: "sched \<Rightarrow> worker_pc \<Rightarrow> sched \<Rightarrow> worker_pc \<Rightarrow> bool" where
  "goes_down s pc t pc' \<longleftrightarrow>
     pc' = pc \<or> place pc' < place pc \<or> chunks_left t < chunks_left s \<or>
     (\<exists>slot k. pc = PTop slot \<and> k < length (sChunks s) \<and> active k s)"

lemma mark_failed_states:
  assumes "k < length (sChunks s)"
  shows "\<exists>x. states (mark_failed now (int k) retryable s) = (states s)[k := x] \<and> x \<noteq> StateActive"
proof (cases "active k s")
  case True
  then show ?thesis
    using mark_failed_passes [OF assms True, of now retryable] by (auto simp: map_update)
next
  case False
  then have "mark_failed now (int k) retryable s = s" using assms by (simp add: mark_failed_def in_range_def)
  then show ?thesis using False assms by (intro exI [of _ "cState (sChunks s ! k)"]) (simp add: map_update [symmetric])
qed

lemma mark_complete_states:
  assumes "k < length (sChunks s)"
  shows "\<exists>x. states (mark_complete now (int k) s) = (states s)[k := x] \<and> x \<noteq> StateActive"
proof (cases "active k s")
  case True
  then show ?thesis
    using mark_complete_passes [OF assms True, of now] by (auto simp: map_update)
next
  case False
  then have "mark_complete now (int k) s = s" using assms by (simp add: mark_complete_def in_range_def Let_def)
  then show ?thesis using False assms by (intro exI [of _ "cState (sChunks s ! k)"]) (simp add: map_update [symmetric])
qed

lemma next_step_stream:
  assumes inv: "sched_inv h (jbSched j)" and y: "jbSink j = StreamTo y"
    and st: "worker_step now inp (PNext slot) j = (j', pc')"
  shows "stream_step_ok h (jbSched j) (PNext slot) (jbSched j') pc'"
    and "goes_down (jbSched j) (PNext slot) (jbSched j') pc'"
proof -
  let ?s = "jbSched j"
  obtain t r where na: "next_assignment now slot ?s = (t, r)" by fastforce
  have j': "jbSched j' = t" "pc' = take_assignment slot j r" using na st by auto
  note ns = next_settles [OF inv na]
  have t: "sched_inv h t" "sCancelled ?s \<longrightarrow> sCancelled t"
    using na next_assignment_inv [OF inv, of now slot] cancelled_kept(6) [of ?s now slot] by auto
  have po: "passes_on ?s (PTop slot) t pc'"
    using y j'(2) by (intro next_passes [OF inv na]) (auto simp: take_assignment_def split: na_result.split)
  have c: "carries pc' = pc_chunk pc'"
    using y j'(2) by (auto simp: take_assignment_def carries_def split: na_result.splits)
  have "carries pc' = Some k \<or> active k ?s" if "k < length (sChunks ?s)" "active k t" for k
  proof -
    have "of_bool (active k t) = of_bool (active k ?s) + (of_bool (pc_chunk pc' = Some k) :: nat)"
      using po that(1) by (simp add: passes_on_def)
    then show ?thesis using that(2) c by (cases "pc_chunk pc' = Some k"; cases "active k ?s") auto
  qed
  then show "stream_step_ok h ?s (PNext slot) (jbSched j') pc'"
    using ns(1) t po by (auto simp: j'(1) stream_step_ok_def passes_on_def carries_def)
  show "goes_down ?s (PNext slot) (jbSched j') pc'"
    using ns(2) y by (cases r) (auto simp: goes_down_def j' take_assignment_def)
qed

lemma hedge_step_stream:
  assumes inv: "sched_inv h (jbSched j)"
    and st: "worker_step now inp (PHedge slot i) j = (j', pc')"
  shows "stream_step_ok h (jbSched j) (PHedge slot i) (jbSched j') pc'"
    and "goes_down (jbSched j) (PHedge slot i) (jbSched j') pc'"
proof -
  let ?s = "jbSched j"
  obtain t r where sh: "start_hedge now i ?s = Some (t, r)" using start_hedge_total [OF inv, of now i] by auto
  have t: "settles ?s t" "sched_inv (case r of None \<Rightarrow> h | Some _ \<Rightarrow> h + 1) t" "sCancelled ?s \<longrightarrow> sCancelled t"
    using start_hedge_settles [OF sh] start_hedge_inv [OF inv sh] cancelled_kept(7) [OF _ sh] by auto
  have same: "states t = states ?s"
    using sh by (auto simp: start_hedge_def Let_def map_update_id split: option.splits if_splits)
  have pc': "jbSched j' = t" "r = None \<and> pc' = PNext slot \<or> (\<exists>k s. r = Some (k, s) \<and> pc' = PFetch s k True)"
    using sh st by (auto split: option.splits prod.splits)
  have len: "length (sChunks t) = length (sChunks ?s)" using same by (metis length_map)
  show "stream_step_ok h ?s (PHedge slot i) (jbSched j') pc'"
    using pc' t len active_states [OF same] by (auto simp: stream_step_ok_def carries_def)
  show "goes_down ?s (PHedge slot i) (jbSched j') pc'" using pc' by (auto simp: goes_down_def)
qed

text \<open>Every step of a worker.\<close>

lemma worker_step_stream:
  assumes inv: "sched_inv h (jbSched j)" and y: "jbSink j = StreamTo y"
    and hold: "holds_hedge pc \<Longrightarrow> 0 < h"
    and k: "\<And>k. pc_chunk pc = Some k \<Longrightarrow> k < length (sChunks (jbSched j)) \<and> cIndex (chunk_at j k) = int k"
    and st: "worker_step now inp pc j = (j', pc')" and alive: "pc' \<noteq> PCrash"
  shows "stream_step_ok h (jbSched j) pc (jbSched j') pc'" and "goes_down (jbSched j) pc (jbSched j') pc'"
proof -
  let ?s = "jbSched j"
  have stay: "stream_step_ok h ?s pc ?s pc'" if "may_hold pc \<longrightarrow> may_hold pc'"
    "carries pc' = carries pc \<or> carries pc = None"
    using inv that by (intro step_ok_same_chunks [where h' = h]) auto
  have "stream_step_ok h ?s pc (jbSched j') pc' \<and> goes_down ?s pc (jbSched j') pc'"
  proof (cases pc)
    case (PTop slot)
    show ?thesis
    proof (cases "pc' = PDone (Some WCtx) \<or> pc' = PNext slot")
      case True
      then show ?thesis using PTop st stay by (auto simp: goes_down_def carries_def Let_def split: if_splits)
    next
      case False
      then have c: "0 \<le> hedge_candidate now j" "j' = j" "pc' = PHedge slot (hedge_candidate now j)"
        using PTop st by (auto simp: Let_def split: if_splits)
      then have "\<exists>k < length (sChunks ?s). active k ?s"
        using y by (intro exI [of _ "nat (frontier_index (sySink y))"])
          (auto simp: hedge_eligible_def Let_def split: if_splits)
      then show ?thesis using PTop c stay by (auto simp: goes_down_def carries_def)
    qed
  next
    case (PHedge slot i)
    then show ?thesis using hedge_step_stream [OF inv] st by blast
  next
    case (PNext slot)
    then show ?thesis using next_step_stream [OF inv y] st by blast
  next
    case (PReserve slot k)
    then have "jbSched j' = ?s \<and> (pc' = PRetry slot k \<or> pc' = PFetch slot k False)"
      using st y by (auto simp: reserve_step_def split: sum.splits)
    then show ?thesis using PReserve stay by (auto simp: goes_down_def carries_def)
  next
    case (PFetch slot k hedge)
    then have "j' = j" "pc' = fetch_step inp slot k hedge j" using st by auto
    then show ?thesis using PFetch stay
      by (auto simp: goes_down_def carries_def fetch_step_def split: step_input.splits if_splits)
  next
    case (PPut slot k hedge data)
    then have "jbSched j' = ?s \<and> ((\<exists>e. pc' = PAbort slot k e) \<or>
        pc' = (if hedge then PHedgeWon slot k else PSuccess slot k))"
      using st y by (auto simp: put_step_def split: sum.splits)
    then show ?thesis using PPut stay by (auto simp: goes_down_def carries_def split: if_splits)
  next
    case (PSidecar slot k hedge)
    then have "j' = j" "pc' = pc" using st y by (auto simp: sidecar_step_def)
    then show ?thesis using stay by (auto simp: goes_down_def)
  next
    case (PDone r)
    then show ?thesis using st stay by (auto simp: goes_down_def)
  next
    case PCrash
    then show ?thesis using st alive by simp
  next
    case (PAdmission slot k)
    then show ?thesis
      using st inv cancelled_kept(3) [of ?s now slot]
      by (auto simp: on_sched_def goes_down_def carries_def on_admission_failure_inv
          intro!: step_ok_same_chunks [where h' = h])
         (auto simp: on_admission_failure_def Let_def)
  next
    case (PSuccess slot k)
    let ?d = "time_sub now (cStartTime (chunk_at j k))"
    show ?thesis
      using PSuccess st inv cancelled_kept(4) [of ?s now slot "cLength (chunk_at j k)" ?d]
      by (auto simp: on_sched_def goes_down_def carries_def on_worker_success_inv Let_def
          intro!: step_ok_same_chunks [where h' = h])
         (auto simp: on_worker_success_def)
  next
    case (PDropHedge slot k)
    then show ?thesis
      using st inv hold cancelled_kept(5) [of ?s "cIndex (chunk_at j k)"]
      by (auto simp: on_sched_def goes_down_def carries_def cancel_hedge_inv
          intro!: step_ok_same_chunks [where h' = "h - 1"])
         (auto simp: cancel_hedge_def Let_def)
  next
    case (PHedgeWon slot k)
    then show ?thesis
      using st inv hold cancelled_kept(5) [of ?s "cIndex (chunk_at j k)"]
      by (auto simp: on_sched_def goes_down_def carries_def cancel_hedge_inv
          intro!: step_ok_same_chunks [where h' = "h - 1"])
         (auto simp: cancel_hedge_def Let_def)
  next
    case (PRetry slot i)
    have i: "i < length (sChunks ?s)" "cIndex (chunk_at j i) = int i" using k PRetry by auto
    obtain x where x: "states (mark_failed now (int i) True ?s) = (states ?s)[i := x]" "x \<noteq> StateActive"
      using mark_failed_states [OF i(1)] by blast
    have "stream_step_ok h ?s pc (mark_failed now (int i) True ?s) (PTop slot)"
      using PRetry inv by (intro step_ok_release [OF mark_failed_settles x, where h' = h])
        (auto simp: mark_failed_inv carries_def cancelled_kept)
    then show ?thesis using PRetry st i by (auto simp: on_sched_def goes_down_def)
  next
    case (PAbort slot i e)
    have i: "i < length (sChunks ?s)" "cIndex (chunk_at j i) = int i" using k PAbort by auto
    obtain x where x: "states (mark_failed now (int i) False ?s) = (states ?s)[i := x]" "x \<noteq> StateActive"
      using mark_failed_states [OF i(1)] by blast
    have "stream_step_ok h ?s pc (mark_failed now (int i) False ?s) (PDone (Some e))"
      using PAbort inv by (intro step_ok_release [OF mark_failed_settles x, where h' = h])
        (auto simp: mark_failed_inv carries_def cancelled_kept)
    then show ?thesis using PAbort st i by (auto simp: on_sched_def goes_down_def)
  next
    case (PMark slot i)
    have i: "i < length (sChunks ?s)" "cIndex (chunk_at j i) = int i" using k PMark by auto
    obtain x where x: "states (mark_complete now (int i) ?s) = (states ?s)[i := x]" "x \<noteq> StateActive"
      using mark_complete_states [OF i(1)] by blast
    have "stream_step_ok h ?s pc (mark_complete now (int i) ?s) (PTop slot)"
      using PMark inv by (intro step_ok_release [OF mark_complete_settles x, where h' = h])
        (auto simp: mark_complete_inv carries_def cancelled_kept)
    then show ?thesis using PMark st i by (auto simp: on_sched_def goes_down_def)
  qed
  then show "stream_step_ok h ?s pc (jbSched j') pc'" "goes_down ?s pc (jbSched j') pc'" by blast+
qed

end
