(* ===== verification/Stream_Live.thy ===== *)
theory Stream_Live
  imports Stream_Measure
begin

text \<open>
  A parallel stream job returns. While a chunk is active somebody carries it, and who carries a
  chunk goes down to its end; when no chunk is active no duplicate is started, so every worker
  goes down to its wait; and then \<open>NextAssignment\<close> blocks nobody, unless a worker has returned
  with an error, upon which \<open>runWorkers\<close> cancels the scheduler. After the workers the stream
  is closed and its writer drains it or stops at an error.
\<close>

section \<open>The invariant\<close>

fun at_sidecar :: "worker_pc \<Rightarrow> bool" where
  "at_sidecar (PSidecar slot k hedge) = True"
| "at_sidecar pc = False"

definition live_stream :: "bytes \<Rightarrow> chunk list \<Rightarrow> pool \<Rightarrow> bool" where
  "live_stream obj cs p \<longleftrightarrow>
     pool_inv obj cs p \<and> is_stream (jbSink (plJob p)) \<and>
     (\<forall>pc \<in> set (plWorkers p). \<not> at_sidecar pc) \<and>
     (\<forall>k < length (sChunks (jbSched (plJob p))). active k (jbSched (plJob p)) \<longrightarrow>
        (\<exists>pc \<in> set (plWorkers p). carries pc = Some k)) \<and>
     (\<exists>h. sched_inv h (jbSched (plJob p)) \<and> h \<le> int (count_if may_hold (plWorkers p)))"

lemma sched_inv_unique: "sched_inv h s \<Longrightarrow> sched_inv h' s \<Longrightarrow> h = h'"
  by (simp add: sched_inv_def)

lemma worker_step_sidecar:
  "is_stream (jbSink j) \<Longrightarrow> worker_step now inp pc j = (j', pc') \<Longrightarrow> \<not> at_sidecar pc \<Longrightarrow> \<not> at_sidecar pc'"
  by (cases pc; cases "jbSink j")
    (auto simp: take_assignment_def reserve_step_def fetch_step_def put_step_def Let_def
      split: option.splits prod.splits na_result.splits sum.splits step_input.splits if_splits)

text \<open>What an event does to the workers and the scheduler of a live stream job.\<close>

definition pool_step_ok :: "pool \<Rightarrow> pool \<Rightarrow> bool" where
  "pool_step_ok p q \<longleftrightarrow>
     (let s = jbSched (plJob p); t = jbSched (plJob q) in
       settles s t \<and> length (sChunks t) = length (sChunks s) \<and> (sCancelled s \<longrightarrow> sCancelled t) \<and>
       (\<forall>w < length (plWorkers p).
          goes_down s (plWorkers p ! w) t (plWorkers q ! w) \<and>
          (\<forall>k < length (sChunks s). active k t \<longrightarrow> carries (plWorkers p ! w) = Some k \<longrightarrow>
             carries (plWorkers q ! w) = Some k)))"

lemma pool_step_ok_sched:
  assumes "plWorkers q = plWorkers p" and "sChunks (jbSched (plJob q)) = sChunks (jbSched (plJob p))"
    and "sCfg (jbSched (plJob q)) = sCfg (jbSched (plJob p))"
    and "sCancelled (jbSched (plJob p)) \<longrightarrow> sCancelled (jbSched (plJob q))"
  shows "pool_step_ok p q"
  using assms by (simp add: pool_step_ok_def settles_same goes_down_def Let_def)

lemma live_stream_step:
  assumes live: "live_stream obj cs p" and ans: "answer_ok obj (JStep w now inp) p"
    and w: "w < length (plWorkers p)"
    and st: "worker_step now inp (plWorkers p ! w) (plJob p) = (j', pc')"
  shows "\<exists>h. sched_inv h (jbSched (plJob p)) \<and> h \<le> int (count_if may_hold (plWorkers p)) \<and>
      stream_step_ok h (jbSched (plJob p)) (plWorkers p ! w) (jbSched j') pc'"
    and "goes_down (jbSched (plJob p)) (plWorkers p ! w) (jbSched j') pc'"
proof -
  let ?pc = "plWorkers p ! w" and ?s = "jbSched (plJob p)"
  have inv: "pool_inv obj cs p" and mem: "?pc \<in> set (plWorkers p)" using live w by (auto simp: live_stream_def)
  obtain h0 where h0: "int (count_if holds_hedge (plWorkers p)) \<le> h0" "job_inv obj cs h0 (plJob p)"
    using inv by (auto simp: pool_inv_def)
  obtain h where h: "sched_inv h ?s" "h \<le> int (count_if may_hold (plWorkers p))"
    using live by (auto simp: live_stream_def)
  have "h0 = h" using h0(2) h(1) by (auto simp: job_inv_def intro: sched_inv_unique)
  then have hold: "0 < h" if "holds_hedge ?pc" using count_if_pos [OF w, of holds_hedge] that h0(1) by linarith
  obtain y where y: "jbSink (plJob p) = StreamTo y"
    using live by (cases "jbSink (plJob p)") (auto simp: live_stream_def)
  have k: "k < length (sChunks ?s) \<and> cIndex (chunk_at (plJob p) k) = int k" if "pc_chunk ?pc = Some k" for k
  proof -
    have "k < length cs" using inv mem that by (auto simp: pool_inv_def pc_ok_def)
    then show ?thesis using job_inv_length [OF h0(2)] job_inv_chunk(1) [OF h0(2)] by simp
  qed
  have "pool_inv obj cs (pool_apply (JStep w now inp) p)" by (rule pool_apply_inv [OF inv ans])
  then have "pc' \<noteq> PCrash"
    using w st set_update_memI [OF w, of pc'] by (auto simp: pool_inv_def pc_ok_def)
  note ws = worker_step_stream [OF h(1) y hold k st this]
  show "goes_down ?s ?pc (jbSched j') pc'" by (rule ws(2))
  show "\<exists>h. sched_inv h ?s \<and> h \<le> int (count_if may_hold (plWorkers p)) \<and> stream_step_ok h ?s ?pc (jbSched j') pc'"
    using h ws(1) by blast
qed

lemma live_stream_JStep:
  assumes live: "live_stream obj cs p" and ans: "answer_ok obj (JStep w now inp) p"
    and w: "w < length (plWorkers p)"
  shows "live_stream obj cs (pool_apply (JStep w now inp) p) \<and> pool_step_ok p (pool_apply (JStep w now inp) p)"
proof -
  let ?pc = "plWorkers p ! w" and ?s = "jbSched (plJob p)"
  obtain j' pc' where st: "worker_step now inp ?pc (plJob p) = (j', pc')" by fastforce
  let ?q = "\<lparr>plJob = j', plWorkers = (plWorkers p)[w := pc']\<rparr>"
  have app: "pool_apply (JStep w now inp) p = ?q" using w st by simp
  obtain h where h: "sched_inv h ?s" "h \<le> int (count_if may_hold (plWorkers p))"
    "stream_step_ok h ?s ?pc (jbSched j') pc'" using live_stream_step(1) [OF live ans w st] by blast
  note down = live_stream_step(2) [OF live ans w st]
  have inv: "pool_inv obj cs ?q" and inv0: "pool_inv obj cs p"
    using pool_apply_inv [OF _ ans, of cs] live app by (auto simp: live_stream_def)
  have sink: "is_stream (jbSink j')"
  proof -
    have "sink_base (jbSink j') = sink_base (jbSink (plJob p))"
      using worker_step_base [of now inp ?pc "plJob p"] st by simp
    then show ?thesis using live by (cases "jbSink j'"; cases "jbSink (plJob p)") (auto simp: live_stream_def)
  qed
  have side: "\<forall>pc \<in> set (plWorkers ?q). \<not> at_sidecar pc"
    using worker_step_sidecar [OF _ st] live w set_update_subset_insert [of "plWorkers p" w pc']
    by (auto simp: live_stream_def)
  have carry: "\<exists>pc \<in> set (plWorkers ?q). carries pc = Some k"
    if k: "k < length (sChunks (jbSched j'))" "active k (jbSched j')" for k
  proof (cases "carries pc' = Some k")
    case True
    then show ?thesis using set_update_memI [OF w, of pc'] by auto
  next
    case False
    then have "active k ?s" "carries ?pc \<noteq> Some k" "k < length (sChunks ?s)"
      using h(3) k by (auto simp: stream_step_ok_def)
    then obtain v where v: "v < length (plWorkers p)" "carries (plWorkers p ! v) = Some k" "v \<noteq> w"
      using live by (fastforce simp: live_stream_def in_set_conv_nth)
    then show ?thesis by (intro bexI [of _ "plWorkers ?q ! v"]) (simp_all add: in_set_conv_nth exI [of _ v])
  qed
  obtain h' where h': "sched_inv h' (jbSched j')" "h' + of_bool (may_hold ?pc) \<le> h + of_bool (may_hold pc')"
    using h(3) by (auto simp: stream_step_ok_def)
  have "h' \<le> int (count_if may_hold (plWorkers ?q))"
    using h' h(2) count_if_change [OF w, of may_hold pc']
    by (cases "may_hold ?pc"; cases "may_hold pc'") simp_all
  then have "live_stream obj cs ?q"
    using inv sink side carry h'(1) by (auto simp: live_stream_def)
  moreover have "goes_down ?s (plWorkers p ! v) (jbSched j') (plWorkers ?q ! v) \<and>
      (\<forall>k < length (sChunks ?s). active k (jbSched j') \<longrightarrow> carries (plWorkers p ! v) = Some k \<longrightarrow>
         carries (plWorkers ?q ! v) = Some k)" if "v < length (plWorkers p)" for v
  proof (cases "v = w")
    case True
    then show ?thesis using w down h(3) by (auto simp: stream_step_ok_def)
  next
    case False
    then show ?thesis by (simp add: goes_down_def)
  qed
  then have "pool_step_ok p ?q" using h(3) by (simp add: pool_step_ok_def stream_step_ok_def)
  ultimately show ?thesis by (simp only: app)
qed

lemma live_stream_apply:
  assumes live: "live_stream obj cs p" and ans: "answer_ok obj e p"
  shows "live_stream obj cs (pool_apply e p)" and "pool_step_ok p (pool_apply e p)"
proof -
  have "live_stream obj cs (pool_apply e p) \<and> pool_step_ok p (pool_apply e p)"
  proof (cases "\<exists>w now inp. e = JStep w now inp")
    case True
    then obtain w now inp where e: "e = JStep w now inp" by blast
    show ?thesis
    proof (cases "w < length (plWorkers p)")
      case True
      then show ?thesis using live_stream_JStep [OF live] ans e by blast
    next
      case False
      then show ?thesis using live e by (simp add: pool_step_ok_sched)
    qed
  next
    case False
    then have q: "plWorkers (pool_apply e p) = plWorkers p \<and>
        is_stream (jbSink (plJob (pool_apply e p))) = is_stream (jbSink (plJob p)) \<and>
        (jbSched (plJob (pool_apply e p)) = jbSched (plJob p) \<or>
         jbSched (plJob (pool_apply e p)) = sched_cancel (jbSched (plJob p)))"
      by (cases e) (auto simp: writer_event_def on_sched_def split: job_sink.split)
    have "pool_inv obj cs (pool_apply e p)"
      using pool_apply_inv [OF _ ans, of cs] live by (simp add: live_stream_def)
    moreover have "pool_step_ok p (pool_apply e p)"
      using q by (intro pool_step_ok_sched) (auto simp: sched_cancel_def)
    moreover have "sChunks (sched_cancel s) = sChunks s" for s by (simp add: sched_cancel_def)
    ultimately show ?thesis
      using live q by (auto simp: live_stream_def) (blast intro: sched_cancel_inv)
  qed
  then show "live_stream obj cs (pool_apply e p)" "pool_step_ok p (pool_apply e p)" by blast+
qed

interpretation stream_system:
  inductive_invariant "live_stream obj cs" "\<lambda>p q. \<exists>e. answer_ok obj e p \<and> q = pool_apply e p"
    "live_stream obj cs"
  for obj cs
  by unfold_locales (auto intro: live_stream_apply(1))

section \<open>Fair executions\<close>

text \<open>A worker is served: it gets an answer at a time when nothing has to be waited for.\<close>

fun gets_answer :: "step_input \<Rightarrow> worker_pc \<Rightarrow> bool" where
  "gets_answer inp (PFetch slot k hedge) =
     (case inp of InOpenFails \<Rightarrow> True | InReadFails \<Rightarrow> True | InBody d \<Rightarrow> True | _ \<Rightarrow> False)"
| "gets_answer inp pc = True"

definition is_served :: "nat \<Rightarrow> job_event \<Rightarrow> pool \<Rightarrow> bool" where
  "is_served w e p =
     (case e of
        JStep w' now inp \<Rightarrow>
          w' = w \<and> gets_answer inp (plWorkers p ! w) \<and> waits_over now (jbSched (plJob p))
      | _ \<Rightarrow> False)"

text \<open>The writer goes on: from its head or its wait, or with the end of its write.\<close>

definition writer_served :: "job_event \<Rightarrow> pool \<Rightarrow> bool" where
  "writer_served e p =
     (case jbSink (plJob p) of
        FileTo fs \<Rightarrow> True
      | StreamTo y \<Rightarrow>
          (case (syPc y, e) of
             (WReturned r, _) \<Rightarrow> True
           | (WWriting cd, JWrite r) \<Rightarrow> True
           | (WHead, JWriter ctxDone) \<Rightarrow> True
           | (WWaiting, JWriter ctxDone) \<Rightarrow> True
           | _ \<Rightarrow> False))"

text \<open>\<open>runWorkers\<close> cancels the scheduler when it receives an error, and the stream is closed
  when all workers have returned.\<close>

definition stream_fair :: "(nat \<Rightarrow> job_event) \<Rightarrow> pool \<Rightarrow> bool" where
  "stream_fair e p \<longleftrightarrow>
     (\<forall>w < length (plWorkers p). \<forall>i. \<exists>j \<ge> i. is_served w (e j) (pool_at e p j)) \<and>
     (\<forall>w < length (plWorkers p). \<forall>i err. plWorkers (pool_at e p i) ! w = PDone (Some err) \<longrightarrow>
        (\<exists>j \<ge> i. e j = JCancel)) \<and>
     (\<forall>i. all_done (pool_at e p i) \<longrightarrow> \<not> sink_closed (jbSink (plJob (pool_at e p i))) \<longrightarrow>
        (\<exists>j \<ge> i. e j = JClose)) \<and>
     (\<forall>i. \<exists>j \<ge> i. writer_served (e j) (pool_at e p j))"

lemma served_moves:
  assumes live: "live_stream obj cs p" and ans: "answer_ok obj (JStep w now inp) p"
    and w: "w < length (plWorkers p)" "\<not> idle (plWorkers p ! w)"
    and r: "gets_answer inp (plWorkers p ! w)"
  shows "plWorkers (pool_apply (JStep w now inp) p) ! w \<noteq> plWorkers p ! w"
proof -
  let ?pc = "plWorkers p ! w"
  obtain y where y: "jbSink (plJob p) = StreamTo y"
    using live by (cases "jbSink (plJob p)") (auto simp: live_stream_def)
  have mem: "?pc \<in> set (plWorkers p)" using w by simp
  have pc: "\<not> at_sidecar ?pc" "pc_ok obj cs (jbSink (plJob p)) ?pc"
    using live mem by (auto simp: live_stream_def pool_inv_def)
  have "snd (worker_step now inp ?pc (plJob p)) \<noteq> ?pc"
  proof (cases ?pc)
    case (PFetch slot k hedge)
    obtain h where h: "job_inv obj cs h (plJob p)" "k < length cs"
      using live pc(2) PFetch by (auto simp: live_stream_def pool_inv_def pc_ok_def)
    then show ?thesis
      using PFetch r ans w job_inv_body [OF h]
      by (cases inp) (auto simp: fetch_step_def answer_ok_def body_ok_def)
  qed (use w(2) pc y in \<open>auto simp: Let_def reserve_step_def put_step_def pc_ok_def
      split: option.splits prod.splits sum.splits\<close>)
  then show ?thesis using w(1) by (auto split: prod.split)
qed

text \<open>Sequences of natural numbers that never rise.\<close>

lemma falling_le:
  assumes "\<And>i. n \<le> i \<Longrightarrow> f (Suc i) \<le> (f i :: nat)" and "n \<le> i" and "i \<le> j"
  shows "f j \<le> f i"
  using assms(3)
proof (induction j rule: dec_induct)
  case (step j)
  then have "f (Suc j) \<le> f j" using assms(1) [of j] assms(2) by simp
  then show ?case using step.IH by (rule le_trans)
qed simp

lemma falling_ends:
  assumes "\<And>i. n \<le> i \<Longrightarrow> f (Suc i) \<le> (f i :: nat)"
  shows "\<exists>m \<ge> n. \<forall>i \<ge> m. f i = f m"
proof -
  obtain m where m: "n \<le> m" "\<And>i. n \<le> i \<Longrightarrow> f m \<le> f i"
    using ex_has_least_nat [of "\<lambda>i. n \<le> i" n f] by blast
  have "f i = f m" if "m \<le> i" for i
    using falling_le [of n f m i, OF assms m(1) that] m(2) [of i] m(1) that by simp
  then show ?thesis using m(1) by blast
qed

lemma falling_not_for_ever:
  assumes "\<And>i. n \<le> i \<Longrightarrow> f (Suc i) \<le> (f i :: nat)" and "\<And>i. n \<le> i \<Longrightarrow> \<exists>j \<ge> i. f (Suc j) < f j"
  shows False
proof -
  obtain m where m: "n \<le> m" "\<forall>i \<ge> m. f i = f m" using falling_ends [of n f, OF assms(1)] by blast
  obtain j where "m \<le> j" "f (Suc j) < f j" using assms(2) [OF m(1)] by blast
  then show False using m(2) [rule_format, of j] m(2) [rule_format, of "Suc j"] by simp
qed

section \<open>The workers return\<close>

lemma pool_at_stream:
  assumes "live_stream obj cs p" and "answered obj e p"
  shows "live_stream obj cs (pool_at e p i)"
    and "pool_step_ok (pool_at e p i) (pool_at e p (Suc i))"
proof -
  have ans: "answer_ok obj (e i) (pool_at e p i)" for i using assms(2) by (simp add: answered_def)
  have live: "live_stream obj cs (pool_at e p i)" for i
    by (induction i) (simp_all add: assms(1) live_stream_apply(1) [OF _ ans])
  then show "live_stream obj cs (pool_at e p i)" .
  show "pool_step_ok (pool_at e p i) (pool_at e p (Suc i))"
    using live_stream_apply(2) [OF live ans] by simp
qed

abbreviation sched_at :: "(nat \<Rightarrow> job_event) \<Rightarrow> pool \<Rightarrow> nat \<Rightarrow> sched" where
  "sched_at e p i \<equiv> jbSched (plJob (pool_at e p i))"

abbreviation worker_at :: "(nat \<Rightarrow> job_event) \<Rightarrow> pool \<Rightarrow> nat \<Rightarrow> nat \<Rightarrow> worker_pc" where
  "worker_at e p i w \<equiv> plWorkers (pool_at e p i) ! w"

text \<open>From \<open>n\<close> on no chunk changes its state.\<close>

definition quiet :: "(nat \<Rightarrow> job_event) \<Rightarrow> pool \<Rightarrow> nat \<Rightarrow> bool" where
  "quiet e p n \<longleftrightarrow>
     (\<forall>i \<ge> n. chunks_left (sched_at e p i) = chunks_left (sched_at e p n) \<and>
        states (sched_at e p i) = states (sched_at e p n))"

lemma stream_quiet:
  assumes "live_stream obj cs p" and "answered obj e p"
  shows "\<exists>n. quiet e p n"
proof -
  have settle: "settles (sched_at e p i) (sched_at e p (Suc i))" for i
    using pool_at_stream(2) [OF assms, of i] by (simp add: pool_step_ok_def Let_def)
  obtain n where n: "\<forall>i \<ge> n. chunks_left (sched_at e p i) = chunks_left (sched_at e p n)"
    using falling_ends [of 0 "\<lambda>i. chunks_left (sched_at e p i)"] settles_le [OF settle] by blast
  have "states (sched_at e p i) = states (sched_at e p n)" if "n \<le> i" for i
    using that
  proof (induction i rule: dec_induct)
    case (step i)
    have "chunks_left (sched_at e p (Suc i)) = chunks_left (sched_at e p i)"
      using n step.hyps(1) by (metis le_SucI)
    then show ?case using settle [of i] step.IH by (simp add: settles_def)
  qed simp
  then show ?thesis using n by (auto simp: quiet_def)
qed

lemma quiet_down:
  assumes "live_stream obj cs p" and "answered obj e p" and q: "quiet e p n" and i: "n \<le> i"
    and w: "w < length (plWorkers p)"
  shows "worker_at e p (Suc i) w = worker_at e p i w \<or>
      place (worker_at e p (Suc i) w) < place (worker_at e p i w) \<or>
      (\<exists>slot k. worker_at e p i w = PTop slot \<and> k < length (sChunks (sched_at e p i)) \<and>
         active k (sched_at e p i))"
proof -
  have "chunks_left (sched_at e p (Suc i)) = chunks_left (sched_at e p i)"
    using q i by (metis quiet_def le_SucI)
  moreover have "goes_down (sched_at e p i) (worker_at e p i w) (sched_at e p (Suc i)) (worker_at e p (Suc i) w)"
    using pool_at_stream(2) [OF assms(1,2), of i] w pool_at_workers [of e p i]
    by (simp add: pool_step_ok_def Let_def)
  ultimately show ?thesis by (auto simp: goes_down_def)
qed

lemma quiet_active:
  assumes "quiet e p n" and "n \<le> i"
  shows "length (sChunks (sched_at e p i)) = length (sChunks (sched_at e p n))"
    and "k < length (sChunks (sched_at e p n)) \<Longrightarrow> active k (sched_at e p i) = active k (sched_at e p n)"
proof -
  have st: "states (sched_at e p i) = states (sched_at e p n)" using assms unfolding quiet_def by blast
  then show "length (sChunks (sched_at e p i)) = length (sChunks (sched_at e p n))" by (metis length_map)
  show "k < length (sChunks (sched_at e p n)) \<Longrightarrow> active k (sched_at e p i) = active k (sched_at e p n)"
    by (rule active_states [OF st])
qed

lemma served_event:
  assumes "is_served w (e i) (pool_at e p i)"
  obtains now inp where "e i = JStep w now inp" and "gets_answer inp (worker_at e p i w)"
    and "waits_over now (sched_at e p i)"
  using assms that by (cases "e i") (simp_all add: is_served_def)

text \<open>Who is served and not idle moves.\<close>

lemma served_step:
  assumes "live_stream obj cs p" and "answered obj e p" and "w < length (plWorkers p)"
    and "is_served w (e i) (pool_at e p i)" and "\<not> idle (worker_at e p i w)"
  shows "worker_at e p (Suc i) w \<noteq> worker_at e p i w"
proof -
  obtain now inp where e: "e i = JStep w now inp" "gets_answer inp (worker_at e p i w)"
    by (rule served_event [of w e i p, OF assms(4)])
  then show ?thesis
    using served_moves [OF pool_at_stream(1) [OF assms(1,2), of i], of w now inp] assms(2,3,5)
      pool_at_workers [of e p i]
    by (simp add: answered_def del: pool_apply.simps) (metis e(1))
qed

lemma carries_not_idle: "carries pc = Some k \<Longrightarrow> \<not> idle pc \<and> (\<forall>slot. pc \<noteq> PTop slot)"
  by (cases pc) (auto simp: carries_def)

lemma quiet_no_active:
  assumes live: "live_stream obj cs p" and ans: "answered obj e p" and q: "quiet e p n"
    and fair: "\<forall>w < length (plWorkers p). \<forall>i. \<exists>j \<ge> i. is_served w (e j) (pool_at e p j)"
    and k: "k < length (sChunks (sched_at e p n))"
  shows "\<not> active k (sched_at e p n)"
proof
  assume act: "active k (sched_at e p n)"
  have act': "k < length (sChunks (sched_at e p i)) \<and> active k (sched_at e p i)" if "n \<le> i" for i
    using quiet_active [OF q that] act k by simp
  obtain w where w: "w < length (plWorkers p)" "carries (worker_at e p n w) = Some k"
  proof -
    have "\<exists>pc \<in> set (plWorkers (pool_at e p n)). carries pc = Some k"
      using pool_at_stream(1) [OF live ans, of n] act k by (simp add: live_stream_def)
    then show ?thesis using that pool_at_workers [of e p n] by (metis in_set_conv_nth)
  qed
  have carry: "carries (worker_at e p i w) = Some k" if "n \<le> i" for i
    using that
  proof (induction i rule: dec_induct)
    case (step i)
    then show ?case
      using pool_at_stream(2) [OF live ans, of i] act' [of i] act' [of "Suc i"] w(1) pool_at_workers [of e p i]
      by (simp add: pool_step_ok_def Let_def del: pool_at.simps)
  qed (simp add: w(2))
  let ?f = "\<lambda>i. place (worker_at e p i w)"
  have down: "worker_at e p (Suc i) w = worker_at e p i w \<or> ?f (Suc i) < ?f i" if "n \<le> i" for i
    using quiet_down [OF live ans q that w(1)] carries_not_idle [OF carry [OF that]] by blast
  show False
  proof (rule falling_not_for_ever [of n ?f])
    fix i assume i: "n \<le> i"
    show "?f (Suc i) \<le> ?f i" using down [OF i] by (auto simp del: pool_at.simps)
    obtain j where j: "i \<le> j" "is_served w (e j) (pool_at e p j)" using fair w(1) by blast
    then have nj: "n \<le> j" using i by simp
    have "worker_at e p (Suc j) w \<noteq> worker_at e p j w"
      using served_step [OF live ans w(1) j(2)] carries_not_idle [OF carry [OF nj]] by blast
    then show "\<exists>j \<ge> i. ?f (Suc j) < ?f j" using down [OF nj] j(1) by blast
  qed
qed

text \<open>Without an active chunk everybody goes down to the wait or returns.\<close>

lemma quiet_idle:
  assumes live: "live_stream obj cs p" and ans: "answered obj e p" and q: "quiet e p n"
    and fair: "\<forall>w < length (plWorkers p). \<forall>i. \<exists>j \<ge> i. is_served w (e j) (pool_at e p j)"
  shows "\<exists>m \<ge> n. \<forall>i \<ge> m. \<forall>w < length (plWorkers p).
    idle (worker_at e p i w) \<and> worker_at e p i w = worker_at e p m w"
proof -
  have down: "worker_at e p (Suc i) w = worker_at e p i w \<or>
      place (worker_at e p (Suc i) w) < place (worker_at e p i w)"
    if i: "n \<le> i" and w: "w < length (plWorkers p)" for i w
  proof -
    have "\<not> active k (sched_at e p i)" if "k < length (sChunks (sched_at e p i))" for k
      using quiet_no_active [OF live ans q fair, of k] quiet_active [OF q i] that by simp
    then show ?thesis using quiet_down [OF live ans q i w] by blast
  qed
  let ?N = "{..<length (plWorkers p)}"
  let ?f = "\<lambda>i. \<Sum>w \<in> ?N. place (worker_at e p i w)"
  have le: "place (worker_at e p (Suc i) w) \<le> place (worker_at e p i w)" if "n \<le> i" "w \<in> ?N" for i w
    using down [of i w] that by (auto simp del: pool_at.simps)
  obtain m where m: "n \<le> m" "\<forall>i \<ge> m. ?f i = ?f m"
  proof -
    have "?f (Suc i) \<le> ?f i" if "n \<le> i" for i by (rule sum_mono [OF le [OF that]])
    then show ?thesis using that falling_ends [of n ?f] by blast
  qed
  have stay: "worker_at e p (Suc i) w = worker_at e p i w" if i: "m \<le> i" and w: "w \<in> ?N" for i w
  proof -
    have "?f (Suc i) = ?f i" using m(2) i by (metis le_SucI)
    moreover have "\<And>v. v \<in> ?N \<Longrightarrow> place (worker_at e p (Suc i) v) \<le> place (worker_at e p i v)"
      using le i m(1) by (meson le_trans)
    ultimately have "place (worker_at e p (Suc i) w) = place (worker_at e p i w)"
      using w by (rule sum_mono_inv [OF _ _ _ finite_lessThan])
    then show ?thesis using down [of i w] i m(1) w by simp
  qed
  have same: "worker_at e p i w = worker_at e p m w" if "m \<le> i" "w \<in> ?N" for i w
    using that by (induction i rule: dec_induct) (simp_all add: stay del: pool_at.simps)
  have wait: "idle (worker_at e p i w)" if i: "m \<le> i" and w: "w < length (plWorkers p)" for i w
  proof (rule ccontr)
    assume ni: "\<not> idle (worker_at e p i w)"
    obtain j where j: "i \<le> j" "is_served w (e j) (pool_at e p j)" using fair w by blast
    have "worker_at e p j w = worker_at e p i w" using same [of j w] same [of i w] i j(1) w by simp
    then have "worker_at e p (Suc j) w \<noteq> worker_at e p j w"
      using served_step [OF live ans w j(2)] ni by simp
    then show False using stay [of j w] i j(1) w by simp
  qed
  have "worker_at e p i w = worker_at e p m w" if "m \<le> i" "w < length (plWorkers p)" for i w
    by (rule same) (simp_all add: that)
  then show ?thesis using m(1) wait by blast
qed

lemma cancelled_later:
  assumes "live_stream obj cs p" and "answered obj e p" and "sCancelled (sched_at e p i)" and "i \<le> j"
  shows "sCancelled (sched_at e p j)"
  using assms(4)
proof (induction j rule: dec_induct)
  case (step j)
  then show ?case using pool_at_stream(2) [OF assms(1,2), of j] by (simp add: pool_step_ok_def Let_def del: pool_at.simps)
qed (rule assms(3))

lemma next_step_changes:
  assumes "snd (next_assignment now slot (jbSched j)) \<noteq> NABlock"
  shows "snd (worker_step now inp (PNext slot) j) \<noteq> PNext slot"
  using assms by (auto simp: take_assignment_def split: prod.split na_result.split job_sink.split)

lemma stream_workers_return:
  assumes live: "live_stream obj cs p" and ans: "answered obj e p" and fair: "stream_fair e p"
  shows "\<exists>n. all_done (pool_at e p n)"
proof (rule ccontr)
  assume never: "\<not> (\<exists>n. all_done (pool_at e p n))"
  obtain n where q: "quiet e p n" using stream_quiet [OF live ans] by blast
  have served: "\<forall>w < length (plWorkers p). \<forall>i. \<exists>j \<ge> i. is_served w (e j) (pool_at e p j)"
    using fair by (simp add: stream_fair_def)
  obtain m where m: "n \<le> m" "\<And>i w. m \<le> i \<Longrightarrow> w < length (plWorkers p) \<Longrightarrow>
      idle (worker_at e p i w) \<and> worker_at e p i w = worker_at e p m w"
    using quiet_idle [OF live ans q served] by blast
  have len: "length (plWorkers (pool_at e p i)) = length (plWorkers p)" for i by (rule pool_at_workers)
  obtain w where w: "w < length (plWorkers p)" "\<not> worker_done (worker_at e p m w)"
  proof -
    have "\<not> all_done (pool_at e p m)" using never by blast
    then show ?thesis using that len [of m] by (auto simp: all_done_def list_all_length)
  qed
  then obtain slot where slot: "worker_at e p m w = PNext slot" using m(2) [of m w] by (cases "worker_at e p m w") auto
  have free: "snd (next_assignment now slot (sched_at e p j)) \<noteq> NABlock"
    if j: "i \<le> j" "waits_over now (sched_at e p j)" and i: "m \<le> i" and
      err: "(\<exists>v < length (plWorkers p). may_hold (worker_at e p m v)) \<Longrightarrow> sCancelled (sched_at e p i)" for i j now
  proof (cases "\<exists>v < length (plWorkers p). may_hold (worker_at e p m v)")
    case True
    then have "sCancelled (sched_at e p j)" using cancelled_later [OF live ans _ j(1)] err by blast
    then show ?thesis by (simp add: next_assignment_def Let_def)
  next
    case False
    then have "\<not> may_hold pc" if "pc \<in> set (plWorkers (pool_at e p j))" for pc
      using that m(2) [of j] i j(1) len [of j] by (auto simp: in_set_conv_nth)
    then have "count_if may_hold (plWorkers (pool_at e p j)) = 0" by (simp add: count_if_zero)
    then obtain h where h: "sched_inv h (sched_at e p j)" "h \<le> 0"
      using pool_at_stream(1) [OF live ans, of j] by (auto simp: live_stream_def)
    then have "h = 0" by (auto simp: sched_inv_def)
    moreover have "\<forall>k < length (sChunks (sched_at e p j)). \<not> active k (sched_at e p j)"
      using quiet_no_active [OF live ans q served] quiet_active [OF q, of j] i j(1) m(1) by simp
    ultimately show ?thesis using next_not_blocked h(1) j(2) by blast
  qed
  obtain i where i: "m \<le> i"
    "(\<exists>v < length (plWorkers p). may_hold (worker_at e p m v)) \<Longrightarrow> sCancelled (sched_at e p i)"
  proof (cases "\<exists>v < length (plWorkers p). may_hold (worker_at e p m v)")
    case True
    then obtain v where v: "v < length (plWorkers p)" "may_hold (worker_at e p m v)" by blast
    then obtain err where "worker_at e p m v = PDone (Some err)"
      using m(2) [of m v] by (cases "worker_at e p m v") auto
    moreover have "\<forall>w < length (plWorkers p). \<forall>i err. worker_at e p i w = PDone (Some err) \<longrightarrow>
        (\<exists>j \<ge> i. e j = JCancel)"
      using fair unfolding stream_fair_def by blast
    ultimately obtain j where j: "m \<le> j" "e j = JCancel" using v(1) by blast
    have "sCancelled (sched_at e p (Suc j))" by (simp add: j(2) on_sched_def sched_cancel_def)
    then show ?thesis using that [of "Suc j"] j(1) by simp
  qed (use that [of m] in blast)
  obtain j where j: "i \<le> j" "is_served w (e j) (pool_at e p j)" using served w(1) by blast
  obtain now inp where e: "e j = JStep w now inp" "waits_over now (sched_at e p j)"
    by (rule served_event [of w e j p, OF j(2)])
  have at: "worker_at e p j w = PNext slot" "worker_at e p (Suc j) w = PNext slot"
    using m(2) [of j w] m(2) [of "Suc j" w] i(1) j(1) w(1) slot by auto
  have "worker_at e p (Suc j) w = snd (worker_step now inp (PNext slot) (plJob (pool_at e p j)))"
    using e(1) at(1) w(1) len [of j] by (simp split: prod.split)
  moreover have "snd (worker_step now inp (PNext slot) (plJob (pool_at e p j))) \<noteq> PNext slot"
    by (rule next_step_changes [OF free [OF j(1) e(2) i]])
  ultimately show False using at(2) by simp
qed

section \<open>The writer returns\<close>

definition writer_left :: "sink_sys \<Rightarrow> nat" where
  "writer_left y =
     2 * length (ssCompleted (sySink y)) +
     (case syPc y of WWriting cd \<Rightarrow> 2 | WReturned r \<Rightarrow> 0 | _ \<Rightarrow> 1)"

lemma length_delete_less: "map_of xs k = Some v \<Longrightarrow> length (AList.delete k xs) < length xs"
  by (auto simp: AList.delete_eq dest!: map_of_SomeD intro: length_filter_less)

lemma writer_inner_left:
  assumes "ssClosed s"
  shows "writer_left (run_writer (writer_inner s) y) \<le> 2 * length (ssCompleted s)"
proof (cases "map_of (ssCompleted s) (ssNextIndex s)")
  case (Some cd)
  then show ?thesis using length_delete_less [OF Some]
    by (simp add: writer_inner_take [OF Some] run_writer_def writer_left_def)
next
  case None
  then show ?thesis using assms
    by (simp add: writer_inner_stop [OF None] run_writer_def writer_left_def Let_def)
qed

lemma writer_head_left:
  assumes "ssClosed s"
  shows "writer_left (run_writer (writer_head ctx s) y) \<le> 2 * length (ssCompleted s)"
  using assms writer_inner_left [OF assms, of y]
  by (auto simp: writer_head_def writer_blocked_def run_writer_def writer_left_def split: option.split)

text \<open>On a closed stream every event of the writer that is possible brings it nearer to its
  return.\<close>

lemma writer_falls:
  assumes "ssClosed (sySink y)"
  shows "sink_apply (EvWriter ctx) y = y \<or> writer_left (sink_apply (EvWriter ctx) y) < writer_left y"
    and "syPc y = WHead \<or> syPc y = WWaiting \<Longrightarrow> writer_left (sink_apply (EvWriter ctx) y) < writer_left y"
    and "sink_apply (EvWrite r) y = y \<or> writer_left (sink_apply (EvWrite r) y) < writer_left y"
    and "syPc y = WWriting cd \<Longrightarrow> writer_left (sink_apply (EvWrite r) y) < writer_left y"
proof -
  have head: "writer_left (sink_apply (EvWriter ctx) y) < writer_left y"
    if "syPc y = WHead \<or> syPc y = WWaiting" for ctx
    using that writer_head_left [OF assms, of ctx y]
    by (auto simp: writer_left_def [of y] split: if_splits) (simp_all add: writer_left_def)
  have body: "writer_left (sink_apply (EvWrite r) y) < writer_left y" if "syPc y = WWriting cd" for r cd
    using that assms writer_inner_left [of "(sySink y)\<lparr>ssWrittenCount := ssWrittenCount (sySink y) + 1\<rparr>"
        "y\<lparr>syOut := syOut y @ cdData cd\<rparr>"]
    by (cases r) (simp_all add: writer_left_def [of y], simp add: writer_left_def Let_def)
  show "syPc y = WHead \<or> syPc y = WWaiting \<Longrightarrow> writer_left (sink_apply (EvWriter ctx) y) < writer_left y"
    by (rule head)
  show "syPc y = WWriting cd \<Longrightarrow> writer_left (sink_apply (EvWrite r) y) < writer_left y" by (rule body)
  show "sink_apply (EvWriter ctx) y = y \<or> writer_left (sink_apply (EvWriter ctx) y) < writer_left y"
    using head [of ctx] by (cases "syPc y") auto
  show "sink_apply (EvWrite r) y = y \<or> writer_left (sink_apply (EvWrite r) y) < writer_left y"
    using body [where r = r] by (cases "syPc y") auto
qed

abbreviation sink_of :: "pool \<Rightarrow> sink_sys" where
  "sink_of p \<equiv> stream_of (jbSink (plJob p))"

text \<open>The job is over: the workers and the writer have returned.\<close>

definition stream_over :: "pool \<Rightarrow> bool" where
  "stream_over p \<longleftrightarrow> all_done p \<and> returned (syPc (sink_of p))"

lemma done_worker: "all_done p \<Longrightarrow> pool_apply (JStep w now inp) p = p"
  by (rule done_stays)

lemma done_events:
  assumes dn: "all_done p" and st: "is_stream (jbSink (plJob p))"
  shows "all_done (pool_apply e p)" and "is_stream (jbSink (plJob (pool_apply e p)))"
    and "e = JClose \<Longrightarrow> ssClosed (sySink (sink_of (pool_apply e p)))"
    and "ssClosed (sySink (sink_of p)) \<Longrightarrow>
      ssClosed (sySink (sink_of (pool_apply e p))) \<and>
      writer_left (sink_of (pool_apply e p)) \<le> writer_left (sink_of p) \<and>
      (writer_served e p \<longrightarrow> \<not> returned (syPc (sink_of p)) \<longrightarrow>
         writer_left (sink_of (pool_apply e p)) < writer_left (sink_of p))"
proof -
  obtain y where y: "jbSink (plJob p) = StreamTo y" using st by (cases "jbSink (plJob p)") auto
  have stay: "plWorkers (pool_apply e p) = plWorkers p"
    by (cases e) (simp_all add: done_worker [OF dn] writer_event_def y del: pool_apply.simps(1) sink_apply.simps)
  then show "all_done (pool_apply e p)" using dn by (simp add: all_done_def)
  show "is_stream (jbSink (plJob (pool_apply e p)))"
    using y by (cases e) (simp_all add: done_worker [OF dn] writer_event_def on_sched_def
        del: pool_apply.simps(1) sink_apply.simps)
  show "e = JClose \<Longrightarrow> ssClosed (sySink (sink_of (pool_apply e p)))"
    using dn y by (simp add: writer_event_def close_sink_def)
  assume cl: "ssClosed (sySink (sink_of p))"
  then have cy: "ssClosed (sySink y)" using y by simp
  note f = writer_falls [OF cy]
  show "ssClosed (sySink (sink_of (pool_apply e p))) \<and>
      writer_left (sink_of (pool_apply e p)) \<le> writer_left (sink_of p) \<and>
      (writer_served e p \<longrightarrow> \<not> returned (syPc (sink_of p)) \<longrightarrow>
         writer_left (sink_of (pool_apply e p)) < writer_left (sink_of p))"
  proof (cases e)
    case (JStep w now inp)
    then show ?thesis using cl y
      by (auto simp: done_worker [OF dn] writer_served_def simp del: pool_apply.simps(1) split: writer_pc.splits)
  next
    case JCancel
    then show ?thesis using cl y by (auto simp: on_sched_def writer_served_def split: writer_pc.splits)
  next
    case (JWriter ctx)
    then show ?thesis using y cy f(1,2) [where ctx = ctx] sink_apply_closed(1) [of ctx y]
      by (auto simp: writer_event_def writer_served_def simp del: sink_apply.simps
          split: writer_pc.splits intro: less_imp_le)
  next
    case (JWrite r)
    then show ?thesis using y cy f(3,4) [where r = r] sink_apply_closed(2) [of r y]
      by (auto simp: writer_event_def writer_served_def simp del: sink_apply.simps
          split: writer_pc.splits intro: less_imp_le)
  next
    case JClose
    then show ?thesis using y cy dn
      by (auto simp: writer_event_def writer_served_def close_sink_def writer_left_def split: writer_pc.splits)
  qed
qed

lemma stream_ends:
  assumes live: "live_stream obj cs p" and ans: "answered obj e p" and fair: "stream_fair e p"
  shows "\<exists>n. stream_over (pool_at e p n)"
proof (rule ccontr)
  assume never: "\<not> (\<exists>n. stream_over (pool_at e p n))"
  obtain n where n: "all_done (pool_at e p n)" using stream_workers_return [OF live ans fair] by blast
  have st: "is_stream (jbSink (plJob (pool_at e p i)))" for i
    using pool_at_stream(1) [OF live ans, of i] by (simp add: live_stream_def)
  have dn: "all_done (pool_at e p i)" if "n \<le> i" for i
    using that by (induction i rule: dec_induct) (simp_all add: n done_events(1) [OF _ st])
  let ?y = "\<lambda>i. sink_of (pool_at e p i)"
  have "\<exists>m \<ge> n. ssClosed (sySink (?y m))"
  proof (cases "sink_closed (jbSink (plJob (pool_at e p n)))")
    case True
    then show ?thesis using st [of n] by (cases "jbSink (plJob (pool_at e p n))") auto
  next
    case False
    then obtain j where j: "n \<le> j" "e j = JClose" using fair n unfolding stream_fair_def by blast
    have "ssClosed (sySink (?y (Suc j)))" using done_events(3) [OF dn [OF j(1)] st j(2)] by simp
    then show ?thesis using j(1) le_SucI by blast
  qed
  then obtain m where m: "n \<le> m" "ssClosed (sySink (?y m))" by blast
  have cl: "ssClosed (sySink (?y i))" if "m \<le> i" for i
    using that
  proof (induction i rule: dec_induct)
    case (step i)
    then show ?case using done_events(4) [OF dn [of i] st] m(1) by simp
  qed (rule m(2))
  have down: "writer_left (?y (Suc i)) \<le> writer_left (?y i) \<and>
      (writer_served (e i) (pool_at e p i) \<longrightarrow> writer_left (?y (Suc i)) < writer_left (?y i))" if i: "m \<le> i" for i
  proof -
    have "\<not> returned (syPc (?y i))" using never dn [of i] i m(1) by (auto simp: stream_over_def)
    then show ?thesis using done_events(4) [OF dn [of i] st cl [OF i]] i m(1) by simp
  qed
  show False
  proof (rule falling_not_for_ever [of m "\<lambda>i. writer_left (?y i)"])
    fix i assume i: "m \<le> i"
    then show "writer_left (?y (Suc i)) \<le> writer_left (?y i)" using down by blast
    obtain j where "i \<le> j" "writer_served (e j) (pool_at e p j)" using fair unfolding stream_fair_def by blast
    then show "\<exists>j \<ge> i. writer_left (?y (Suc j)) < writer_left (?y j)" using down [of j] i by (meson le_trans)
  qed
qed

end
