(* ===== verification/Stream_Live_Props.thy ===== *)
theory Stream_Live_Props
  imports Stream_Live Job_Exec_Props
begin

text \<open>
  Every fair execution of a parallel stream job ends, with the consumer holding a prefix of the
  object, and the whole object when the exit code is success. The witness is a complete run
  that goes on with idle steps for ever.
\<close>

section \<open>The start of a stream job\<close>

lemma stream_start_live:
  assumes pl: "plan_ok (epSplitSize p) (prSize r)" "prSize r = int (length obj)"
    and conn: "1 \<le> epConnections p" and st: "stream_start p r = Some q0"
  obtains cs where "live_stream obj cs q0" and "tiled_from 0 cs (int (length obj))"
proof -
  obtain cs where cs: "plan (epSplitSize p) (prSize r) = Some cs" "tiled_from 0 cs (int (length obj))"
    "pool_inv obj cs q0"
    using stream_start_inv [OF pl conn] st by auto
  obtain s where s: "sched_new (stream_config p) cs True = Some s"
    "q0 = pool_start p s (StreamTo (sink_init (epBufferSize p)))"
    using st cs(1) by (auto simp: stream_start_def split: option.splits)
  have ch: "sChunks s = cs" "sActiveCount s = 0"
    using s(1) by (auto simp: sched_new_def split: if_splits option.splits)
  have none: "\<not> active k s" if "k < length cs" for k
    using cs(1) pl(1) that ch(1) by (auto simp: plan_eq)
  obtain h where h: "sched_inv h s" using cs(3) s(2) by (auto simp: pool_inv_def job_inv_def pool_start_def)
  then have "h \<le> 0" using ch(2) by (simp add: sched_inv_def)
  then have "live_stream obj cs q0"
    using cs(3) s(2) h none ch(1) by (auto simp: live_stream_def pool_start_def intro!: exI [of _ h])
  then show ?thesis using that cs(2) by blast
qed

section \<open>What the consumer has received\<close>

lemma written_mono: "0 \<le> n \<Longrightarrow> \<exists>t. written D (n + int m) = written D n @ t"
proof (induction m)
  case (Suc m)
  then have "written D (n + int m + 1) = written D (n + int m) @ D (n + int m)" by (intro written_step) simp
  then show ?case using Suc by (auto simp: algebra_simps)
qed simp

lemma written_prefix:
  assumes "tiled_from 0 cs (int (length obj))" and "0 \<le> n"
  shows "\<exists>t. obj = written (chunk_content obj cs) n @ t"
  using written_mono [OF assms(2), of "chunk_content obj cs" "length cs"]
    written_all [OF assms(1), of "n + int (length cs)"] assms(2)
  by auto

lemma returned_prefix:
  assumes inv: "sink_inv (chunk_content obj cs) y" and til: "tiled_from 0 cs (int (length obj))"
    and ret: "returned (syPc y)"
  shows "\<exists>t. obj = syOut y @ t"
proof -
  let ?D = "chunk_content obj cs" and ?n = "ssNextIndex (sySink y)"
  have n: "0 \<le> ?n" using inv by (simp add: sink_inv_def)
  consider "syOut y = written ?D ?n"
    | k where "0 < ?n" "syOut y = written ?D (?n - 1) @ take k (?D (?n - 1))"
    using inv ret
    by (cases "syPc y" rule: returned.cases) (auto simp: sink_inv_def elim!: out_ok.elims)
  then show ?thesis
  proof cases
    case 1
    then show ?thesis using written_prefix [OF til n] by simp
  next
    case (2 k)
    have "written ?D ?n = written ?D (?n - 1) @ ?D (?n - 1)" using written_step [of "?n - 1" ?D] 2(1) by simp
    also have "\<dots> = syOut y @ drop k (?D (?n - 1))" using 2(2) by simp
    finally show ?thesis using written_prefix [OF til n] by auto
  qed
qed

section \<open>A concrete execution\<close>

definition demo_stream_execution :: "nat \<Rightarrow> job_event" where
  "demo_stream_execution = then_idle demo_stream_events 2 100"

lemma demo_stream_end:
  "all_done (pool_run demo_stream_events (demo_stream 4 2)) \<and>
   waits_over 100 (jbSched (plJob (pool_run demo_stream_events (demo_stream 4 2)))) \<and>
   stream_over (pool_run demo_stream_events (demo_stream 4 2)) \<and>
   \<not> list_ex may_hold (plWorkers (pool_run demo_stream_events (demo_stream 4 2)))"
  by code_simp

lemma done_apply: "w < length (plWorkers p) \<Longrightarrow> plWorkers p ! w = PDone r \<Longrightarrow> plWorkers (pool_apply e p) ! w = PDone r"
  by (cases e) (auto simp: writer_event_def nth_list_update split: job_sink.split prod.split)

lemma done_later:
  assumes "w < length (plWorkers p)" and "worker_at e p i w = PDone r" and "i \<le> j"
  shows "worker_at e p j w = PDone r"
  using assms(3)
proof (induction j rule: dec_induct)
  case (step j)
  then show ?case using done_apply [of w "pool_at e p j"] assms(1) pool_at_workers [of e p j] by simp
qed (rule assms(2))

text \<open>A complete run that goes on with idle steps is fair.\<close>

lemma then_idle_stream_fair:
  assumes over: "stream_over (pool_run es p)" and late: "waits_over t (jbSched (plJob (pool_run es p)))"
    and ok: "\<forall>pc \<in> set (plWorkers (pool_run es p)). \<not> may_hold pc" and n: "n = length (plWorkers p)"
    and close: "es = es' @ [JClose, ev]"
      "sink_closed (jbSink (plJob (pool_run (es' @ [JClose]) p)))" "sink_closed (jbSink (plJob (pool_run es p)))"
  shows "stream_fair (then_idle es n t) p"
proof -
  let ?e = "then_idle es n t"
  have dn: "all_done (pool_run es p)" using over by (simp add: stream_over_def)
  have at: "pool_at ?e p i = pool_run es p" if "length es \<le> i" for i by (rule then_idle_end [OF dn that])
  have len: "length (plWorkers (pool_run es p)) = length (plWorkers p)"
    using pool_at_workers [of ?e p "length es"] at by simp
  have "\<exists>j \<ge> i. is_served w (?e j) (pool_at ?e p j)" if w: "w < length (plWorkers p)" for w i
  proof -
    let ?j = "(length es + i) * n + w"
    have "0 < n" using w n by linarith
    then have j: "length es + i \<le> ?j" by (cases n) auto
    have "worker_done (plWorkers (pool_run es p) ! w)" using dn w len by (simp add: all_done_def list_all_length)
    then have "gets_answer InOk (plWorkers (pool_run es p) ! w)" by (cases "plWorkers (pool_run es p) ! w") auto
    moreover have "?e ?j = JStep w t InOk" using j w n by (simp add: then_idle_def)
    ultimately show ?thesis using j late at [of ?j] by (intro exI [of _ ?j]) (simp add: is_served_def)
  qed
  moreover have "worker_at ?e p i w \<noteq> PDone (Some err)" if w: "w < length (plWorkers p)" for w i err
  proof
    assume "worker_at ?e p i w = PDone (Some err)"
    then have "worker_at ?e p (i + length es) w = PDone (Some err)" by (rule done_later [OF w]) simp
    moreover have "plWorkers (pool_run es p) ! w \<in> set (plWorkers (pool_run es p))" using w len by simp
    ultimately show False using ok at [of "i + length es"] by fastforce
  qed
  moreover have "\<exists>j \<ge> i. ?e j = JClose" if open_i: "\<not> sink_closed (jbSink (plJob (pool_at ?e p i)))" for i
  proof -
    have "i \<noteq> Suc (length es')"
    proof
      assume "i = Suc (length es')"
      then have "pool_at ?e p i = pool_run (es' @ [JClose]) p"
        using close(1) then_idle_prefix [of i es n t p] by simp
      then show False using open_i close(2) by simp
    qed
    moreover have "i < length es" using open_i close(3) at [of i] by (cases "length es \<le> i") auto
    ultimately have "i \<le> length es'" using close(1) by simp
    moreover have "?e (length es') = JClose" using close(1) by (simp add: then_idle_def nth_append)
    ultimately show ?thesis by blast
  qed
  moreover have "\<exists>j \<ge> i. writer_served (?e j) (pool_at ?e p j)" for i
    using over at [of "i + length es"]
    by (intro exI [of _ "i + length es"])
      (auto simp: writer_served_def stream_over_def split: job_sink.split writer_pc.splits)
  ultimately show ?thesis unfolding stream_fair_def by blast
qed

lemma demo_stream_start: "stream_start (demo_stream_plan 4 2) demo_probe = Some (demo_stream 4 2)"
proof -
  have "stream_start (demo_stream_plan 4 2) demo_probe \<noteq> None" by code_simp
  then show ?thesis by (simp add: demo_stream_def)
qed

lemma demo_stream_execution_fair:
  "answered demo_obj demo_stream_execution (demo_stream 4 2)"
  "stream_fair demo_stream_execution (demo_stream 4 2)"
proof -
  let ?es' = "butlast (butlast demo_stream_events)"
  have split: "demo_stream_events = ?es' @ [JClose, JWriter False]"
    by (simp add: demo_stream_events_def butlast_append)
  have len: "2 = length (plWorkers (demo_stream 4 2))" by code_simp
  have closed: "sink_closed (jbSink (plJob (pool_run (?es' @ [JClose]) (demo_stream 4 2))))"
    "sink_closed (jbSink (plJob (pool_run demo_stream_events (demo_stream 4 2))))" by code_simp+
  show "answered demo_obj demo_stream_execution (demo_stream 4 2)"
    using demo_stream_run by (simp add: demo_stream_execution_def then_idle_answered)
  show "stream_fair demo_stream_execution (demo_stream 4 2)"
    unfolding demo_stream_execution_def
    using demo_stream_end by (intro then_idle_stream_fair [OF _ _ _ len split closed]) (auto simp: list_ex_iff)
qed

section \<open>Properties\<close>

text \<open>C4: No deadlock and no livelock of a stream job either: in every fair execution, where
  requests, reads and writes may fail and speculative duplicates be started again and again,
  all workers return, the closed stream is drained and its writer returns. The consumer has
  received a prefix of the object, and all of it when the exit code is success.\<close>

theorem stream_job_returns:
  assumes "plan_ok (epSplitSize p) (prSize r)" and "prSize r = int (length obj)"
    and "1 \<le> epConnections p" and "stream_start p r = Some q0"
    and "answered obj e q0" and "stream_fair e q0"
  shows "\<exists>n y werr. all_done (pool_at e q0 n) \<and>
    jbSink (plJob (pool_at e q0 n)) = StreamTo y \<and> syPc y = WReturned werr \<and>
    (\<exists>t. obj = syOut y @ t) \<and>
    (stream_exit (run_workers_exit msg (worker_results arrival (pool_at e q0 n))
       (jbSched (plJob (pool_at e q0 n)))) werr = ExitSuccess \<longrightarrow> syOut y = obj)"
proof -
  obtain cs where live: "live_stream obj cs q0" and til: "tiled_from 0 cs (int (length obj))"
    by (rule stream_start_live [OF assms(1-4)])
  obtain n where n: "stream_over (pool_at e q0 n)" using stream_ends [OF live assms(5,6)] by blast
  have lv: "live_stream obj cs (pool_at e q0 n)" by (rule pool_at_stream(1) [OF live assms(5)])
  then obtain y where y: "jbSink (plJob (pool_at e q0 n)) = StreamTo y"
    by (cases "jbSink (plJob (pool_at e q0 n))") (auto simp: live_stream_def)
  obtain werr where w: "all_done (pool_at e q0 n)" "syPc y = WReturned werr"
    using n y by (cases "syPc y") (auto simp: stream_over_def)
  have "sink_inv (chunk_content obj cs) y"
    using lv y by (auto simp: live_stream_def pool_inv_def job_inv_def)
  then have "\<exists>t. obj = syOut y @ t" using returned_prefix [OF _ til] w(2) by simp
  moreover have "syOut y = obj"
    if "stream_exit (run_workers_exit msg (worker_results arrival (pool_at e q0 n))
          (jbSched (plJob (pool_at e q0 n)))) werr = ExitSuccess"
    using stream_job_correct [OF assms(1-4) answered_answers [OF assms(5)]] y w(2) that
    by (simp add: pool_at_run)
  ultimately show ?thesis using w y by blast
qed

theorem stream_job_returns_witness:
  "\<exists>n y werr. all_done (pool_at demo_stream_execution (demo_stream 4 2) n) \<and>
     jbSink (plJob (pool_at demo_stream_execution (demo_stream 4 2) n)) = StreamTo y \<and>
     syPc y = WReturned werr \<and> (\<exists>t. demo_obj = syOut y @ t)"
proof -
  have "plan_ok (epSplitSize (demo_stream_plan 4 2)) (prSize demo_probe)"
    "prSize demo_probe = int (length demo_obj)" "1 \<le> epConnections (demo_stream_plan 4 2)"
    by (simp_all add: demo_stream_plan_def demo_plan_def demo_probe_def plan_ok_def demo_obj_def)
  from stream_job_returns [OF this demo_stream_start demo_stream_execution_fair]
  show ?thesis by blast
qed

end
