(* ===== verification/Worker_Wait.thy ===== *)
theory Worker_Wait
  imports Job_Props "HOL-Library.Sublist"
begin

text \<open>
  The condition variable of the scheduler. In \<open>Workers\<close> a worker whose \<open>NextAssignment\<close> finds
  nothing may look again at any time; here it waits in \<open>cond.Wait\<close> until somebody calls
  \<open>Broadcast\<close>: the methods that do so, \<open>Cancel\<close>, and \<open>retryTicker\<close>, which stops when the
  context of the scheduler is done.
\<close>

section \<open>Who wakes whom\<close>

text \<open>The calls that reach their \<open>Broadcast\<close>; the others return before it or have none.\<close>

fun broadcasts :: "worker_pc \<Rightarrow> job \<Rightarrow> bool" where
  "broadcasts (PAdmission slot k) j = in_range slot (sWorkers (jbSched j))"
| "broadcasts (PRetry slot k) j =
     (let idx = cIndex (chunk_at j k); cs = sChunks (jbSched j)
      in in_range idx cs \<and> cState (cs ! nat idx) = StateActive)"
| "broadcasts (PAbort slot k e) j =
     (let idx = cIndex (chunk_at j k); cs = sChunks (jbSched j)
      in in_range idx cs \<and> cState (cs ! nat idx) = StateActive)"
| "broadcasts (PMark slot k) j = in_range (cIndex (chunk_at j k)) (sChunks (jbSched j))"
| "broadcasts (PDropHedge slot k) j = True"
| "broadcasts (PHedgeWon slot k) j = True"
| "broadcasts _ j = False"

fun blocks :: "gtime \<Rightarrow> worker_pc \<Rightarrow> job \<Rightarrow> bool" where
  "blocks now (PNext slot) j = (snd (next_assignment now slot (jbSched j)) = NABlock)"
| "blocks now _ j = False"

record wait_pool =
  wpPool :: pool
  wpWaiting :: "nat set"

text \<open>\<open>WaTick\<close> is a tick of \<open>retryTicker\<close>.\<close>

datatype wait_event = WaJob job_event | WaTick

definition wait_step :: "nat \<Rightarrow> gtime \<Rightarrow> step_input \<Rightarrow> wait_pool \<Rightarrow> wait_pool" where
  "wait_step w now inp q =
     (let p = wpPool q
      in if w \<in> wpWaiting q \<or> w \<ge> length (plWorkers p) then q
         else let pc = plWorkers p ! w;
                  still = (if broadcasts pc (plJob p) then {} else wpWaiting q)
              in \<lparr>wpPool = pool_apply (JStep w now inp) p,
                  wpWaiting = (if blocks now pc (plJob p) then insert w still else still)\<rparr>)"

fun wait_apply :: "wait_event \<Rightarrow> wait_pool \<Rightarrow> wait_pool" where
  "wait_apply (WaJob (JStep w now inp)) q = wait_step w now inp q"
| "wait_apply (WaJob JCancel) q = \<lparr>wpPool = pool_apply JCancel (wpPool q), wpWaiting = {}\<rparr>"
| "wait_apply (WaJob e) q = q\<lparr>wpPool := pool_apply e (wpPool q)\<rparr>"
| "wait_apply WaTick q = (if sCancelled (jbSched (plJob (wpPool q))) then q else q\<lparr>wpWaiting := {}\<rparr>)"

definition wait_start :: "pool \<Rightarrow> wait_pool" where
  "wait_start p = \<lparr>wpPool = p, wpWaiting = {}\<rparr>"

definition wait_run :: "wait_event list \<Rightarrow> wait_pool \<Rightarrow> wait_pool" where
  "wait_run es q = fold wait_apply es q"

fun job_events :: "wait_event list \<Rightarrow> job_event list" where
  "job_events [] = []"
| "job_events (WaJob e # es) = e # job_events es"
| "job_events (WaTick # es) = job_events es"

section \<open>Nobody sleeps through a cancellation\<close>

text \<open>Whoever makes the context of the scheduler done wakes the others.\<close>

lemma cancels_broadcasts:
  assumes "sCancelled (jbSched (fst (worker_step now inp pc j)))" and "\<not> sCancelled (jbSched j)"
  shows "broadcasts pc j"
proof (cases pc)
  case (PNext slot)
  obtain s r where na: "next_assignment now slot (jbSched j) = (s, r)" by fastforce
  have "sCancelled s = sCancelled (jbSched j)"
    using na by (auto simp: next_assignment_def try_assign_def assign_chunk_def Let_def
        split: if_splits option.splits prod.splits)
  then show ?thesis using PNext na assms by simp
next
  case (PHedge slot i)
  then show ?thesis
    using assms by (auto simp: start_hedge_def Let_def split: option.splits if_splits)
next
  case (PPut slot k hedge data)
  then show ?thesis using assms
    by (auto simp: put_step_def split: job_sink.splits sum.splits step_input.splits prod.splits res.splits)
next
  case (PSidecar slot k hedge)
  then show ?thesis using assms
    by (auto simp: sidecar_step_def split: job_sink.splits step_input.splits prod.splits res.splits)
qed (use assms in \<open>auto simp: on_sched_def Let_def reserve_step_def mark_failed_def mark_complete_def
      record_chunk_duration_def on_admission_failure_def on_worker_success_def cancel_hedge_def
      split: job_sink.splits sum.splits if_splits\<close>)

lemma blocks_not_cancelled:
  assumes "blocks now pc j"
  shows "\<not> sCancelled (jbSched (fst (worker_step now inp pc j)))"
    and "\<exists>slot. pc = PNext slot \<and> snd (worker_step now inp pc j) = PNext slot"
proof -
  obtain slot where pc: "pc = PNext slot" "snd (next_assignment now slot (jbSched j)) = NABlock"
    using assms by (cases pc) auto
  show "\<exists>slot. pc = PNext slot \<and> snd (worker_step now inp pc j) = PNext slot"
    using pc by (cases "next_assignment now slot (jbSched j)") (simp add: take_assignment_def)
  have "\<not> sCancelled (jbSched j)" using pc(2) by (auto simp: next_assignment_def Let_def)
  moreover have "\<not> broadcasts pc j" using pc(1) by simp
  ultimately show "\<not> sCancelled (jbSched (fst (worker_step now inp pc j)))" using cancels_broadcasts by blast
qed

definition wait_inv :: "wait_pool \<Rightarrow> bool" where
  "wait_inv q \<longleftrightarrow>
     (\<forall>w \<in> wpWaiting q. w < length (plWorkers (wpPool q)) \<and> (\<exists>slot. plWorkers (wpPool q) ! w = PNext slot)) \<and>
     (sCancelled (jbSched (plJob (wpPool q))) \<longrightarrow> wpWaiting q = {})"

lemma wait_step_inv:
  assumes inv: "wait_inv q"
  shows "wait_inv (wait_step w now inp q)"
proof (cases "w \<in> wpWaiting q \<or> w \<ge> length (plWorkers (wpPool q))")
  case False
  let ?p = "wpPool q" and ?pc = "plWorkers (wpPool q) ! w"
  let ?still = "if broadcasts ?pc (plJob ?p) then {} else wpWaiting q"
  obtain j pc' where st: "worker_step now inp ?pc (plJob ?p) = (j, pc')" by fastforce
  have q: "wait_step w now inp q = \<lparr>wpPool = \<lparr>plJob = j, plWorkers = (plWorkers ?p)[w := pc']\<rparr>,
      wpWaiting = (if blocks now ?pc (plJob ?p) then insert w ?still else ?still)\<rparr>"
    using False st by (simp add: wait_step_def Let_def)
  have still: "?still = {}" if "sCancelled (jbSched j)"
    using inv that cancels_broadcasts [of now inp ?pc "plJob ?p"] st by (auto simp: wait_inv_def)
  have b: "blocks now ?pc (plJob ?p) \<Longrightarrow> \<not> sCancelled (jbSched j) \<and> (\<exists>slot. pc' = PNext slot)"
    using blocks_not_cancelled [of now ?pc "plJob ?p" inp] st by auto
  have old: "v < length (plWorkers ?p) \<and> v \<noteq> w \<and> (\<exists>slot. plWorkers ?p ! v = PNext slot)" if "v \<in> ?still" for v
    using that inv False by (auto simp: wait_inv_def split: if_splits)
  show ?thesis
    unfolding q wait_inv_def using False still b old by (auto simp: nth_list_update split: if_splits)
qed (use inv in \<open>auto simp: wait_step_def Let_def\<close>)

lemma wait_apply_inv: "wait_inv q \<Longrightarrow> wait_inv (wait_apply e q)"
  by (induction e q rule: wait_apply.induct)
    (auto simp: wait_step_inv, auto simp: wait_inv_def writer_event_def split: job_sink.split)

interpretation wait_system: inductive_invariant wait_inv "\<lambda>q r. \<exists>e. r = wait_apply e q" wait_inv
  by unfold_locales (auto intro: wait_apply_inv)

lemma wait_run_inv: "wait_inv q \<Longrightarrow> wait_inv (wait_run es q)"
  unfolding wait_run_def by (induction es arbitrary: q) (simp_all add: wait_apply_inv)

text \<open>A run with waits is a run of the pool in which the blocked steps are left out.\<close>

lemma wait_apply_pool:
  "wpPool (wait_apply (WaJob e) q) = pool_apply e (wpPool q) \<or> wpPool (wait_apply (WaJob e) q) = wpPool q"
  by (cases e) (auto simp: wait_step_def Let_def)

lemma wait_run_pool: "\<exists>es'. subseq es' (job_events es) \<and> wpPool (wait_run es q) = pool_run es' (wpPool q)"
proof (induction es arbitrary: q)
  case (Cons e es)
  obtain es' where es': "subseq es' (job_events es)"
    "wpPool (wait_run es (wait_apply e q)) = pool_run es' (wpPool (wait_apply e q))"
    using Cons by blast
  have run: "wait_run (e # es) q = wait_run es (wait_apply e q)" by (simp add: wait_run_def)
  show ?case
  proof (cases e)
    case (WaJob d)
    consider "wpPool (wait_apply e q) = pool_apply d (wpPool q)" | "wpPool (wait_apply e q) = wpPool q"
      using wait_apply_pool [of d q] WaJob by blast
    then show ?thesis
    proof cases
      case 1
      then show ?thesis using es' run WaJob by (intro exI [of _ "d # es'"]) simp
    next
      case 2
      then show ?thesis using es' run WaJob by (intro exI [of _ es']) (simp add: list_emb_Cons)
    qed
  next
    case WaTick
    then show ?thesis using es' run by (intro exI [of _ es']) simp
  qed
qed (auto simp: wait_run_def intro!: exI [of _ "[]"])

text \<open>C14: No wake-up is lost: whatever the interleaving, only workers in \<open>NextAssignment\<close> wait,
  nobody waits once the scheduler is cancelled, by \<open>Cancel\<close> or by a chunk out of attempts, and
  until then the next tick of \<open>retryTicker\<close> wakes everybody. Apart from the waits the pool
  behaves as it does without the condition variable.\<close>

theorem no_lost_wakeup:
  "(\<forall>w \<in> wpWaiting (wait_run es (wait_start p)).
      \<exists>slot. plWorkers (wpPool (wait_run es (wait_start p))) ! w = PNext slot) \<and>
   (sCancelled (jbSched (plJob (wpPool (wait_run es (wait_start p))))) \<longrightarrow>
      wpWaiting (wait_run es (wait_start p)) = {}) \<and>
   wpWaiting (wait_run (es @ [WaTick]) (wait_start p)) = {} \<and>
   (\<exists>es'. subseq es' (job_events es) \<and> wpPool (wait_run es (wait_start p)) = pool_run es' p)"
proof -
  have inv: "wait_inv (wait_run es (wait_start p))"
    by (intro wait_run_inv) (simp add: wait_inv_def wait_start_def)
  moreover have "wait_run (es @ [WaTick]) (wait_start p) = wait_apply WaTick (wait_run es (wait_start p))"
    by (simp add: wait_run_def)
  moreover have "wpPool (wait_start p) = p" by (simp add: wait_start_def)
  ultimately show ?thesis
    using wait_run_pool [of es "wait_start p"] by (auto simp: wait_inv_def)
qed

text \<open>A buffer of one chunk admits one transfer: the second worker waits, and is woken by a
  tick, or by \<open>Cancel\<close>.\<close>

definition demo_wait :: "wait_event list" where
  "demo_wait = map WaJob [JStep 0 1 InOk, JStep 0 2 InOk, JStep 1 3 InOk, JStep 1 4 InOk]"

theorem no_lost_wakeup_witness:
  "wpWaiting (wait_run demo_wait (wait_start (demo_stream 2 2))) = {1} \<and>
   wpWaiting (wait_run (demo_wait @ [WaTick]) (wait_start (demo_stream 2 2))) = {} \<and>
   wpWaiting (wait_run (demo_wait @ [WaJob JCancel]) (wait_start (demo_stream 2 2))) = {}"
proof -
  have "wpWaiting (wait_run demo_wait (wait_start (demo_stream 2 2))) = {1}" by code_simp
  moreover have "sCancelled (jbSched (plJob (wpPool
      (wait_run (demo_wait @ [WaJob JCancel]) (wait_start (demo_stream 2 2))))))" by code_simp
  ultimately show ?thesis
    using no_lost_wakeup [of demo_wait "demo_stream 2 2"]
      no_lost_wakeup [of "demo_wait @ [WaJob JCancel]" "demo_stream 2 2"] by blast
qed

end
