(* ===== verification/Spec2Isabelle.thy ===== *)
theory Spec2Isabelle
  imports Go_Base Go_Strings Chunk_Plan Scheduler Scheduler_Inv Scheduler_Props Stream_Sink
    Stream_Sink_Props Base64 Sidecar Sidecar_Props File_Sink Byte_Reader Adapter Http_Adapter
    Http_Props Openssl_Conn Http_Transport Transport_Props Ftp_Adapter Ftp_Props Cli_Plan
    Cli_Parser Cli_Props Job_Setup Resume_Props Workers Workers_Inv Job_Props Runner
    Runner_Props Job_Exec Job_Net Job_Exec_Props Job_Stream_Props Main_Program Version Go_Float
    Progress Progress_Props Throughput Cli_Seconds Job_Measure Job_Live Job_Live_Props Job_Monitor
    Job_Monitor_Props Stream_Measure Stream_Live Stream_Live_Props Worker_Wait
begin

text \<open>
  A verification development for pget, a command-line downloader that fetches an object over
  several connections, in chunks, into a file (resumable through a sidecar) or as an ordered
  stream.

  \<^bold>\<open>How the program works and where it is modelled.\<close>
  The command line becomes an execution plan. The runner walks the URLs: it probes each, decides
  between a parallel and a sequential download, and combines the exit codes. A parallel download
  plans chunks, gives them to a scheduler, and starts one worker per connection; a worker asks
  the scheduler for a chunk, requests its range and hands the bytes to a sink. The file sink
  writes at the chunk's offset and records the chunk in the sidecar; the stream sink reorders
  the chunks in bounded memory for a writer that emits them in index order.

  \<^item> \<open>Go_Base\<close>, \<open>Go_Strings\<close>, \<open>Base64\<close>: Go's 64-bit integers, instants, results and panics,
    strings, decimal conversion and base64, as far as the code uses them.
  \<^item> \<open>Chunk_Plan\<close>: \<open>internal/chunk/chunk.go\<close>. The record \<open>chunk\<close> is \<open>Chunk\<close>, \<open>plan\<close> is \<open>Plan\<close>.
    Lemmas: a plan tiles the object (locale \<open>chunk_layout\<close>).
  \<^item> \<open>Scheduler\<close>, \<open>Scheduler_Inv\<close>, \<open>Scheduler_Props\<close>: \<open>internal/schedule/scheduler.go\<close> and
    \<open>stats.go\<close>. The record \<open>sched\<close> is the struct under its mutex, each method one function;
    \<open>next_assignment\<close> is one pass of the loop in \<open>NextAssignment\<close>, with \<open>NABlock\<close> for the wait.
    Lemmas: the invariant \<open>sched_inv\<close>, kept by every method and so by every interleaving
    (\<open>sched_step\<close>, an interpretation of \<open>inductive_invariant\<close>).
  \<^item> \<open>Stream_Sink\<close>, \<open>Stream_Sink_Props\<close>: \<open>internal/sink/stream.go\<close>. \<open>reserve\<close>, \<open>submit\<close> and
    \<open>close_sink\<close> are the client's methods, \<open>writer_pc\<close> the places of the writer goroutine
    between two releases of the mutex, \<open>sink_run\<close> any interleaving. Lemmas: order, completeness,
    memory bound, termination after enough writer steps (one per chunk and one more).
  \<^item> \<open>Sidecar\<close>, \<open>Sidecar_Props\<close>: \<open>internal/sidecar/sidecar.go\<close>. The manager with its two files is one record;
    \<open>write_outcome\<close> is what the file system does with a write through a temporary file, the
    death of the process included. The contract of recorded completions is the locale
    \<open>completion_log\<close>, interpreted by \<open>mark_item\<close>. Lemmas: bitmaps round-trip, every sequence of
    operations and deaths keeps the manager well-formed, and marks survive failed writes.
  \<^item> \<open>File_Sink\<close>: \<open>internal/sink/file.go\<close>. \<open>write_chunk\<close> is composed of its write and its mark.
    Lemmas: what the sidecar records is in the file (\<open>file_sound\<close>).
  \<^item> \<open>Byte_Reader\<close>: \<open>io.Reader\<close> as the locales \<open>byte_reader\<close> and \<open>live_reader\<close>, the loop of
    \<open>io.ReadFull\<close> and its lemmas, interpreted for response bodies, the counting reader of the
    runner and the FTP range reader.
  \<^item> \<open>Adapter\<close>, \<open>Http_Adapter\<close>, \<open>Http_Props\<close>: \<open>internal/adapter\<close>. The client of \<open>net/http\<close> is
    an argument; \<open>truthful\<close> states what a server promises about partial answers.
  \<^item> \<open>Openssl_Conn\<close>, \<open>Http_Transport\<close>, \<open>Transport_Props\<close>: \<open>New\<close> of the HTTP adapter and
    \<open>internal/adapter/http/openssl\<close>. The results of the C library are arguments; \<open>tls_resources\<close>
    is what a connection holds, \<open>conn_step\<close> the interleavings of \<open>Read\<close>, \<open>Write\<close> and \<open>Close\<close>.
  \<^item> \<open>Ftp_Adapter\<close>, \<open>Ftp_Props\<close>: \<open>internal/adapter/ftp\<close> over an arbitrary FTP library, counting
    the control connections left open.
  \<^item> \<open>Cli_Plan\<close>, \<open>Cli_Parser\<close>, \<open>Cli_Props\<close>: \<open>internal/cli\<close>. \<open>cli_parse\<close> is \<open>Parse\<close>.
  \<^item> \<open>Job_Setup\<close>, \<open>Resume_Props\<close>: the set-up of a parallel file job in \<open>internal/job/runner.go\<close>,
    the decision to resume, and runs with deaths and restarts.
  \<^item> \<open>Workers\<close>, \<open>Workers_Inv\<close>, \<open>Job_Props\<close>: \<open>workerLoop\<close> and \<open>runWorkers\<close> of the same file. The
    places of \<open>worker_pc\<close> lie between two accesses to the scheduler or the sink, so \<open>pool_run\<close>
    over any list of events is an interleaving. Lemmas: the pool's invariant, and from it that
    a job that exits with success has the object in its file, or has delivered it.
  \<^item> \<open>Runner\<close>, \<open>Runner_Props\<close>: names, \<open>runOneJob\<close>, the sequential download and \<open>Run\<close>, over an
    arbitrary execution of the chosen action.
  \<^item> \<open>Job_Exec\<close>, \<open>Job_Net\<close>, \<open>Job_Exec_Props\<close>, \<open>Job_Stream_Props\<close>: that execution. Set-up, pool,
    HTTP requests and \<open>Finalize\<close> are composed to \<open>download_parallel_file\<close> and
    \<open>download_parallel_stream\<close>, and these by \<open>execute_job\<close> to the actions of \<open>run\<close>. The theorems
    speak of whole runs against truthful servers.
  \<^item> \<open>Job_Measure\<close>, \<open>Job_Live\<close>, \<open>Job_Live_Props\<close>: how a parallel file job ends. A measure of the
    attempts left and the places of the workers falls with every move; every active chunk is
    held by exactly one worker (\<open>owned\<close>), so idle workers are not blocked for ever. An execution is
    an unending schedule \<open>nat \<Rightarrow> job_event\<close>; it is \<open>fair\<close> when every worker gets answered steps
    again and again at times when nothing has to be waited for, which the passing of time, the
    time-outs of the network and \<open>retryTicker\<close> provide.
  \<^item> \<open>Stream_Measure\<close>, \<open>Stream_Live\<close>, \<open>Stream_Live_Props\<close>: how a parallel stream job ends. No
    measure falls with every move, because duplicates can start again and again; but the states
    and attempts of the chunks settle (\<open>settles\<close>), then whoever carries an active chunk goes
    down to its end, and without an active chunk no duplicate starts. \<open>stream_fair\<close> says in
    addition that \<open>runWorkers\<close> cancels after an error, closes the stream at the end, and that the
    writer goes on.
  \<^item> \<open>Worker_Wait\<close>: the condition variable of the scheduler with \<open>retryTicker\<close>. Elsewhere a
    blocked worker may look again at any time; here it waits for a broadcast. Lemmas: a run with
    waits is a run without them, and no wake-up is lost.
  \<^item> \<open>Job_Monitor\<close>, \<open>Job_Monitor_Props\<close>: the progress bar of a parallel download, with ticks
    between the events of the pool. Lemmas: the received bytes are counted exactly.
  \<^item> \<open>Main_Program\<close>: \<open>cmd/pget/main.go\<close> and \<open>internal/job/background.go\<close>. \<open>Version\<close>:
    \<open>internal/version/version.go\<close>.
  \<^item> \<open>Go_Float\<close>, \<open>Progress\<close>, \<open>Progress_Props\<close>: \<open>internal/progress/progress.go\<close>. A \<open>float64\<close> is a
    rational, rounded to 53 bits after each operation (\<open>fl\<close>). Lemmas: the width of a line, and
    that rounding changes neither a duration nor a full bar. \<open>Throughput\<close> and \<open>Cli_Seconds\<close> are
    the other uses of \<open>float64\<close>, \<open>RecentThroughput\<close> and \<open>parseSeconds\<close>.

  \<^bold>\<open>Conventions.\<close> A method under a mutex is atomic; time, the network, the file system and the
  consumer of a stream act through arguments and events. Integers are HOL integers with the
  64-bit wrap-around written out (\<open>i64\<close>) where the arithmetic can leave the range; the
  planner's theorems hold for sizes whose sum fits 64 bits (\<open>plan_ok\<close>). A panic is \<open>None\<close>,
  \<open>Panic\<close> or the worker's place \<open>PCrash\<close>. The only fuel is in \<open>trim_left_n\<close>, which takes as
  many steps as the text has bytes and removes at least one byte in each.

  \<^bold>\<open>Hypotheses about code outside the repository.\<close> \<open>truthful\<close> (RFC 9110, partial content) for
  the server; that the transport delivers a part of a body from its start (\<open>net_ok\<close>); for the
  FTP library, that a retrieval from an offset delivers the file from there (\<open>serves\<close>). The
  lemmas about the pool alone assume that a delivered body is the requested range
  (\<open>answers\<close>), which \<open>Job_Net\<close> derives from these.

  \<^bold>\<open>Not modelled.\<close> The syntax of \<open>strconv.ParseFloat\<close> (an argument), the start of processes and
  signals (arguments and the event \<open>JCancel\<close>), messages to the terminal, the initialisation of the
  C library, power loss (a death of the process keeps what was written to a file), and the test
  helpers. That a stream job succeeds when nothing fails is not stated: a slow consumer or a late
  duplicate can make it fail (\<open>slow_consumer_fails_job\<close>, \<open>late_copy_fails_stream\<close>), so only its
  return is.
\<close>

end
